(* ===== verification/Go_Prelude.thy ===== *)
theory Go_Prelude
  imports Main "HOL-Library.Word" "HOL-Library.Char_ord" "HOL-Library.List_Lexorder"
begin

text \<open>
  The vocabulary every other theory shares.

  Go's \<open>string\<close> and \<open>[]byte\<close> are both sequences of bytes, and a conversion between them
  copies the bytes unchanged; both are the HOL type \<open>bytes\<close>, a list of (8-bit) characters, so a
  Go string literal is written as a HOL string literal. Fixed-width unsigned integers are words of
  that width, so \<open>+\<close> wraps around as it does in Go. \<open>int64\<close> and \<open>int\<close> are words
  too, read as two's complement by \<open>sint\<close>, so that Go's conversion between \<open>int64\<close> and
  \<open>uint64\<close> is the identity. A length is a natural number.

  The theory holds big-endian integers (\<open>encoding/binary\<close>), unsigned decimals
  (\<open>strconv.FormatUint\<close> and \<open>strconv.ParseUint\<close>), the \<open>strings\<close> functions
  the sources use, and the interface \<open>prefix_code\<close>: an encoder whose output tells where it
  ends. Every byte transcript of the program (signing inputs, fingerprints, commitments, authenticated
  headers) is a sequence of such encoders, and one lemma of the interface per encoder is what makes the
  transcripts unambiguous.
\<close>

type_synonym bytes = string
type_synonym uint8 = "8 word"
type_synonym uint16 = "16 word"
type_synonym uint32 = "32 word"
type_synonym uint64 = "64 word"
type_synonym int32 = "32 word"
type_synonym int64 = "64 word"

named_theorems enc_inj \<open>unambiguity of encoders, as equivalences for the simplifier\<close>
named_theorems enc_len \<open>lengths of encodings\<close>
named_theorems guard_iff \<open>when a chain of guards and early returns reaches its end\<close>

section \<open>Bytes\<close>

text \<open>The numeric value of a byte, and the byte of a number (the low eight bits, as \<open>byte(n)\<close>).\<close>

abbreviation byte_val :: "char \<Rightarrow> nat" where
  "byte_val c \<equiv> of_char c"

abbreviation byte_of :: "nat \<Rightarrow> char" where
  "byte_of n \<equiv> char_of n"

lemma byte_val_less [simp]: "byte_val c < 256"
  by (rule nat_of_char_less_256)

lemma byte_val_le [simp]: "byte_val c \<le> 255"
  using byte_val_less [of c] by linarith

lemma byte_val_inj: "byte_val a = byte_val b \<longleftrightarrow> a = b"
  by simp

text \<open>A small \<open>int32\<close> read as a signed number.\<close>

lemma sint_small: "unat (w :: int32) < n \<Longrightarrow> n \<le> 2147483648 \<Longrightarrow> sint w = int (unat w)"
proof -
  assume "unat w < n" and "n \<le> 2147483648"
  then have "int (unat w) < 2147483648"
    by linarith
  then have "uint w < 2147483648"
    by (simp only: uint_nat [symmetric] of_nat_unat)
  moreover have "- 2147483648 \<le> uint w"
    by (rule order_trans [of _ 0]) simp_all
  ultimately show ?thesis
    unfolding sint_uint by (subst signed_take_bit_int_eq_self) simp_all
qed

lemma sint_small_less: "unat (w :: int32) < n \<Longrightarrow> n \<le> 2147483648 \<Longrightarrow> sint w < int k \<longleftrightarrow> unat w < k"
  using sint_small [of w n] by (simp only: of_nat_less_iff)

text \<open>Every Go slice and string has a length that fits a (signed, 64-bit) \<open>int\<close>.\<close>

definition go_len :: "'a list \<Rightarrow> bool" where
  "go_len xs \<longleftrightarrow> length xs < 2 ^ 63"

section \<open>Fallible results\<close>

text \<open>
  A function that returns a value or an error has a sum type (\<open>Inl\<close> the error); one that only
  returns an error has an option (\<open>None\<close> for \<open>nil\<close>). \<open>and_then\<close> and \<open>unless\<close> are the
  early return on an error.
\<close>

definition and_then :: "'e + 'a \<Rightarrow> ('a \<Rightarrow> 'e + 'b) \<Rightarrow> 'e + 'b" where
  "and_then x k = (case x of Inl e \<Rightarrow> Inl e | Inr a \<Rightarrow> k a)"

definition unless :: "'e option \<Rightarrow> 'e + 'a \<Rightarrow> 'e + 'a" where
  "unless e k = (case e of Some x \<Rightarrow> Inl x | None \<Rightarrow> k)"

lemma and_then_simps [simp]: "and_then (Inl e) k = Inl e" "and_then (Inr a) k = k a"
  by (simp_all add: and_then_def)

lemma unless_simps [simp]: "unless (Some e) k = Inl e" "unless None k = k"
  by (simp_all add: unless_def)

lemma and_then_Inr_iff: "and_then x k = Inr y \<longleftrightarrow> (\<exists>a. x = Inr a \<and> k a = Inr y)"
  by (cases x) auto

lemma unless_Inr_iff: "unless e k = Inr y \<longleftrightarrow> e = None \<and> k = Inr y"
  by (cases e) auto

lemmas result_iff = and_then_Inr_iff unless_Inr_iff

text \<open>
  A guard that returns an error, and the binding of a result whose failure is an early return: each
  step of such a chain is passed exactly when its condition holds, so that a whole function is
  characterised by rewriting, without a case split per branch.
\<close>

lemma if_Some_None [guard_iff]: "(if P then Some e else x) = None \<longleftrightarrow> \<not> P \<and> x = None"
  by simp

lemma if_Inl_Inr [guard_iff]: "(if P then Inl e else x) = Inr y \<longleftrightarrow> \<not> P \<and> x = Inr y"
  by simp

lemma case_option_None [guard_iff]:
  "(case x of None \<Rightarrow> Some e | Some a \<Rightarrow> f a) = None \<longleftrightarrow> (\<exists>a. x = Some a \<and> f a = None)"
  by (cases x) auto

lemma case_option_Inr [guard_iff]:
  "(case x of None \<Rightarrow> Inl e | Some a \<Rightarrow> f a) = Inr y \<longleftrightarrow> (\<exists>a. x = Some a \<and> f a = Inr y)"
  by (cases x) auto

lemma case_error_Inr [guard_iff]:
  "(case x of None \<Rightarrow> r | Some e \<Rightarrow> Inl (g e)) = Inr y \<longleftrightarrow> x = None \<and> r = Inr y"
  by (cases x) auto

lemma case_error_None [guard_iff]:
  "(case x of None \<Rightarrow> r | Some e \<Rightarrow> Some (g e)) = None \<longleftrightarrow> x = None \<and> r = None"
  by (cases x) auto

lemma case_sum_None [guard_iff]:
  "(case x of Inl e \<Rightarrow> Some (g e) | Inr a \<Rightarrow> f a) = None \<longleftrightarrow> (\<exists>a. x = Inr a \<and> f a = None)"
  by (cases x) auto

lemma case_sum_Inr [guard_iff]:
  "(case x of Inl e \<Rightarrow> Inl (g e) | Inr a \<Rightarrow> f a) = Inr y \<longleftrightarrow> (\<exists>a. x = Inr a \<and> f a = Inr y)"
  by (cases x) auto

section \<open>Big-endian integers\<close>

text \<open>
  \<open>be_bytes k n\<close> is what \<open>binary.BigEndian.PutUint16/32/64\<close> and
  \<open>AppendUint16/32/64\<close> write for \<open>k = 2, 4, 8\<close>: the low \<open>8 * k\<close> bits of \<open>n\<close>,
  most significant byte first. \<open>be_val\<close> is \<open>binary.BigEndian.Uint32\<close> and \<open>Uint64\<close>.
\<close>

fun be_bytes :: "nat \<Rightarrow> nat \<Rightarrow> bytes" where
  "be_bytes 0 n = []"
| "be_bytes (Suc k) n = be_bytes k (n div 256) @ [byte_of n]"

definition be_val :: "bytes \<Rightarrow> nat" where
  "be_val bs = foldl (\<lambda>a c. a * 256 + byte_val c) 0 bs"

lemma length_be_bytes [simp, enc_len]: "length (be_bytes k n) = k"
  by (induction k arbitrary: n) auto

lemma be_val_Nil [simp]: "be_val [] = 0"
  by (simp add: be_val_def)

lemma be_val_snoc [simp]: "be_val (bs @ [c]) = be_val bs * 256 + byte_val c"
  by (simp add: be_val_def)

lemma be_val_be_bytes: "be_val (be_bytes k n) = n mod 256 ^ k"
proof (induction k arbitrary: n)
  case 0
  then show ?case by simp
next
  case (Suc k)
  have "n mod 256 ^ Suc k = 256 * (n div 256 mod 256 ^ k) + n mod 256"
    by (simp add: mod_mult2_eq)
  then show ?case
    by (simp add: Suc)
qed

lemma be_val_less: "be_val bs < 256 ^ length bs"
proof (induction bs rule: rev_induct)
  case Nil
  then show ?case by simp
next
  case (snoc c bs)
  have "be_val bs * 256 + byte_val c < (be_val bs + 1) * 256"
    by simp
  also have "\<dots> \<le> 256 ^ length bs * 256"
    using snoc by (intro mult_right_mono) auto
  finally show ?case
    by (simp add: mult.commute)
qed

lemma be_bytes_be_val: "length bs = k \<Longrightarrow> be_bytes k (be_val bs) = bs"
proof (induction bs arbitrary: k rule: rev_induct)
  case Nil
  then show ?case by simp
next
  case (snoc c bs)
  then obtain j where k: "k = Suc j" and j: "length bs = j"
    by auto
  have "byte_of (be_val bs * 256 + byte_val c) = c"
    using char_of_mod_256 [of "be_val bs * 256 + byte_val c"] by (simp add: mod_mult_self3)
  moreover have "(be_val bs * 256 + byte_val c) div 256 = be_val bs"
    by simp
  ultimately show ?case
    using snoc.IH [OF j] by (simp add: k)
qed

lemma be_bytes_inj:
  assumes "m < 256 ^ k" and "n < 256 ^ k" and "be_bytes k m = be_bytes k n"
  shows "m = n"
  using assms by (metis be_val_be_bytes mod_less)


section \<open>Unsigned decimals\<close>

text \<open>
  \<open>dec n\<close> is \<open>strconv.FormatUint(n, 10)\<close>. \<open>parse_uint\<close> is
  \<open>strconv.ParseUint(s, 10, 64)\<close>: at least one character, all of them decimal digits (no
  sign, and no underscore, which base 10 does not admit), and a value that fits 64 bits.
\<close>

definition is_digit :: "char \<Rightarrow> bool" where
  "is_digit c \<longleftrightarrow> 48 \<le> byte_val c \<and> byte_val c \<le> 57"

definition digit_val :: "char \<Rightarrow> nat" where
  "digit_val c = byte_val c - 48"

definition digit_char :: "nat \<Rightarrow> char" where
  "digit_char n = byte_of (48 + n mod 10)"

fun dec :: "nat \<Rightarrow> bytes" where
  "dec n = (if n < 10 then [digit_char n] else dec (n div 10) @ [digit_char n])"

declare dec.simps [simp del]

definition dec_val :: "bytes \<Rightarrow> nat" where
  "dec_val s = foldl (\<lambda>a c. a * 10 + digit_val c) 0 s"

definition parse_uint :: "bytes \<Rightarrow> nat option" where
  "parse_uint s =
     (if s \<noteq> [] \<and> list_all is_digit s \<and> dec_val s < 2 ^ 64 then Some (dec_val s) else None)"

lemma byte_val_digit_char [simp]: "byte_val (digit_char n) = 48 + n mod 10"
proof -
  have "48 + n mod 10 < 256"
    using mod_less_divisor [of 10 n] by linarith
  then show ?thesis
    by (simp add: digit_char_def)
qed

lemma is_digit_digit_char [simp]: "is_digit (digit_char n)"
proof -
  have "n mod 10 < 10" by simp
  then show ?thesis
    unfolding is_digit_def byte_val_digit_char by linarith
qed

lemma digit_val_digit_char [simp]: "digit_val (digit_char n) = n mod 10"
  by (simp add: digit_val_def)

lemma digit_char_digit_val: "is_digit c \<Longrightarrow> digit_char (digit_val c) = c"
proof -
  assume "is_digit c"
  then have "48 + (byte_val c - 48) mod 10 = byte_val c"
    by (auto simp: is_digit_def)
  then have "byte_val (digit_char (digit_val c)) = byte_val c"
    by (simp add: digit_val_def)
  then show ?thesis by (simp only: byte_val_inj)
qed

lemma digit_val_less: "is_digit c \<Longrightarrow> digit_val c < 10"
  by (auto simp: is_digit_def digit_val_def)

lemma dec_val_snoc [simp]: "dec_val (s @ [c]) = dec_val s * 10 + digit_val c"
  by (simp add: dec_val_def)

lemma dec_val_Nil [simp]: "dec_val [] = 0"
  by (simp add: dec_val_def)

lemma dec_0: "dec 0 = ''0''"
  by code_simp

lemma dec_not_Nil [simp]: "dec n \<noteq> []"
  by (subst dec.simps) simp

lemma dec_digits: "list_all is_digit (dec n)"
proof (induction n rule: dec.induct)
  case (1 n)
  then show ?case
    by (cases "n < 10") (simp_all add: dec.simps [of n])
qed

lemma dec_val_dec [simp]: "dec_val (dec n) = n"
proof (induction n rule: dec.induct)
  case (1 n)
  show ?case
  proof (cases "n < 10")
    case True
    then show ?thesis
      by (simp add: dec.simps [of n] dec_val_def)
  next
    case False
    then have "dec_val (dec (n div 10)) = n div 10"
      using "1" by simp
    then show ?thesis
      using False by (simp add: dec.simps [of n])
  qed
qed

lemma parse_uint_dec: "n < 2 ^ 64 \<Longrightarrow> parse_uint (dec n) = Some n"
  by (simp add: parse_uint_def dec_digits)

lemma dec_inj [simp]: "dec m = dec n \<longleftrightarrow> m = n"
  by (metis dec_val_dec)

text \<open>A decimal without a leading zero is the decimal of its value.\<close>

lemma dec_dec_val:
  "s \<noteq> [] \<Longrightarrow> list_all is_digit s \<Longrightarrow> hd s \<noteq> CHR ''0'' \<or> length s = 1 \<Longrightarrow> dec (dec_val s) = s"
proof (induction s rule: rev_induct)
  case Nil
  then show ?case by simp
next
  case (snoc c s)
  have c: "is_digit c" and s: "list_all is_digit s"
    using snoc.prems by auto
  show ?case
  proof (cases "s = []")
    case True
    then show ?thesis
      using c digit_val_less [OF c] by (simp add: dec.simps digit_char_digit_val dec_val_def)
  next
    case False
    then have hd: "hd s \<noteq> CHR ''0''"
      using snoc.prems by auto
    have ne: "dec_val s \<noteq> 0"
    proof
      assume "dec_val s = 0"
      then have "dec (dec_val s) = ''0''"
        by (simp add: dec_0)
      moreover have "dec (dec_val s) = s"
        using snoc.IH [OF False s] hd by blast
      ultimately show False
        using hd by simp
    qed
    have "\<not> dec_val (s @ [c]) < 10" and "dec_val (s @ [c]) div 10 = dec_val s"
      and "dec_val (s @ [c]) mod 10 = digit_val c"
      using ne digit_val_less [OF c] by simp_all
    moreover have "digit_char (dec_val (s @ [c])) = c"
      using calculation(3) digit_char_digit_val [OF c] digit_val_less [OF c]
      by (simp add: digit_char_def)
    ultimately show ?thesis
      using snoc.IH [OF False s] hd by (subst dec.simps) (simp del: dec_val_snoc)
  qed
qed

text \<open>A decimal ends where the next byte is no digit.\<close>

lemma digits_delimited:
  assumes "list_all is_digit xs" "list_all is_digit ys" "\<not> is_digit c" "\<not> is_digit d"
    and "xs @ c # s = ys @ d # t"
  shows "xs = ys \<and> c # s = d # t"
  using assms
proof (induction xs arbitrary: ys)
  case Nil
  then show ?case by (cases ys) auto
next
  case (Cons x xs)
  then show ?case by (cases ys) auto
qed

lemma dec_delimited [enc_inj]:
  "\<not> is_digit c \<Longrightarrow> \<not> is_digit d \<Longrightarrow> (dec m @ c # s = dec n @ d # t) \<longleftrightarrow> m = n \<and> c = d \<and> s = t"
  using digits_delimited [OF dec_digits dec_digits, of c d m s n t] by auto

section \<open>The \<open>strings\<close> package\<close>

definition hasPrefix :: "bytes \<Rightarrow> bytes \<Rightarrow> bool" where
  "hasPrefix s p \<longleftrightarrow> take (length p) s = p"

definition hasSuffix :: "bytes \<Rightarrow> bytes \<Rightarrow> bool" where
  "hasSuffix s p \<longleftrightarrow> length p \<le> length s \<and> drop (length s - length p) s = p"

definition trimPrefix :: "bytes \<Rightarrow> bytes \<Rightarrow> bytes" where
  "trimPrefix s p = (if hasPrefix s p then drop (length p) s else s)"

definition trimSuffix :: "bytes \<Rightarrow> bytes \<Rightarrow> bytes" where
  "trimSuffix s p = (if hasSuffix s p then take (length s - length p) s else s)"

text \<open>\<open>strings.Cut\<close> with a one-byte separator: the parts before and after its first occurrence.\<close>

fun cut :: "char \<Rightarrow> bytes \<Rightarrow> (bytes \<times> bytes) option" where
  "cut sep [] = None"
| "cut sep (c # s) =
     (if c = sep then Some ([], s) else map_option (\<lambda>(a, b). (c # a, b)) (cut sep s))"

text \<open>
  \<open>strings.ToLower\<close> on a byte: Go lowers the letters A to Z of an ASCII string and leaves
  its other bytes alone.
\<close>

definition ascii_lower :: "char \<Rightarrow> char" where
  "ascii_lower c = (if 65 \<le> byte_val c \<and> byte_val c \<le> 90 then byte_of (byte_val c + 32) else c)"

lemma hasPrefix_append [simp]: "hasPrefix (p @ s) p"
  by (simp add: hasPrefix_def)

lemma hasSuffix_append [simp]: "hasSuffix (s @ p) p"
  by (simp add: hasSuffix_def)

lemma trimPrefix_append [simp]: "trimPrefix (p @ s) p = s"
  by (simp add: trimPrefix_def)

lemma trimSuffix_append [simp]: "trimSuffix (s @ p) p = s"
  by (simp add: trimSuffix_def)

lemma hasPrefix_iff: "hasPrefix s p \<longleftrightarrow> (\<exists>r. s = p @ r)"
  by (metis append_eq_conv_conj append_take_drop_id hasPrefix_def hasPrefix_append)

lemma hasSuffix_iff: "hasSuffix s p \<longleftrightarrow> (\<exists>r. s = r @ p)"
  by (metis append_take_drop_id hasSuffix_append hasSuffix_def)

lemma cut_append: "sep \<notin> set a \<Longrightarrow> cut sep (a @ sep # b) = Some (a, b)"
  by (induction a) auto

lemma cut_Some: "cut sep s = Some (a, b) \<Longrightarrow> s = a @ sep # b \<and> sep \<notin> set a"
  by (induction s arbitrary: a) (auto split: if_splits)

section \<open>Encoders that tell where they end\<close>

text \<open>
  \<open>ok\<close> is the domain on which the encoder is unambiguous (for a length-prefixed field, the
  values whose length fits the prefix).
\<close>

locale prefix_code =
  fixes enc :: "'a \<Rightarrow> bytes" and ok :: "'a \<Rightarrow> bool"
  assumes prefix_free: "ok x \<Longrightarrow> ok y \<Longrightarrow> enc x @ s = enc y @ t \<Longrightarrow> x = y \<and> s = t"
begin

lemma enc_append_iff: "ok x \<Longrightarrow> ok y \<Longrightarrow> (enc x @ s = enc y @ t) \<longleftrightarrow> x = y \<and> s = t"
  using prefix_free by blast

lemma enc_eq_iff: "ok x \<Longrightarrow> ok y \<Longrightarrow> (enc x = enc y) \<longleftrightarrow> x = y"
  using prefix_free [of x y "[]" "[]"] by auto

text \<open>A sequence of encodings of the same number of values, and an optional value behind a flag.\<close>

lemma concat_enc_inj:
  "list_all ok xs \<Longrightarrow> list_all ok ys \<Longrightarrow> length xs = length ys \<Longrightarrow>
   concat (map enc xs) @ s = concat (map enc ys) @ t \<Longrightarrow> xs = ys \<and> s = t"
proof (induction xs arbitrary: ys)
  case Nil
  then show ?case by simp
next
  case (Cons x xs)
  then obtain y ys' where ys: "ys = y # ys'"
    by (cases ys) auto
  have "x = y \<and> concat (map enc xs) @ s = concat (map enc ys') @ t"
    using Cons.prems by (intro prefix_free) (auto simp: ys)
  then show ?case
    using Cons.IH [of ys'] Cons.prems by (simp add: ys)
qed

end

text \<open>Encoders of one fixed width are prefix codes as soon as they are injective.\<close>

lemma prefix_code_fixed_width:
  assumes "\<And>x. ok x \<Longrightarrow> length (enc x) = k"
    and "\<And>x y. ok x \<Longrightarrow> ok y \<Longrightarrow> enc x = enc y \<Longrightarrow> x = y"
  shows "prefix_code enc ok"
proof
  fix x y s t
  assume "ok x" "ok y" "enc x @ s = enc y @ t"
  then show "x = y \<and> s = t"
    using assms by (metis append_eq_append_conv)
qed

text \<open>A big-endian integer of \<open>k\<close> bytes.\<close>

interpretation be_code: prefix_code "be_bytes k" "\<lambda>n. n < 256 ^ k" for k
  by (rule prefix_code_fixed_width [where k = k]) (auto intro: be_bytes_inj)

lemmas be_append_iff [enc_inj] = be_code.enc_append_iff

text \<open>A field behind its length as a big-endian integer of \<open>k\<close> bytes.\<close>

definition len_field :: "nat \<Rightarrow> bytes \<Rightarrow> bytes" where
  "len_field k v = be_bytes k (length v) @ v"

interpretation len_code: prefix_code "len_field k" "\<lambda>v. length v < 256 ^ k" for k
proof
  fix x y s t
  assume x: "length x < 256 ^ k" and y: "length y < 256 ^ k"
    and eq: "len_field k x @ s = len_field k y @ t"
  then have "length x = length y \<and> x @ s = y @ t"
    by (simp add: len_field_def be_append_iff [OF x y])
  then show "x = y \<and> s = t"
    by auto
qed

lemmas len_append_iff [enc_inj] = len_code.enc_append_iff

end
