(* ===== verification/Go_Encoding.thy ===== *)
theory Go_Encoding
  imports Go_Prelude
begin

text \<open>
  The text encodings of the Go standard library that the sources use: hexadecimal
  (\<open>encoding/hex\<close>), Base64 (\<open>encoding/base64\<close>: the unpadded URL alphabet in strict
  mode, and the padded standard alphabet for encoding), and the JSON spelling of a string
  (\<open>encoding/json\<close>, and the narrower one of the canonical JSON writer in
  \<open>src/pkg/a9trust/jcs.go\<close>).

  The lemmas are the round trips, the exact set of spellings each decoder accepts together with the
  re-encoding check the sources make, and the interface \<open>char_escape\<close>, which turns an escaping of
  single bytes into an unambiguous quoted string.
\<close>

section \<open>Hexadecimal\<close>

definition hexd :: "nat \<Rightarrow> char" where
  "hexd n = byte_of (if n < 10 then 48 + n else 87 + n)"

definition unhex :: "char \<Rightarrow> nat option" where
  "unhex c = (let v = byte_val c in
     if 48 \<le> v \<and> v \<le> 57 then Some (v - 48)
     else if 97 \<le> v \<and> v \<le> 102 then Some (v - 87)
     else if 65 \<le> v \<and> v \<le> 70 then Some (v - 55)
     else None)"

text \<open>\<open>hex.EncodeToString\<close>, and \<open>hex.DecodeString\<close> with its error as \<open>None\<close>.\<close>

fun hex_encode :: "bytes \<Rightarrow> bytes" where
  "hex_encode [] = []"
| "hex_encode (c # s) = hexd (byte_val c div 16) # hexd (byte_val c mod 16) # hex_encode s"

fun hex_decode :: "bytes \<Rightarrow> bytes option" where
  "hex_decode [] = Some []"
| "hex_decode [c] = None"
| "hex_decode (c # d # s) =
     (case (unhex c, unhex d, hex_decode s) of
        (Some x, Some y, Some r) \<Rightarrow> Some (byte_of (16 * x + y) # r)
      | _ \<Rightarrow> None)"

definition is_lower_hex :: "char \<Rightarrow> bool" where
  "is_lower_hex c \<longleftrightarrow>
     48 \<le> byte_val c \<and> byte_val c \<le> 57 \<or> 97 \<le> byte_val c \<and> byte_val c \<le> 102"

lemma byte_val_hexd: "n < 16 \<Longrightarrow> byte_val (hexd n) = (if n < 10 then 48 + n else 87 + n)"
  by (simp add: hexd_def)

lemma unhex_hexd [simp]: "n < 16 \<Longrightarrow> unhex (hexd n) = Some n"
  by (simp add: unhex_def byte_val_hexd Let_def)

lemma is_lower_hex_hexd [simp]: "n < 16 \<Longrightarrow> is_lower_hex (hexd n)"
  by (simp add: is_lower_hex_def byte_val_hexd)

lemma unhex_less: "unhex c = Some n \<Longrightarrow> n < 16"
  by (auto simp: unhex_def Let_def split: if_splits)

lemma hexd_unhex: "is_lower_hex c \<Longrightarrow> unhex c = Some n \<Longrightarrow> hexd n = c"
  by (auto simp: unhex_def is_lower_hex_def hexd_def Let_def split: if_splits)

lemma unhex_lower: "is_lower_hex c \<Longrightarrow> \<exists>n. unhex c = Some n"
  by (auto simp: unhex_def is_lower_hex_def Let_def)

lemma length_hex_encode [simp, enc_len]: "length (hex_encode s) = 2 * length s"
  by (induction s) auto

lemma hex_encode_lower: "list_all is_lower_hex (hex_encode s)"
  by (induction s) (auto intro: is_lower_hex_hexd simp: less_mult_imp_div_less)

lemma hex_decode_encode [simp]: "hex_decode (hex_encode s) = Some s"
proof (induction s)
  case Nil
  then show ?case by simp
next
  case (Cons c s)
  have "byte_val c div 16 < 16"
    by (simp add: less_mult_imp_div_less)
  then show ?case
    using Cons by simp
qed

lemma hex_encode_inj [simp]: "hex_encode a = hex_encode b \<longleftrightarrow> a = b"
  by (metis hex_decode_encode option.inject)

lemma hex_decode_length: "hex_decode s = Some b \<Longrightarrow> length s = 2 * length b"
  by (induction s arbitrary: b rule: hex_decode.induct) (auto split: option.splits)

lemma hex_encode_decode: "hex_decode s = Some b \<Longrightarrow> list_all is_lower_hex s \<Longrightarrow> hex_encode b = s"
proof (induction s arbitrary: b rule: hex_decode.induct)
  case (3 c d s)
  then obtain x y r where x: "unhex c = Some x" and y: "unhex d = Some y"
    and r: "hex_decode s = Some r" and b: "b = byte_of (16 * x + y) # r"
    by (auto split: option.splits)
  have "x < 16" "y < 16"
    using x y by (auto intro: unhex_less)
  moreover have "hexd x = c" "hexd y = d"
    using "3.prems"(2) x y by (auto intro: hexd_unhex)
  moreover have "hex_encode r = s"
    using 3 r by simp
  ultimately show ?case
    by (simp add: b)
qed auto

lemma hex_decode_lower:
  "list_all is_lower_hex s \<Longrightarrow> even (length s) \<Longrightarrow> \<exists>b. hex_decode s = Some b"
proof (induction s rule: hex_decode.induct)
  case (3 c d s)
  then show ?case
    using unhex_lower [of c] unhex_lower [of d] by auto
qed auto

text \<open>
  The check \<open>hex.DecodeString(v)\<close>, then length, then \<open>hex.EncodeToString(decoded) == v\<close>,
  which the sources make in many places, accepts exactly the lower-case spellings of that length.
\<close>

lemma hex_canonical_iff:
  "(\<exists>b. hex_decode s = Some b \<and> length b = n \<and> hex_encode b = s) \<longleftrightarrow>
   length s = 2 * n \<and> list_all is_lower_hex s"
proof
  assume "\<exists>b. hex_decode s = Some b \<and> length b = n \<and> hex_encode b = s"
  then show "length s = 2 * n \<and> list_all is_lower_hex s"
    using hex_encode_lower by auto
next
  assume s: "length s = 2 * n \<and> list_all is_lower_hex s"
  then obtain b where b: "hex_decode s = Some b"
    using hex_decode_lower [of s] by auto
  then show "\<exists>b. hex_decode s = Some b \<and> length b = n \<and> hex_encode b = s"
    using s hex_encode_decode hex_decode_length by fastforce
qed

section \<open>Base64\<close>

text \<open>The 6-bit values and their characters, in the URL alphabet (62 is a hyphen, 63 an underscore).\<close>

definition b64_char :: "nat \<Rightarrow> char" where
  "b64_char n = byte_of
     (if n < 26 then 65 + n else if n < 52 then 71 + n else if n < 62 then n - 4
      else if n = 62 then 45 else 95)"

definition b64_index :: "char \<Rightarrow> nat option" where
  "b64_index c = (let v = byte_val c in
     if 65 \<le> v \<and> v \<le> 90 then Some (v - 65)
     else if 97 \<le> v \<and> v \<le> 122 then Some (v - 71)
     else if 48 \<le> v \<and> v \<le> 57 then Some (v + 4)
     else if v = 45 then Some 62
     else if v = 95 then Some 63
     else None)"

text \<open>\<open>base64.RawURLEncoding.EncodeToString\<close>.\<close>

fun b64_encode :: "bytes \<Rightarrow> bytes" where
  "b64_encode [] = []"
| "b64_encode [a] =
     (let n = byte_val a * 16 in [b64_char (n div 64), b64_char (n mod 64)])"
| "b64_encode [a, b] =
     (let n = (byte_val a * 256 + byte_val b) * 4
      in [b64_char (n div 4096), b64_char (n div 64 mod 64), b64_char (n mod 64)])"
| "b64_encode (a # b # c # s) =
     (let n = byte_val a * 65536 + byte_val b * 256 + byte_val c
      in [b64_char (n div 262144), b64_char (n div 4096 mod 64), b64_char (n div 64 mod 64),
          b64_char (n mod 64)] @ b64_encode s)"

text \<open>
  \<open>base64.RawURLEncoding.Strict().DecodeString\<close>. Go's decoder skips carriage returns and line
  feeds wherever they stand; strict mode demands that the unused low bits of the last character are
  zero; without padding a final group of one character is an error, and so is the padding character.
\<close>

fun b64_quads :: "bytes \<Rightarrow> bytes option" where
  "b64_quads [] = Some []"
| "b64_quads [a] = None"
| "b64_quads [a, b] =
     (case (b64_index a, b64_index b) of
        (Some x, Some y) \<Rightarrow> (if y mod 16 = 0 then Some [byte_of (x * 4 + y div 16)] else None)
      | _ \<Rightarrow> None)"
| "b64_quads [a, b, c] =
     (case (b64_index a, b64_index b, b64_index c) of
        (Some x, Some y, Some z) \<Rightarrow>
          (let n = x * 4096 + y * 64 + z
           in if z mod 4 = 0 then Some [byte_of (n div 1024), byte_of (n div 4)] else None)
      | _ \<Rightarrow> None)"
| "b64_quads (a # b # c # d # s) =
     (case (b64_index a, b64_index b, b64_index c, b64_index d, b64_quads s) of
        (Some x, Some y, Some z, Some w, Some r) \<Rightarrow>
          (let n = x * 262144 + y * 4096 + z * 64 + w
           in Some (byte_of (n div 65536) # byte_of (n div 256) # byte_of n # r))
      | _ \<Rightarrow> None)"

definition is_newline :: "char \<Rightarrow> bool" where
  "is_newline c \<longleftrightarrow> byte_val c = 10 \<or> byte_val c = 13"

definition b64_decode_strict :: "bytes \<Rightarrow> bytes option" where
  "b64_decode_strict s = b64_quads (filter (\<lambda>c. \<not> is_newline c) s)"

lemma byte_val_b64_char:
  "n < 64 \<Longrightarrow> byte_val (b64_char n) =
     (if n < 26 then 65 + n else if n < 52 then 71 + n else if n < 62 then n - 4
      else if n = 62 then 45 else 95)"
  by (simp add: b64_char_def)

lemma b64_index_char [simp]: "n < 64 \<Longrightarrow> b64_index (b64_char n) = Some n"
  unfolding b64_index_def Let_def byte_val_b64_char by auto

lemma b64_index_less: "b64_index c = Some n \<Longrightarrow> n < 64"
  by (auto simp: b64_index_def Let_def split: if_splits)

lemma b64_char_index: "b64_index c = Some n \<Longrightarrow> b64_char n = c"
  by (auto simp: b64_index_def b64_char_def Let_def split: if_splits)
    (metis char_of_char)+

lemma b64_char_not_newline [simp]: "n < 64 \<Longrightarrow> \<not> is_newline (b64_char n)"
  unfolding is_newline_def byte_val_b64_char by auto


lemma byte_of_eqI: "m mod 256 = byte_val c \<Longrightarrow> byte_of m = c"
  by (metis char_of_char char_of_mod_256)

lemma recombine2: "(n::nat) div 64 * 64 + n mod 64 = n"
  by simp

lemma recombine3: "(n::nat) div 4096 * 4096 + n div 64 mod 64 * 64 + n mod 64 = n"
proof -
  have "n div 4096 * 4096 + n div 64 mod 64 * 64 = (n div 64 div 64 * 64 + n div 64 mod 64) * 64"
    by (simp add: div_mult2_eq [symmetric])
  then show ?thesis
    by simp
qed

lemma recombine4: "(n::nat) div 262144 * 262144 + n div 4096 mod 64 * 4096 + n div 64 mod 64 * 64 + n mod 64 = n"
proof -
  have "n div 262144 * 262144 + n div 4096 mod 64 * 4096 + n div 64 mod 64 * 64 =
      (n div 64 div 4096 * 4096 + n div 64 div 64 mod 64 * 64 + n div 64 mod 64) * 64"
    by (simp add: div_mult2_eq [symmetric])
  then show ?thesis
    by (simp only: recombine3 recombine2)
qed

lemma base_digits:
  fixes x y z B :: nat
  assumes "y < B" and "z < B"
  shows "(x * (B * B) + y * B + z) mod B = z"
    and "(x * (B * B) + y * B + z) div B = x * B + y"
    and "(x * (B * B) + y * B + z) div B mod B = y"
    and "(x * (B * B) + y * B + z) div (B * B) = x"
proof -
  have split: "x * (B * B) + y * B + z = (x * B + y) * B + z"
    by (simp add: algebra_simps)
  show m: "(x * (B * B) + y * B + z) mod B = z" and d: "(x * (B * B) + y * B + z) div B = x * B + y"
    using assms by (simp_all add: split)
  show "(x * (B * B) + y * B + z) div B mod B = y"
    using assms by (simp add: d)
  show "(x * (B * B) + y * B + z) div (B * B) = x"
    using assms by (simp add: div_mult2_eq d)
qed

lemmas sextets = base_digits [where B = 64, simplified]
lemmas octets = base_digits [where B = 256, simplified]

lemma six_bits: "(n::nat) * 16 div 64 = n div 4" "(n::nat) * 16 mod 64 = n mod 4 * 16"
proof -
  have "n * 16 div (4 * 16) = n div 4"
    by (rule div_mult_mult2) simp
  moreover have "n * 16 mod (4 * 16) = n mod 4 * 16"
    by (rule mult_mod_left [symmetric])
  ultimately show "n * 16 div 64 = n div 4" "n * 16 mod 64 = n mod 4 * 16"
    by simp_all
qed

lemma byte_pair_less: "(byte_val a * 256 + byte_val b) * 4 < 262144"
proof -
  have "byte_val a * 256 + byte_val b < 65536"
    using byte_val_le [of a] byte_val_le [of b] by linarith
  then have "(byte_val a * 256 + byte_val b) * 4 < 65536 * 4"
    by (rule mult_strict_right_mono) simp
  then show ?thesis
    by simp
qed

lemma bytes2_recombine: "(n::nat) div 256 * 256 + n mod 256 = n"
  by simp

lemma bytes3_recombine: "(n::nat) div 65536 * 65536 + n div 256 mod 256 * 256 + n mod 256 = n"
proof -
  have "n div 65536 * 65536 + n div 256 mod 256 * 256 = (n div 256 div 256 * 256 + n div 256 mod 256) * 256"
    by (simp add: div_mult2_eq [symmetric])
  then show ?thesis
    by simp
qed

lemma b64_quads_encode [simp]: "b64_quads (b64_encode s) = Some s"
proof (induction s rule: b64_encode.induct)
  case 1
  then show ?case by simp
next
  case (2 a)
  have "byte_val a * 16 div 64 < 64"
    using byte_val_le [of a] by (intro less_mult_imp_div_less) linarith
  moreover have "byte_val a * 16 div 64 * 4 + byte_val a * 16 mod 64 div 16 = byte_val a"
    using six_bits [of "byte_val a"] by simp
  then have "byte_of (byte_val a * 16 div 64 * 4 + byte_val a * 16 mod 64 div 16) = a"
    by (simp only: char_of_char)
  moreover have "byte_val a * 16 mod 64 mod 16 = 0"
    using six_bits [of "byte_val a"] by simp
  ultimately show ?case
    by (simp only: b64_encode.simps b64_quads.simps Let_def) simp
next
  case (3 a b)
  define n where "n = (byte_val a * 256 + byte_val b) * 4"
  have bounds: "n < 262144" "n mod 4 = 0"
    using byte_pair_less [of a b] by (simp_all add: n_def)
  then have "n div 4096 < 64"
    by (intro less_mult_imp_div_less) linarith
  moreover have "n mod 64 mod 4 = 0"
    using bounds by (simp add: mod_mod_cancel)
  moreover have "byte_of (n div 1024) = a" "byte_of (n div 4) = b"
    using byte_val_le [of a] byte_val_le [of b] unfolding n_def
    by (intro byte_of_eqI; simp)+
  ultimately show ?case
    by (simp only: b64_encode.simps Let_def n_def [symmetric]) (simp add: Let_def recombine3)
next
  case (4 a b c s)
  define n where "n = byte_val a * 65536 + byte_val b * 256 + byte_val c"
  have "n < 16777216"
    using byte_val_le [of a] byte_val_le [of b] byte_val_le [of c] unfolding n_def by linarith
  then have "n div 262144 < 64"
    by (intro less_mult_imp_div_less) linarith
  moreover have "byte_of (n div 65536) = a" "byte_of (n div 256) = b" "byte_of n = c"
    using octets [of "byte_val b" "byte_val c" "byte_val a"] unfolding n_def
    by (simp_all add: byte_of_eqI)
  ultimately show ?case
    using 4 by (simp only: b64_encode.simps Let_def n_def [symmetric]) (simp add: Let_def recombine4)
qed

lemma b64_encode_alphabet:
  assumes "\<And>n. n < 64 \<Longrightarrow> P (b64_char n)"
  shows "list_all P (b64_encode s)"
proof (induction s rule: b64_encode.induct)
  case (2 a)
  have "byte_val a * 16 div 64 < 64"
    using byte_val_le [of a] by (intro less_mult_imp_div_less) linarith
  then show ?case
    by (simp add: Let_def assms)
next
  case (3 a b)
  have "(byte_val a * 256 + byte_val b) * 4 div 4096 < 64"
    using byte_pair_less [of a b] by (intro less_mult_imp_div_less) simp
  then show ?case
    by (simp add: Let_def assms)
next
  case (4 a b c s)
  have "(byte_val a * 65536 + byte_val b * 256 + byte_val c) div 262144 < 64"
    using byte_val_le [of a] byte_val_le [of b] byte_val_le [of c]
    by (intro less_mult_imp_div_less) linarith
  then show ?case
    using 4 by (simp add: Let_def assms)
qed simp

lemma b64_encode_no_newline: "list_all (\<lambda>c. \<not> is_newline c) (b64_encode s)"
  by (rule b64_encode_alphabet) simp

lemma filter_no_newline: "list_all (\<lambda>c. \<not> is_newline c) s \<Longrightarrow> filter (\<lambda>c. \<not> is_newline c) s = s"
  by (simp add: filter_id_conv list_all_iff)

lemma b64_decode_encode [simp]: "b64_decode_strict (b64_encode s) = Some s"
  by (simp add: b64_decode_strict_def filter_no_newline b64_encode_no_newline)

lemma b64_encode_inj [simp]: "b64_encode a = b64_encode b \<longleftrightarrow> a = b"
  by (metis b64_quads_encode option.inject)

text \<open>
  Strict decoding leaves one spelling per value, line breaks apart.
\<close>

lemma b64_encode_quads: "b64_quads s = Some r \<Longrightarrow> b64_encode r = s"
proof (induction s arbitrary: r rule: b64_quads.induct)
  case (3 a b)
  then obtain x y where x: "b64_index a = Some x" and y: "b64_index b = Some y"
    and low: "y mod 16 = 0" and r: "r = [byte_of (x * 4 + y div 16)]"
    by (auto split: option.splits if_splits)
  have less: "x < 64" "y < 64"
    using x y by (auto intro: b64_index_less)
  then have "byte_val (byte_of (x * 4 + y div 16)) = x * 4 + y div 16"
    by simp
  moreover have "(x * 4 + y div 16) * 16 = x * 64 + y"
    using low by (auto simp: algebra_simps elim!: dvdE)
  then have "(x * 4 + y div 16) * 16 div 64 = x" "(x * 4 + y div 16) * 16 mod 64 = y"
    using less by simp_all
  ultimately show ?case
    using x y by (simp add: r Let_def b64_char_index)
next
  case (4 a b c)
  then obtain x y z where x: "b64_index a = Some x" and y: "b64_index b = Some y"
    and z: "b64_index c = Some z" and low: "z mod 4 = 0"
    and r: "r = [byte_of ((x * 4096 + y * 64 + z) div 1024), byte_of ((x * 4096 + y * 64 + z) div 4)]"
    by (auto simp: Let_def split: option.splits if_splits)
  have less: "x < 64" "y < 64" "z < 64"
    using x y z by (auto intro: b64_index_less)
  define n where "n = x * 4096 + y * 64 + z"
  have "byte_val (byte_of (n div 1024)) = n div 1024"
    "byte_val (byte_of (n div 4)) = n div 4 mod 256"
    using less by (simp_all add: n_def)
  moreover have "n mod 4 = 0"
    using low unfolding n_def by presburger
  then have "(n div 4 div 256 * 256 + n div 4 mod 256) * 4 = n"
    by auto
  then have "(n div 1024 * 256 + n div 4 mod 256) * 4 = n"
    by (simp only: div_mult2_eq [symmetric]) simp
  moreover have "n div 4096 = x" "n div 64 mod 64 = y" "n mod 64 = z"
    using sextets [OF less(2,3), of x] unfolding n_def by simp_all
  ultimately show ?case
    using x y z by (simp add: r Let_def b64_char_index n_def [symmetric])
next
  case (5 a b c d s)
  then obtain x y z w q where x: "b64_index a = Some x" and y: "b64_index b = Some y"
    and z: "b64_index c = Some z" and w: "b64_index d = Some w" and q: "b64_quads s = Some q"
    and r: "r = byte_of ((x * 262144 + y * 4096 + z * 64 + w) div 65536) #
      byte_of ((x * 262144 + y * 4096 + z * 64 + w) div 256) #
      byte_of (x * 262144 + y * 4096 + z * 64 + w) # q"
    by (auto simp: Let_def split: option.splits)
  have less: "x < 64" "y < 64" "z < 64" "w < 64"
    using x y z w by (auto intro: b64_index_less)
  define n where "n = x * 262144 + y * 4096 + z * 64 + w"
  have "byte_val (byte_of (n div 65536)) = n div 65536"
    "byte_val (byte_of (n div 256)) = n div 256 mod 256" "byte_val (byte_of n) = n mod 256"
    using less by (simp_all add: n_def)
  moreover have "n div 65536 * 65536 + n div 256 mod 256 * 256 + n mod 256 = n"
    by (rule bytes3_recombine)
  moreover have m: "n = (x * 64 + y) * 4096 + z * 64 + w"
    by (simp add: n_def)
  have "n div 4096 div 64 = x" and "n div 4096 mod 64 = y" and "n div 64 mod 64 = z" and "n mod 64 = w"
    using sextets [OF less(3,4), of "x * 64 + y"] less by (simp_all only: m) simp_all
  moreover have "n div 262144 = n div 4096 div 64"
    by (simp add: div_mult2_eq [symmetric])
  moreover have "b64_encode q = s"
    using 5 x y z w q by simp
  ultimately show ?case
    using x y z w by (simp add: r Let_def b64_char_index n_def [symmetric])
qed auto

lemma b64_canonical_iff: "b64_decode_strict s = Some r \<and> b64_encode r = s \<longleftrightarrow> s = b64_encode r"
  by auto

lemma length_b64_encode [enc_len]:
  "length (b64_encode s) = length s div 3 * 4 + (if length s mod 3 = 0 then 0 else length s mod 3 + 1)"
proof (induction s rule: b64_encode.induct)
  case (4 a b c s)
  have "length (a # b # c # s) = 3 + length s"
    and "length (b64_encode (a # b # c # s)) = 4 + length (b64_encode s)"
    by (simp_all add: Let_def)
  moreover have "(3 + length s) div 3 = 1 + length s div 3" "(3 + length s) mod 3 = length s mod 3"
    by presburger+
  ultimately show ?case
    using 4 by (simp only:) simp
qed (auto simp: Let_def)

text \<open>
  \<open>base64.RawURLEncoding.DecodeString\<close>, not in strict mode: the unused low bits of the last
  character are ignored. It agrees with the strict decoder wherever that one succeeds.
\<close>

fun b64_quads_loose :: "bytes \<Rightarrow> bytes option" where
  "b64_quads_loose [] = Some []"
| "b64_quads_loose [a] = None"
| "b64_quads_loose [a, b] =
     (case (b64_index a, b64_index b) of (Some x, Some y) \<Rightarrow> Some [byte_of (x * 4 + y div 16)] | _ \<Rightarrow> None)"
| "b64_quads_loose [a, b, c] =
     (case (b64_index a, b64_index b, b64_index c) of
        (Some x, Some y, Some z) \<Rightarrow>
          (let n = x * 4096 + y * 64 + z in Some [byte_of (n div 1024), byte_of (n div 4)])
      | _ \<Rightarrow> None)"
| "b64_quads_loose (a # b # c # d # s) =
     (case (b64_index a, b64_index b, b64_index c, b64_index d, b64_quads_loose s) of
        (Some x, Some y, Some z, Some w, Some r) \<Rightarrow>
          (let n = x * 262144 + y * 4096 + z * 64 + w
           in Some (byte_of (n div 65536) # byte_of (n div 256) # byte_of n # r))
      | _ \<Rightarrow> None)"

definition b64_decode_loose :: "bytes \<Rightarrow> bytes option" where
  "b64_decode_loose s = b64_quads_loose (filter (\<lambda>c. \<not> is_newline c) s)"

lemma b64_quads_loose_strict: "b64_quads s = Some r \<Longrightarrow> b64_quads_loose s = Some r"
  by (induction s arbitrary: r rule: b64_quads.induct) (auto simp: Let_def split: option.splits if_splits)

lemma b64_decode_loose_strict: "b64_decode_strict s = Some r \<Longrightarrow> b64_decode_loose s = Some r"
  by (simp add: b64_decode_strict_def b64_decode_loose_def b64_quads_loose_strict)

lemma b64_decode_loose_encode [simp]: "b64_decode_loose (b64_encode s) = Some s"
  by (intro b64_decode_loose_strict) simp

text \<open>\<open>base64.StdEncoding.EncodeToString\<close>: the standard alphabet, padded to groups of four.\<close>

definition b64_std_char :: "char \<Rightarrow> char" where
  "b64_std_char c = (if c = CHR ''-'' then CHR ''+'' else if c = CHR ''_'' then CHR ''/'' else c)"

definition b64_std_encode :: "bytes \<Rightarrow> bytes" where
  "b64_std_encode s = map b64_std_char (b64_encode s) @ replicate ((3 - length s mod 3) mod 3) (CHR ''='')"


section \<open>JSON strings\<close>

text \<open>
  Both writers escape the quotation mark, the backslash and the control characters the same way;
  \<open>encoding/json\<close> also escapes the bytes its caller has to keep out of HTML. The set of bytes
  that get a \<open>\u00xx\<close> escape beyond the control characters is the parameter \<open>extra\<close>.
  A byte above 127 is written as it is; no caller reaches that case, since each of them first demands
  ASCII text.
\<close>

definition quote_esc :: "(nat \<Rightarrow> bool) \<Rightarrow> char \<Rightarrow> bytes" where
  "quote_esc extra c = (let v = byte_val c in
     if v = 34 then [byte_of 92, byte_of 34]
     else if v = 92 then [byte_of 92, byte_of 92]
     else if v = 8 then [byte_of 92, CHR ''b'']
     else if v = 12 then [byte_of 92, CHR ''f'']
     else if v = 10 then [byte_of 92, CHR ''n'']
     else if v = 13 then [byte_of 92, CHR ''r'']
     else if v = 9 then [byte_of 92, CHR ''t'']
     else if v < 32 \<or> extra v
       then [byte_of 92, CHR ''u'', CHR ''0'', CHR ''0'', hexd (v div 16), hexd (v mod 16)]
     else [c])"

definition quoted :: "('a \<Rightarrow> bytes) \<Rightarrow> 'a list \<Rightarrow> bytes" where
  "quoted esc s = byte_of 34 # concat (map esc s) @ [byte_of 34]"

text \<open>\<open>json.Marshal\<close> of a string (60, 62 and 38 are the angle brackets and the ampersand).\<close>

definition json_string :: "bytes \<Rightarrow> bytes" where
  "json_string s = quoted (quote_esc (\<lambda>v. v = 60 \<or> v = 62 \<or> v = 38)) s"

text \<open>Reading one (possibly escaped) byte back: the inverse that shows escapes do not run into each other.\<close>

definition read_esc :: "bytes \<Rightarrow> (char \<times> bytes) option" where
  "read_esc s = (case s of
     [] \<Rightarrow> None
   | c # r \<Rightarrow>
       if byte_val c \<noteq> 92 then Some (c, r)
       else (case r of
          [] \<Rightarrow> None
        | d # q \<Rightarrow>
            if byte_val d = 34 \<or> byte_val d = 92 then Some (d, q)
            else if d = CHR ''b'' then Some (byte_of 8, q)
            else if d = CHR ''f'' then Some (byte_of 12, q)
            else if d = CHR ''n'' then Some (byte_of 10, q)
            else if d = CHR ''r'' then Some (byte_of 13, q)
            else if d = CHR ''t'' then Some (byte_of 9, q)
            else (case q of
               _ # _ # x # y # z \<Rightarrow>
                 (case (unhex x, unhex y) of
                    (Some m, Some n) \<Rightarrow> Some (byte_of (16 * m + n), z)
                  | _ \<Rightarrow> None)
             | _ \<Rightarrow> None)))"

lemma byte_of_eq_iff: "n < 256 \<Longrightarrow> byte_of n = c \<longleftrightarrow> byte_val c = n"
  by (metis char_of_char mod_less of_char_of)

lemma read_esc_plain: "byte_val c \<noteq> 92 \<Longrightarrow> read_esc (c # s) = Some (c, s)"
  by (simp add: read_esc_def)

lemma read_esc_hex:
  "read_esc ([byte_of 92, CHR ''u'', CHR ''0'', CHR ''0'', hexd (byte_val c div 16), hexd (byte_val c mod 16)] @ s)
   = Some (c, s)"
proof -
  have "byte_val c div 16 < 16"
    by (simp add: less_mult_imp_div_less)
  then show ?thesis
    by (simp add: read_esc_def)
qed

lemma read_esc_letters:
  "byte_val c = 34 \<Longrightarrow> read_esc (byte_of 92 # c # s) = Some (c, s)"
  "byte_val c = 92 \<Longrightarrow> read_esc (c # c # s) = Some (c, s)"
  "read_esc (byte_of 92 # CHR ''b'' # s) = Some (byte_of 8, s)"
  "read_esc (byte_of 92 # CHR ''f'' # s) = Some (byte_of 12, s)"
  "read_esc (byte_of 92 # CHR ''n'' # s) = Some (byte_of 10, s)"
  "read_esc (byte_of 92 # CHR ''r'' # s) = Some (byte_of 13, s)"
  "read_esc (byte_of 92 # CHR ''t'' # s) = Some (byte_of 9, s)"
  by (simp_all add: read_esc_def)

lemma read_esc_quote_esc: "read_esc (quote_esc extra c @ s) = Some (c, s)"
proof -
  have eq: "byte_val c = n \<Longrightarrow> byte_of n = c" for n
    by (metis char_of_char)
  show ?thesis
    unfolding quote_esc_def Let_def
    by (simp only: split: if_split) (use read_esc_hex [of c s] in \<open>simp add: read_esc_letters read_esc_plain eq\<close>)
qed

text \<open>What an escaping of single bytes, or of other units, has to promise for a quoted string to end where it seems to.\<close>

locale char_escape =
  fixes esc :: "'a \<Rightarrow> bytes"
  assumes esc_prefix_free: "esc c @ s = esc d @ t \<Longrightarrow> c = d \<and> s = t"
    and esc_not_quote: "esc c @ s \<noteq> byte_of 34 # t"
begin

lemma quoted_body:
  "concat (map esc xs) @ byte_of 34 # s = concat (map esc ys) @ byte_of 34 # t \<Longrightarrow> xs = ys \<and> s = t"
proof (induction xs arbitrary: ys)
  case Nil
  then show ?case
    using esc_not_quote by (cases ys) (auto dest: sym)
next
  case (Cons x xs)
  then show ?case
  proof (cases ys)
    case Nil
    then show ?thesis
      using Cons.prems esc_not_quote by auto
  next
    case (Cons y ys')
    then show ?thesis
      using Cons.prems Cons.IH [of ys'] esc_prefix_free by fastforce
  qed
qed

lemma quoted_prefix_free: "quoted esc x @ s = quoted esc y @ t \<Longrightarrow> x = y \<and> s = t"
  using quoted_body [of x s y t] by (simp add: quoted_def)

end

sublocale char_escape \<subseteq> quoted: prefix_code "quoted esc" "\<lambda>_. True"
  by unfold_locales (rule quoted_prefix_free)

interpretation quote_esc: char_escape "quote_esc extra" for extra
proof
  fix c d s t
  assume "quote_esc extra c @ s = quote_esc extra d @ t"
  then have "read_esc (quote_esc extra c @ s) = read_esc (quote_esc extra d @ t)"
    by simp
  then show "c = d \<and> s = t"
    by (simp add: read_esc_quote_esc)
next
  fix c s t
  show "quote_esc extra c @ s \<noteq> byte_of 34 # t"
    by (auto simp: quote_esc_def Let_def)
qed

lemma json_string_append_iff [enc_inj]: "json_string x @ s = json_string y @ t \<longleftrightarrow> x = y \<and> s = t"
  using quote_esc.quoted.enc_append_iff by (simp add: json_string_def)

lemma json_string_inj [enc_inj]: "json_string x = json_string y \<longleftrightarrow> x = y"
  using json_string_append_iff [of x "[]" y "[]"] by simp

section \<open>JSON objects of strings and integers\<close>

text \<open>
  \<open>json.Marshal\<close> of a struct whose fields are strings and unsigned integers, as the list of its
  member names and values in the order of the fields. The text determines the members.
\<close>

datatype jscalar = JStr bytes | JNum nat

fun scalar_text :: "jscalar \<Rightarrow> bytes" where
  "scalar_text (JStr s) = json_string s"
| "scalar_text (JNum n) = dec n"

fun members_text :: "(bytes \<times> jscalar) list \<Rightarrow> bytes" where
  "members_text [] = []"
| "members_text [(k, v)] = json_string k @ '':'' @ scalar_text v"
| "members_text ((k, v) # m # ms) = json_string k @ '':'' @ scalar_text v @ '','' @ members_text (m # ms)"

definition json_object :: "(bytes \<times> jscalar) list \<Rightarrow> bytes" where
  "json_object ms = ''{'' @ members_text ms @ ''}''"

lemma json_string_quote: "\<exists>r. json_string s = byte_of 34 # r"
  by (simp add: json_string_def quoted_def)

lemma dec_first_digit: "\<exists>c r. dec n = c # r \<and> is_digit c"
  using dec_digits [of n] by (cases "dec n") (auto simp: dec.simps [of n] split: if_splits)

lemma json_string_not_dec: "json_string s @ r \<noteq> dec n @ t"
proof
  assume eq: "json_string s @ r = dec n @ t"
  obtain q where "json_string s = byte_of 34 # q"
    using json_string_quote by blast
  moreover obtain c d where "dec n = c # d" "is_digit c"
    using dec_first_digit by blast
  ultimately have "is_digit (byte_of 34)"
    using eq by simp
  then show False
    by (simp add: is_digit_def)
qed

lemma scalar_delimited:
  "\<not> is_digit c \<Longrightarrow> \<not> is_digit d \<Longrightarrow>
   (scalar_text x @ c # s = scalar_text y @ d # t) \<longleftrightarrow> x = y \<and> c = d \<and> s = t"
  using json_string_not_dec json_string_not_dec [symmetric]
  by (cases x; cases y) (auto simp: json_string_append_iff dec_delimited)

lemma json_string_not_brace: "json_string k @ r \<noteq> CHR ''}'' # t" "CHR ''}'' # t \<noteq> json_string k @ r"
proof -
  have "byte_of 34 \<noteq> CHR ''}''"
    by code_simp
  then show "json_string k @ r \<noteq> CHR ''}'' # t" "CHR ''}'' # t \<noteq> json_string k @ r"
    by (auto simp: json_string_def quoted_def)
qed

lemma members_text_inj:
  "members_text ms @ CHR ''}'' # s = members_text ns @ CHR ''}'' # t \<Longrightarrow> ms = ns \<and> s = t"
proof (induction ms arbitrary: ns rule: members_text.induct)
  case 1
  then show ?case
    by (cases ns rule: members_text.cases) (auto simp: json_string_not_brace)
next
  case (2 k v)
  have nd: "\<not> is_digit (CHR '','')" "\<not> is_digit (CHR ''}'')"
    by (simp_all add: is_digit_def)
  show ?case
  proof (cases ns rule: members_text.cases)
    case 1
    then show ?thesis
      using 2 by (simp add: json_string_not_brace)
  qed (use 2 nd in \<open>auto simp: json_string_append_iff scalar_delimited\<close>)
next
  case (3 k v m ms)
  have nd: "\<not> is_digit (CHR '','')" "\<not> is_digit (CHR ''}'')"
    by (simp_all add: is_digit_def)
  show ?case
  proof (cases ns rule: members_text.cases)
    case 1
    then show ?thesis
      using 3 by (simp add: json_string_not_brace)
  qed (use 3 nd in \<open>auto simp: json_string_append_iff scalar_delimited\<close>)
qed

lemma json_object_inj [enc_inj]: "json_object ms = json_object ns \<longleftrightarrow> ms = ns"
  using members_text_inj [of ms "[]" ns "[]"] by (auto simp: json_object_def)

end
