(* ===== verification/Topics.thy ===== *)
theory Topics
  imports Go_Encoding
begin

text \<open>
  Topic names: \<open>src/pkg/topics/topics.go\<close>, \<open>src/pkg/topics/constants.go\<close> and the period
  computation of \<open>src/pkg/xmtp/utils.go\<close>.

  The type \<open>topic.Topic\<close> comes from the xmtpd library. A topic appears here as what its three
  accessors return, and the constructor \<open>topic.NewTopic\<close> is an argument of
  \<open>ParseV3Topic\<close>; what the parser relies on is that the accessors of a new topic return the kind
  and the identifier it was made from.

  The lemmas: a printed topic parses back, parsing is insensitive to the case of the identifier and to
  the optional prefix, and what it accepts is exactly the documented grammar.
\<close>

datatype topic_kind =
    TopicKindGroupMessagesV1
  | TopicKindWelcomeMessagesV1
  | OtherTopicKind uint8

record xtopic =
  Kind :: topic_kind
  Identifier :: bytes
  Bytes :: bytes

type_synonym new_topic = "topic_kind \<Rightarrow> bytes \<Rightarrow> xtopic"

type_synonym message_type = bytes

definition Test :: message_type where "Test = ''test''"
definition V3Welcome :: message_type where "V3Welcome = ''v3-welcome''"
definition V3Conversation :: message_type where "V3Conversation = ''v3-conversation''"
definition Unknown :: message_type where "Unknown = ''unknown''"

lemmas message_type_defs = Test_def V3Welcome_def V3Conversation_def Unknown_def

lemma message_types_distinct [simp]:
  "V3Welcome \<noteq> V3Conversation" "V3Conversation \<noteq> V3Welcome" "Unknown \<noteq> V3Welcome"
  "Unknown \<noteq> V3Conversation" "V3Welcome \<noteq> Unknown" "V3Conversation \<noteq> Unknown"
  by (simp_all add: message_type_defs)

definition V3_PREFIX :: bytes where
  "V3_PREFIX = ''/xmtp/mls/1/''"

text \<open>
  The parser. \<open>strings.ToLower\<close> also lowers letters outside ASCII, but no such letter becomes a
  hexadecimal digit, so a string that holds one fails to decode either way.
\<close>

definition ParseV3Topic :: "new_topic \<Rightarrow> bytes \<Rightarrow> xtopic option" where
  "ParseV3Topic newTopic topicStr =
     (let s = trimPrefix topicStr V3_PREFIX in
      if \<not> hasSuffix s ''/proto'' then None
      else (case cut (CHR ''-'') (trimSuffix s ''/proto'') of
          None \<Rightarrow> None
        | Some (prefix, identifier) \<Rightarrow>
            if identifier = [] then None
            else (case (if prefix = ''g'' then Some TopicKindGroupMessagesV1
                        else if prefix = ''w'' then Some TopicKindWelcomeMessagesV1
                        else None) of
                None \<Rightarrow> None
              | Some kind \<Rightarrow>
                  (case hex_decode (map ascii_lower identifier) of
                     None \<Rightarrow> None
                   | Some identifierBytes \<Rightarrow> Some (newTopic kind identifierBytes)))))"

definition TopicToString :: "xtopic option \<Rightarrow> bytes" where
  "TopicToString t = (case t of
     None \<Rightarrow> []
   | Some t \<Rightarrow>
       (case Kind t of
          TopicKindGroupMessagesV1 \<Rightarrow> V3_PREFIX @ ''g'' @ ''-'' @ hex_encode (Identifier t) @ ''/proto''
        | TopicKindWelcomeMessagesV1 \<Rightarrow> V3_PREFIX @ ''w'' @ ''-'' @ hex_encode (Identifier t) @ ''/proto''
        | OtherTopicKind _ \<Rightarrow> []))"

definition TopicToBase64 :: "xtopic option \<Rightarrow> bytes" where
  "TopicToBase64 t = (case t of None \<Rightarrow> [] | Some t \<Rightarrow> b64_std_encode (Bytes t))"

definition TopicToLegacy :: "xtopic option \<Rightarrow> bytes" where
  "TopicToLegacy t = TopicToString t"

definition GetMessageTypeFromTopic :: "xtopic option \<Rightarrow> message_type" where
  "GetMessageTypeFromTopic t = (case t of
     None \<Rightarrow> Unknown
   | Some t \<Rightarrow>
       (case Kind t of
          TopicKindGroupMessagesV1 \<Rightarrow> V3Conversation
        | TopicKindWelcomeMessagesV1 \<Rightarrow> V3Welcome
        | OtherTopicKind _ \<Rightarrow> Unknown))"

text \<open>\<open>TimestampNs\<close> is an unsigned 64-bit number of nanoseconds.\<close>

definition getThirtyDayPeriodsFromEpoch :: "uint64 \<Rightarrow> nat" where
  "getThirtyDayPeriodsFromEpoch timestampNs = unat timestampNs div 1000000000 div 60 div 60 div 24 div 30"

section \<open>Parsing and printing\<close>

lemma ascii_lower_hexd: "n < 16 \<Longrightarrow> ascii_lower (hexd n) = hexd n"
  by (simp add: ascii_lower_def byte_val_hexd)

lemma is_lower_hex_ascii_lower: "is_lower_hex c \<Longrightarrow> ascii_lower c = c"
  by (auto simp: is_lower_hex_def ascii_lower_def)

lemma map_ascii_lower_hex: "map ascii_lower (hex_encode s) = hex_encode s"
  using hex_encode_lower [of s] by (intro map_idI) (auto simp: list_all_iff intro: is_lower_hex_ascii_lower)

lemma parse_print:
  assumes "\<And>k i. Kind (newTopic k i) = k" and "\<And>k i. Identifier (newTopic k i) = i"
    and "i \<noteq> []" and "Kind t = k" and "Identifier t = i"
    and "k = TopicKindGroupMessagesV1 \<or> k = TopicKindWelcomeMessagesV1"
  shows "ParseV3Topic newTopic (TopicToString (Some t)) = Some (newTopic k i)"
proof -
  have "hex_encode i \<noteq> []"
    using assms(3) by (cases i) auto
  moreover have "hasSuffix ([c, CHR ''-''] @ hex_encode i @ ''/proto'') ''/proto''" for c
    using hasSuffix_append [of "[c, CHR ''-''] @ hex_encode i" "''/proto''"] by simp
  moreover have "trimSuffix ([c, CHR ''-''] @ hex_encode i @ ''/proto'') ''/proto'' = [c, CHR ''-''] @ hex_encode i"
    for c
    using trimSuffix_append [of "[c, CHR ''-''] @ hex_encode i" "''/proto''"] by simp
  ultimately show ?thesis
    using assms(4-6)
    by (auto simp: ParseV3Topic_def TopicToString_def Let_def map_ascii_lower_hex)
qed

text \<open>The grammar the parser accepts.\<close>

definition topic_letter :: "topic_kind \<Rightarrow> bytes" where
  "topic_letter k = (case k of TopicKindGroupMessagesV1 \<Rightarrow> ''g'' | TopicKindWelcomeMessagesV1 \<Rightarrow> ''w''
     | OtherTopicKind _ \<Rightarrow> [])"

lemma ParseV3Topic_Some:
  "ParseV3Topic newTopic s = Some t \<longleftrightarrow>
   (\<exists>k h i. (k = TopicKindGroupMessagesV1 \<or> k = TopicKindWelcomeMessagesV1) \<and> h \<noteq> [] \<and>
      trimPrefix s V3_PREFIX = topic_letter k @ ''-'' @ h @ ''/proto'' \<and>
      hex_decode (map ascii_lower h) = Some i \<and> t = newTopic k i)"
  (is "_ \<longleftrightarrow> ?R")
proof
  assume "ParseV3Topic newTopic s = Some t"
  then obtain p h where suf: "hasSuffix (trimPrefix s V3_PREFIX) ''/proto''"
    and cut: "cut (CHR ''-'') (trimSuffix (trimPrefix s V3_PREFIX) ''/proto'') = Some (p, h)"
    and h: "h \<noteq> []"
    and rest: "(case (if p = ''g'' then Some TopicKindGroupMessagesV1
                  else if p = ''w'' then Some TopicKindWelcomeMessagesV1 else None) of
                None \<Rightarrow> None | Some kind \<Rightarrow> (case hex_decode (map ascii_lower h) of
                     None \<Rightarrow> None | Some i \<Rightarrow> Some (newTopic kind i))) = Some t"
    by (auto simp: ParseV3Topic_def Let_def split: if_splits option.splits)
  obtain r where r: "trimPrefix s V3_PREFIX = r @ ''/proto''"
    using suf by (auto simp: hasSuffix_iff)
  have "r = p @ CHR ''-'' # h"
    using cut cut_Some unfolding r trimSuffix_append by blast
  then show ?R
    using h rest r by (auto simp: topic_letter_def split: if_splits option.splits)
next
  assume ?R
  then obtain k h i where k: "k = TopicKindGroupMessagesV1 \<or> k = TopicKindWelcomeMessagesV1"
    and h: "h \<noteq> []" and s: "trimPrefix s V3_PREFIX = (topic_letter k @ ''-'' @ h) @ ''/proto''"
    and i: "hex_decode (map ascii_lower h) = Some i" and t: "t = newTopic k i"
    by auto
  have c: "cut (CHR ''-'') (topic_letter k @ ''-'' @ h) = Some (topic_letter k, h)"
    using k cut_append [of "CHR ''-''" "topic_letter k" h] by (auto simp: topic_letter_def)
  show "ParseV3Topic newTopic s = Some t"
    unfolding ParseV3Topic_def Let_def s trimSuffix_append c
    using k h i hasSuffix_append [of "topic_letter k @ ''-'' @ h" "''/proto''"]
    by (auto simp: topic_letter_def t)
qed


lemma unhex_ascii_lower: "unhex (ascii_lower c) = Some n \<Longrightarrow> is_lower_hex (ascii_lower c)"
  by (auto simp: unhex_def ascii_lower_def is_lower_hex_def Let_def split: if_splits)

lemma hex_decode_lowered: "hex_decode (map ascii_lower h) = Some i \<Longrightarrow> hex_encode i = map ascii_lower h"
proof (rule hex_encode_decode)
  show "hex_decode (map ascii_lower h) = Some i \<Longrightarrow> list_all is_lower_hex (map ascii_lower h)"
    by (induction h arbitrary: i rule: hex_decode.induct)
      (auto split: option.splits intro: unhex_ascii_lower)
qed

text \<open>
  A group or Welcome topic with a non-empty identifier, printed by \<open>TopicToString\<close>, is parsed
  by \<open>ParseV3Topic\<close> into the topic of the same kind and identifier.
\<close>

theorem ParseV3Topic_TopicToString:
  assumes "\<And>k i. Kind (newTopic k i) = k" and "\<And>k i. Identifier (newTopic k i) = i"
    and "Kind t = TopicKindGroupMessagesV1 \<or> Kind t = TopicKindWelcomeMessagesV1"
    and "Identifier t \<noteq> []"
  shows "\<exists>u. ParseV3Topic newTopic (TopicToString (Some t)) = Some u \<and>
     Kind u = Kind t \<and> Identifier u = Identifier t"
  using parse_print [of newTopic "Identifier t" t "Kind t"] assms by auto

theorem ParseV3Topic_TopicToString_witness:
  "\<exists>u. ParseV3Topic (\<lambda>k i. \<lparr>Kind = k, Identifier = i, Bytes = byte_of 0 # i\<rparr>)
         (TopicToString (Some \<lparr>Kind = TopicKindGroupMessagesV1, Identifier = ''ab'', Bytes = []\<rparr>)) = Some u \<and>
     Kind u = TopicKindGroupMessagesV1 \<and> Identifier u = ''ab''"
  using ParseV3Topic_TopicToString [of "\<lambda>k i. \<lparr>Kind = k, Identifier = i, Bytes = byte_of 0 # i\<rparr>"
      "\<lparr>Kind = TopicKindGroupMessagesV1, Identifier = ''ab'', Bytes = []\<rparr>"]
  by simp

text \<open>
  Whatever \<open>ParseV3Topic\<close> accepts is a spelling of the canonical name: dropping the optional
  prefix and lowering the identifier of the accepted text gives, behind \<open>V3_PREFIX\<close>, exactly what
  \<open>TopicToString\<close> prints for the parsed topic, and parsing that again gives the same topic.
\<close>

theorem ParseV3Topic_canonical:
  assumes "\<And>k i. Kind (newTopic k i) = k" and "\<And>k i. Identifier (newTopic k i) = i"
    and "ParseV3Topic newTopic s = Some t"
  shows "\<exists>h. trimPrefix s V3_PREFIX = topic_letter (Kind t) @ ''-'' @ h @ ''/proto'' \<and>
     TopicToString (Some t) = V3_PREFIX @ topic_letter (Kind t) @ ''-'' @ map ascii_lower h @ ''/proto'' \<and>
     ParseV3Topic newTopic (TopicToString (Some t)) = Some t"
proof -
  obtain k h i where k: "k = TopicKindGroupMessagesV1 \<or> k = TopicKindWelcomeMessagesV1" and h: "h \<noteq> []"
    and s: "trimPrefix s V3_PREFIX = topic_letter k @ ''-'' @ h @ ''/proto''"
    and i: "hex_decode (map ascii_lower h) = Some i" and t: "t = newTopic k i"
    using assms(3) unfolding ParseV3Topic_Some by blast
  have "i \<noteq> []"
    using h hex_decode_length [OF i] by (cases h) auto
  then have "ParseV3Topic newTopic (TopicToString (Some t)) = Some t"
    using parse_print [of newTopic i t k] assms(1,2) k by (auto simp: t)
  moreover have "TopicToString (Some t) = V3_PREFIX @ topic_letter k @ ''-'' @ map ascii_lower h @ ''/proto''"
    using k assms(1,2) hex_decode_lowered [OF i] by (auto simp: t TopicToString_def topic_letter_def)
  ultimately show ?thesis
    using s assms(1) by (auto simp: t)
qed

theorem ParseV3Topic_canonical_witness:
  "\<exists>h. trimPrefix ''g-AB/proto'' V3_PREFIX = ''g'' @ ''-'' @ h @ ''/proto'' \<and>
     TopicToString (Some \<lparr>Kind = TopicKindGroupMessagesV1, Identifier = [byte_of 171], Bytes = []\<rparr>) =
       V3_PREFIX @ ''g'' @ ''-'' @ map ascii_lower h @ ''/proto''"
proof -
  let ?new = "\<lambda>k i. \<lparr>Kind = k, Identifier = i, Bytes = []\<rparr>"
  have "ParseV3Topic ?new ''g-AB/proto'' = Some (?new TopicKindGroupMessagesV1 [byte_of 171])"
    by code_simp
  from ParseV3Topic_canonical [of ?new, OF _ _ this] show ?thesis
    by (auto simp: topic_letter_def)
qed

end
