(* ===== verification/Go_Crypto.thy ===== *)
theory Go_Crypto
  imports Go_Prelude
begin

unbundle bit_operations_syntax

text \<open>
  The cryptographic functions of the Go standard library the sources call, as the standards define
  them: SHA-256 (\<open>crypto/sha256\<close>, FIPS 180-4), HMAC-SHA-256 (\<open>crypto/hmac\<close>, RFC 2104)
  and AES in Galois/counter mode (\<open>crypto/aes\<close> and \<open>crypto/cipher\<close>, FIPS 197 and
  NIST SP 800-38D). All of them compute.

  Nothing is assumed about their strength. The lemmas are the ones a caller's correctness needs: the
  lengths of digests, and that opening what was sealed under the same key, nonce and additional data
  gives the plaintext back (the interface \<open>aead\<close>, interpreted on AES-GCM).

  Ed25519 (\<open>crypto/ed25519\<close>) is not defined here: the components that verify a signature take
  the verification function as an argument and state their theorems for every such function.
\<close>

section \<open>SHA-256\<close>

text \<open>
  The constants of the standard are computed from their definition: the first 32 bits of the
  fractional parts of the cube roots of the first 64 primes, and of the square roots of the first
  eight. \<open>iroot k n b r\<close> fills in the lowest \<open>b\<close> bits of the integer \<open>k\<close>-th root.
\<close>

fun iroot :: "nat \<Rightarrow> nat \<Rightarrow> nat \<Rightarrow> nat \<Rightarrow> nat" where
  "iroot k n 0 r = r"
| "iroot k n (Suc b) r = iroot k n b (if (r + 2 ^ b) ^ k \<le> n then r + 2 ^ b else r)"

definition root_fraction :: "nat \<Rightarrow> nat \<Rightarrow> 32 word" where
  "root_fraction k p = word_of_nat (iroot k (p * 2 ^ (32 * k)) 37 0)"

definition small_primes :: "nat list" where
  "small_primes = filter (\<lambda>p. list_all (\<lambda>d. p mod d \<noteq> 0) [2..<p]) [2..<312]"

definition sha256_k :: "32 word list" where
  "sha256_k = map (root_fraction 3) small_primes"

type_synonym sha_state =
  "32 word \<times> 32 word \<times> 32 word \<times> 32 word \<times> 32 word \<times> 32 word \<times> 32 word \<times> 32 word"

definition sha256_init :: sha_state where
  "sha256_init = (case map (root_fraction 2) (take 8 small_primes) of
     [a, b, c, d, e, f, g, h] \<Rightarrow> (a, b, c, d, e, f, g, h)
   | _ \<Rightarrow> (0, 0, 0, 0, 0, 0, 0, 0))"

definition rotr32 :: "nat \<Rightarrow> 32 word \<Rightarrow> 32 word" where
  "rotr32 n x = drop_bit n x OR push_bit (32 - n) x"

text \<open>The message schedule, extended one word at a time.\<close>

fun sha_schedule :: "nat \<Rightarrow> 32 word list \<Rightarrow> 32 word list" where
  "sha_schedule 0 w = w"
| "sha_schedule (Suc n) w =
     (let a = w ! (length w - 15); b = w ! (length w - 2);
          s0 = rotr32 7 a XOR rotr32 18 a XOR drop_bit 3 a;
          s1 = rotr32 17 b XOR rotr32 19 b XOR drop_bit 10 b
      in sha_schedule n (w @ [w ! (length w - 16) + s0 + w ! (length w - 7) + s1]))"

fun sha_round :: "(32 word \<times> 32 word) \<Rightarrow> sha_state \<Rightarrow> sha_state" where
  "sha_round (k, w) (a, b, c, d, e, f, g, h) =
     (let t1 = h + (rotr32 6 e XOR rotr32 11 e XOR rotr32 25 e) + ((e AND f) XOR (NOT e AND g)) + k + w;
          t2 = (rotr32 2 a XOR rotr32 13 a XOR rotr32 22 a) + ((a AND b) XOR (a AND c) XOR (b AND c))
      in (t1 + t2, a, b, c, d + t1, e, f, g))"

fun sha_add :: "sha_state \<Rightarrow> sha_state \<Rightarrow> sha_state" where
  "sha_add (a, b, c, d, e, f, g, h) (a', b', c', d', e', f', g', h') =
     (a + a', b + b', c + c', d + d', e + e', f + f', g + g', h + h')"

definition sha_block :: "sha_state \<Rightarrow> 32 word list \<Rightarrow> sha_state" where
  "sha_block st w = sha_add st (fold sha_round (zip sha256_k (sha_schedule 48 w)) st)"

fun sha_blocks :: "sha_state \<Rightarrow> 32 word list \<Rightarrow> sha_state" where
  "sha_blocks st ws =
     (if length ws < 16 then st else sha_blocks (sha_block st (take 16 ws)) (drop 16 ws))"

declare sha_blocks.simps [simp del]

fun words32 :: "bytes \<Rightarrow> 32 word list" where
  "words32 (a # b # c # d # s) = word_of_nat (be_val [a, b, c, d]) # words32 s"
| "words32 _ = []"

definition sha_pad :: "bytes \<Rightarrow> bytes" where
  "sha_pad m = m @ byte_of 128 # replicate ((119 - length m mod 64) mod 64) (byte_of 0)
                 @ be_bytes 8 (8 * length m)"

fun sha_output :: "sha_state \<Rightarrow> bytes" where
  "sha_output (a, b, c, d, e, f, g, h) =
     concat (map (\<lambda>x. be_bytes 4 (unat x)) [a, b, c, d, e, f, g, h])"

text \<open>\<open>sha256.Sum256(m)\<close>, and what \<open>Sum\<close> returns after \<open>m\<close> was written.\<close>

definition sha256 :: "bytes \<Rightarrow> bytes" where
  "sha256 m = sha_output (sha_blocks sha256_init (words32 (sha_pad m)))"

lemma length_sha256 [simp, enc_len]: "length (sha256 m) = 32"
  by (cases "sha_blocks sha256_init (words32 (sha_pad m))" rule: sha_output.cases)
    (simp add: sha256_def)

section \<open>HMAC-SHA-256\<close>

definition byte_xor :: "char \<Rightarrow> char \<Rightarrow> char" where
  "byte_xor a b = byte_of (byte_val a XOR byte_val b)"

definition bytes_xor :: "bytes \<Rightarrow> bytes \<Rightarrow> bytes" where
  "bytes_xor a b = map2 byte_xor a b"

definition hmac_key :: "bytes \<Rightarrow> bytes" where
  "hmac_key k = (let k' = (if 64 < length k then sha256 k else k)
                 in k' @ replicate (64 - length k') (byte_of 0))"

definition hmac_sha256 :: "bytes \<Rightarrow> bytes \<Rightarrow> bytes" where
  "hmac_sha256 k m =
     (let ik = map (byte_xor (byte_of 0x36)) (hmac_key k);
          ok = map (byte_xor (byte_of 0x5c)) (hmac_key k)
      in sha256 (ok @ sha256 (ik @ m)))"

lemma length_hmac [simp, enc_len]: "length (hmac_sha256 k m) = 32"
  by (simp add: hmac_sha256_def Let_def)

section \<open>AES\<close>

definition aes_sbox :: "8 word list" where
  "aes_sbox = [
    0x63, 0x7c, 0x77, 0x7b, 0xf2, 0x6b, 0x6f, 0xc5, 0x30, 0x01, 0x67, 0x2b, 0xfe, 0xd7, 0xab, 0x76,
    0xca, 0x82, 0xc9, 0x7d, 0xfa, 0x59, 0x47, 0xf0, 0xad, 0xd4, 0xa2, 0xaf, 0x9c, 0xa4, 0x72, 0xc0,
    0xb7, 0xfd, 0x93, 0x26, 0x36, 0x3f, 0xf7, 0xcc, 0x34, 0xa5, 0xe5, 0xf1, 0x71, 0xd8, 0x31, 0x15,
    0x04, 0xc7, 0x23, 0xc3, 0x18, 0x96, 0x05, 0x9a, 0x07, 0x12, 0x80, 0xe2, 0xeb, 0x27, 0xb2, 0x75,
    0x09, 0x83, 0x2c, 0x1a, 0x1b, 0x6e, 0x5a, 0xa0, 0x52, 0x3b, 0xd6, 0xb3, 0x29, 0xe3, 0x2f, 0x84,
    0x53, 0xd1, 0x00, 0xed, 0x20, 0xfc, 0xb1, 0x5b, 0x6a, 0xcb, 0xbe, 0x39, 0x4a, 0x4c, 0x58, 0xcf,
    0xd0, 0xef, 0xaa, 0xfb, 0x43, 0x4d, 0x33, 0x85, 0x45, 0xf9, 0x02, 0x7f, 0x50, 0x3c, 0x9f, 0xa8,
    0x51, 0xa3, 0x40, 0x8f, 0x92, 0x9d, 0x38, 0xf5, 0xbc, 0xb6, 0xda, 0x21, 0x10, 0xff, 0xf3, 0xd2,
    0xcd, 0x0c, 0x13, 0xec, 0x5f, 0x97, 0x44, 0x17, 0xc4, 0xa7, 0x7e, 0x3d, 0x64, 0x5d, 0x19, 0x73,
    0x60, 0x81, 0x4f, 0xdc, 0x22, 0x2a, 0x90, 0x88, 0x46, 0xee, 0xb8, 0x14, 0xde, 0x5e, 0x0b, 0xdb,
    0xe0, 0x32, 0x3a, 0x0a, 0x49, 0x06, 0x24, 0x5c, 0xc2, 0xd3, 0xac, 0x62, 0x91, 0x95, 0xe4, 0x79,
    0xe7, 0xc8, 0x37, 0x6d, 0x8d, 0xd5, 0x4e, 0xa9, 0x6c, 0x56, 0xf4, 0xea, 0x65, 0x7a, 0xae, 0x08,
    0xba, 0x78, 0x25, 0x2e, 0x1c, 0xa6, 0xb4, 0xc6, 0xe8, 0xdd, 0x74, 0x1f, 0x4b, 0xbd, 0x8b, 0x8a,
    0x70, 0x3e, 0xb5, 0x66, 0x48, 0x03, 0xf6, 0x0e, 0x61, 0x35, 0x57, 0xb9, 0x86, 0xc1, 0x1d, 0x9e,
    0xe1, 0xf8, 0x98, 0x11, 0x69, 0xd9, 0x8e, 0x94, 0x9b, 0x1e, 0x87, 0xe9, 0xce, 0x55, 0x28, 0xdf,
    0x8c, 0xa1, 0x89, 0x0d, 0xbf, 0xe6, 0x42, 0x68, 0x41, 0x99, 0x2d, 0x0f, 0xb0, 0x54, 0xbb, 0x16]"

definition sub_byte :: "8 word \<Rightarrow> 8 word" where
  "sub_byte x = aes_sbox ! unat x"

definition xtime :: "8 word \<Rightarrow> 8 word" where
  "xtime x = push_bit 1 x XOR (if bit x 7 then 0x1b else 0)"

text \<open>The key schedule, a list of four-byte words, extended one word at a time.\<close>

definition xor_word :: "8 word list \<Rightarrow> 8 word list \<Rightarrow> 8 word list" where
  "xor_word = map2 (XOR)"

fun aes_expand :: "nat \<Rightarrow> nat \<Rightarrow> 8 word \<Rightarrow> 8 word list list \<Rightarrow> 8 word list list" where
  "aes_expand nk 0 rc ws = ws"
| "aes_expand nk (Suc n) rc ws =
     (let i = length ws; prev = ws ! (i - 1);
          t = (if i mod nk = 0 then xor_word (map sub_byte (rotate1 prev)) [rc, 0, 0, 0]
               else if 6 < nk \<and> i mod nk = 4 then map sub_byte prev
               else prev)
      in aes_expand nk n (if i mod nk = 0 then xtime rc else rc) (ws @ [xor_word (ws ! (i - nk)) t]))"

definition aes_round_keys :: "bytes \<Rightarrow> 8 word list list" where
  "aes_round_keys k =
     (let nk = length k div 4;
          w0 = map (\<lambda>i. map (\<lambda>j. word_of_nat (byte_val (k ! (4 * i + j)))) [0..<4]) [0..<nk];
          ws = aes_expand nk (4 * (nk + 7) - nk) 1 w0
      in map (\<lambda>r. concat (take 4 (drop (4 * r) ws))) [0..<nk + 7])"

definition add_round_key :: "8 word list \<Rightarrow> 8 word list \<Rightarrow> 8 word list" where
  "add_round_key k s = map (\<lambda>i. s ! i XOR k ! i) [0..<16]"

definition shift_rows :: "8 word list \<Rightarrow> 8 word list" where
  "shift_rows s = map (\<lambda>i. s ! ((i + 4 * (i mod 4)) mod 16)) [0..<16]"

definition mix_column :: "8 word list \<Rightarrow> nat \<Rightarrow> 8 word" where
  "mix_column s i =
     (let c = 4 * (i div 4); r = i mod 4;
          a = s ! (c + r); b = s ! (c + (r + 1) mod 4);
          d = s ! (c + (r + 2) mod 4); e = s ! (c + (r + 3) mod 4)
      in xtime a XOR (xtime b XOR b) XOR d XOR e)"

definition mix_columns :: "8 word list \<Rightarrow> 8 word list" where
  "mix_columns s = map (mix_column s) [0..<16]"

definition aes_round :: "8 word list \<Rightarrow> 8 word list \<Rightarrow> 8 word list" where
  "aes_round k s = add_round_key k (mix_columns (shift_rows (map sub_byte s)))"

definition aes_encrypt :: "bytes \<Rightarrow> bytes \<Rightarrow> bytes" where
  "aes_encrypt key blk =
     (let ks = aes_round_keys key;
          s0 = add_round_key (hd ks) (map (\<lambda>c. word_of_nat (byte_val c)) blk);
          s = fold aes_round (butlast (tl ks)) s0
      in map (\<lambda>x. byte_of (unat x)) (add_round_key (last ks) (shift_rows (map sub_byte s))))"

lemma length_aes_encrypt [simp]: "length (aes_encrypt k b) = 16"
  by (simp add: aes_encrypt_def Let_def add_round_key_def)

section \<open>Galois/counter mode\<close>

text \<open>
  Multiplication in the field of 2^128 elements (the most significant bit of the word is the
  coefficient of the constant term), and the hash of the additional data and the ciphertext.
\<close>

fun gf_mult :: "nat \<Rightarrow> 128 word \<Rightarrow> 128 word \<Rightarrow> 128 word \<Rightarrow> 128 word" where
  "gf_mult 0 x v z = z"
| "gf_mult (Suc n) x v z =
     gf_mult n x (if bit v 0 then drop_bit 1 v XOR push_bit 120 0xe1 else drop_bit 1 v)
       (if bit x n then z XOR v else z)"

definition pad16 :: "bytes \<Rightarrow> bytes" where
  "pad16 s = s @ replicate ((16 - length s mod 16) mod 16) (byte_of 0)"

fun ghash :: "128 word \<Rightarrow> 128 word \<Rightarrow> bytes \<Rightarrow> 128 word" where
  "ghash h y s =
     (if length s < 16 then y
      else ghash h (gf_mult 128 (y XOR word_of_nat (be_val (take 16 s))) h 0) (drop 16 s))"

declare ghash.simps [simp del]

definition gcm_tag :: "bytes \<Rightarrow> bytes \<Rightarrow> bytes \<Rightarrow> bytes \<Rightarrow> bytes" where
  "gcm_tag key nonce aad ct =
     (let h = word_of_nat (be_val (aes_encrypt key (replicate 16 (byte_of 0))));
          y = ghash h 0 (pad16 aad @ pad16 ct @ be_bytes 8 (8 * length aad) @ be_bytes 8 (8 * length ct))
      in bytes_xor (be_bytes 16 (unat y)) (aes_encrypt key (nonce @ be_bytes 4 1)))"

text \<open>The key stream: the encryption of the counter blocks 2, 3 and so on.\<close>

definition gcm_stream :: "bytes \<Rightarrow> bytes \<Rightarrow> nat \<Rightarrow> bytes" where
  "gcm_stream key nonce n =
     concat (map (\<lambda>i. aes_encrypt key (nonce @ be_bytes 4 (i + 2))) [0..<(n + 15) div 16])"

text \<open>
  \<open>cipher.NewGCM\<close>'s \<open>Seal(nil, nonce, pt, aad)\<close> and \<open>Open(nil, nonce, ct, aad)\<close> for a
  12-byte nonce. \<open>Open\<close> fails when the input is shorter than the tag or the tag differs.
\<close>

definition gcm_seal :: "bytes \<Rightarrow> bytes \<Rightarrow> bytes \<Rightarrow> bytes \<Rightarrow> bytes" where
  "gcm_seal key nonce pt aad =
     (let ct = bytes_xor pt (gcm_stream key nonce (length pt))
      in ct @ gcm_tag key nonce aad ct)"

definition gcm_open :: "bytes \<Rightarrow> bytes \<Rightarrow> bytes \<Rightarrow> bytes \<Rightarrow> bytes option" where
  "gcm_open key nonce sealed aad =
     (if length sealed < 16 then None
      else let ct = take (length sealed - 16) sealed; tag = drop (length sealed - 16) sealed
           in if tag = gcm_tag key nonce aad ct
              then Some (bytes_xor ct (gcm_stream key nonce (length ct)))
              else None)"

lemma length_bytes_xor [simp]: "length (bytes_xor a b) = min (length a) (length b)"
  by (simp add: bytes_xor_def)

lemma length_gcm_tag [simp]: "length (gcm_tag key nonce aad ct) = 16"
  by (simp add: gcm_tag_def Let_def)

lemma length_gcm_stream: "n \<le> length (gcm_stream key nonce n)"
proof -
  have "length (gcm_stream key nonce n) = 16 * ((n + 15) div 16)"
    by (simp add: gcm_stream_def length_concat comp_def sum_list_triv)
  then show ?thesis
    by simp
qed

lemma byte_xor_cancel [simp]: "byte_xor (byte_xor a b) b = a"
proof -
  have "byte_val a XOR byte_val b < 256"
  proof -
    have "byte_val a XOR byte_val b = take_bit 8 (byte_val a XOR byte_val b)"
      by (simp add: take_bit_xor take_bit_nat_eq_self)
    then show ?thesis
      using take_bit_nat_less_exp [of 8 "byte_val a XOR byte_val b"] by simp
  qed
  then show ?thesis
    by (simp add: byte_xor_def xor.assoc)
qed

lemma bytes_xor_cancel: "length a \<le> length b \<Longrightarrow> bytes_xor (bytes_xor a b) b = a"
  by (induction a b rule: list_induct2') (auto simp: bytes_xor_def)

text \<open>What the callers rely on of an authenticated cipher.\<close>

locale aead =
  fixes seal_fn :: "bytes \<Rightarrow> bytes \<Rightarrow> bytes \<Rightarrow> bytes \<Rightarrow> bytes"
    and open_fn :: "bytes \<Rightarrow> bytes \<Rightarrow> bytes \<Rightarrow> bytes \<Rightarrow> bytes option"
    and overhead :: nat
  assumes open_seal: "open_fn k n (seal_fn k n p a) a = Some p"
    and seal_length: "length (seal_fn k n p a) = length p + overhead"
begin

lemma seal_inj: "seal_fn k n p a = seal_fn k n q a \<Longrightarrow> p = q"
  by (metis open_seal option.inject)

lemma seal_nonempty: "0 < overhead \<Longrightarrow> seal_fn k n p a \<noteq> []"
  by (metis add_is_0 length_0_conv not_less0 seal_length)

end

interpretation gcm: aead gcm_seal gcm_open 16
proof
  fix k n p a
  have len: "length (bytes_xor p (gcm_stream k n (length p))) = length p"
    by (simp only: length_bytes_xor min.absorb1 [OF length_gcm_stream])
  show "length (gcm_seal k n p a) = length p + 16"
    by (simp add: gcm_seal_def Let_def len del: length_bytes_xor)
  show "gcm_open k n (gcm_seal k n p a) a = Some p"
    using bytes_xor_cancel [OF length_gcm_stream, of p k n]
    by (simp add: gcm_seal_def gcm_open_def Let_def len del: length_bytes_xor)
qed

section \<open>Ed25519\<close>

text \<open>
  \<open>ed25519.Verify\<close> of a public key, a message and a signature. The theories take it as an argument:
  what they show holds for every verifier, and so for Go's.
\<close>

type_synonym ed25519_verify = "bytes \<Rightarrow> bytes \<Rightarrow> bytes \<Rightarrow> bool"

end
