(* ===== verification/Go_Time.thy ===== *)
theory Go_Time
  imports Go_Prelude "HOL-Library.Monad_Syntax"
begin

text \<open>
  The part of Go's \<open>time\<close> package the sources use. A \<open>time.Time\<close> is an instant, the
  integer number of nanoseconds since 1970-01-01T00:00:00Z; a \<open>time.Duration\<close> is a number of
  nanoseconds. The calendar is the proleptic Gregorian one, and the layouts are the three the
  sources parse and print: \<open>time.DateOnly\<close>, the millisecond layout
  \<open>2006-01-02T15:04:05.000Z\<close> of the A9 wire objects, and \<open>time.RFC3339Nano\<close>.

  The main lemmas say that a calendar date survives the conversion to a day number and back, so that
  the sources' check "parse, print again and compare" accepts exactly the well-formed spellings.
\<close>

type_synonym time = int
type_synonym duration = int

definition nanosecond :: duration where "nanosecond = 1"
definition millisecond :: duration where "millisecond = 1000000"
definition second :: duration where "second = 1000000000"
definition minute :: duration where "minute = 60 * second"
definition hour :: duration where "hour = 60 * minute"

lemmas duration_defs = nanosecond_def millisecond_def second_def minute_def hour_def

text \<open>The zero \<open>time.Time\<close> is 0001-01-01T00:00:00Z.\<close>

definition zero_time :: time where
  "zero_time = - 62135596800 * second"

text \<open>\<open>t.Sub(u)\<close> saturates at the range of a 64-bit duration.\<close>

definition time_sub :: "time \<Rightarrow> time \<Rightarrow> duration" where
  "time_sub t u = max (- (2 ^ 63)) (min (2 ^ 63 - 1) (t - u))"

lemma time_sub_le: "d < 2 ^ 63 - 1 \<Longrightarrow> - (2 ^ 63) \<le> d \<Longrightarrow> time_sub t u \<le> d \<longleftrightarrow> t - u \<le> d"
  by (auto simp: time_sub_def)

lemma time_sub_less: "d \<le> 2 ^ 63 - 1 \<Longrightarrow> - (2 ^ 63) < d \<Longrightarrow> time_sub t u < d \<longleftrightarrow> t - u < d"
  by (auto simp: time_sub_def)

section \<open>The calendar\<close>

text \<open>
  The largest index below \<open>n\<close> whose value under an increasing \<open>f\<close> does not exceed \<open>x\<close>.
\<close>

definition rank :: "(nat \<Rightarrow> int) \<Rightarrow> nat \<Rightarrow> int \<Rightarrow> nat" where
  "rank f n x = length (filter (\<lambda>k. f k \<le> x) [1..<n])"

lemma rank_eq:
  assumes "\<And>i j. i \<le> j \<Longrightarrow> f i \<le> f j" and "k < n" and "f k \<le> x" and "Suc k < n \<Longrightarrow> x < f (Suc k)"
  shows "rank f n x = k"
proof -
  have "f i \<le> x \<longleftrightarrow> i \<le> k" if "i < n" for i
    using assms that by (metis le_less_Suc_eq linorder_not_le not_less_eq order.strict_trans1 order_trans Suc_leI)
  then have "filter (\<lambda>i. f i \<le> x) [1..<n] = filter (\<lambda>i. i \<le> k) [1..<n]"
    by (intro filter_cong) auto
  also have "\<dots> = filter (\<lambda>i. i \<le> k) ([1..<Suc k] @ [Suc k..<n])"
    using assms(2) upt_add_eq_append [of 1 "Suc k" "n - Suc k"] by (simp del: upt_Suc)
  also have "\<dots> = [1..<Suc k]"
    by (simp del: upt_Suc add: filter_id_conv filter_empty_conv)
  finally show ?thesis
    by (simp add: rank_def del: upt_Suc)
qed

text \<open>
  Years are counted from 1 March, so that a leap day ends its year: \<open>year_base y\<close> days lie before
  year \<open>y\<close> of a 400-year cycle, and \<open>month_base m\<close> days before the month \<open>m\<close> (0 is March).
\<close>

definition year_base :: "nat \<Rightarrow> int" where
  "year_base y = int (365 * y + y div 4) - int (y div 100)"

definition month_base :: "nat \<Rightarrow> int" where
  "month_base m = int ((153 * m + 2) div 5)"

definition is_leap :: "int \<Rightarrow> bool" where
  "is_leap y \<longleftrightarrow> y mod 4 = 0 \<and> (y mod 100 \<noteq> 0 \<or> y mod 400 = 0)"

definition days_in_month :: "int \<Rightarrow> int \<Rightarrow> int" where
  "days_in_month y m = (if m = 2 then (if is_leap y then 29 else 28)
     else if m = 4 \<or> m = 6 \<or> m = 9 \<or> m = 11 then 30 else 31)"

definition valid_date :: "int \<Rightarrow> int \<Rightarrow> int \<Rightarrow> bool" where
  "valid_date y m d \<longleftrightarrow> 1 \<le> m \<and> m \<le> 12 \<and> 1 \<le> d \<and> d \<le> days_in_month y m"

text \<open>Days since 1970-01-01, and back.\<close>

definition days_of_civil :: "int \<Rightarrow> int \<Rightarrow> int \<Rightarrow> int" where
  "days_of_civil y m d =
     (let y' = (if m \<le> 2 then y - 1 else y); m' = (if m \<le> 2 then m + 9 else m - 3)
      in y' div 400 * 146097 + year_base (nat (y' mod 400)) + month_base (nat m') + d - 1 - 719468)"

definition civil_of_days :: "int \<Rightarrow> int \<times> int \<times> int" where
  "civil_of_days z =
     (let era = (z + 719468) div 146097; doe = (z + 719468) mod 146097;
          yoe = rank year_base 400 doe; doy = doe - year_base yoe;
          mp = rank month_base 12 doy; d = doy - month_base mp + 1;
          m = (if mp < 10 then int mp + 3 else int mp - 9)
      in (era * 400 + int yoe + (if m \<le> 2 then 1 else 0), m, d))"

lemma year_base_Suc:
  "year_base (Suc y) = year_base y + 365 +
     (if Suc y mod 4 = 0 then 1 else 0) - (if Suc y mod 100 = 0 then 1 else 0)"
  by (simp add: year_base_def div_Suc)

lemma year_base_mono: "i \<le> j \<Longrightarrow> year_base i \<le> year_base j"
  by (rule lift_Suc_mono_le [of year_base]) (simp_all add: year_base_Suc)

lemma month_base_mono: "i \<le> j \<Longrightarrow> month_base i \<le> month_base j"
  by (rule lift_Suc_mono_le [of month_base]) (simp_all add: month_base_def)

lemma year_base_0 [simp]: "year_base 0 = 0"
  by (simp add: year_base_def)

lemma year_base_400: "year_base 399 + 366 = 146097"
  by (simp add: year_base_def)


text \<open>
  The day of the year (counted from 1 March) of a valid date lies within its month and its year.
\<close>

definition year_length :: "nat \<Rightarrow> int" where
  "year_length k = (if k = 399 then 366 else year_base (Suc k) - year_base k)"

lemma year_length_ge: "365 \<le> year_length k"
proof -
  have "Suc k mod 100 = 0 \<Longrightarrow> Suc k mod 4 = 0"
    by presburger
  then show ?thesis
    by (auto simp: year_length_def year_base_Suc)
qed

lemma mod_400: "(y::int) mod 4 = (y mod 400) mod 4" "(y::int) mod 100 = (y mod 400) mod 100"
  by (simp_all add: mod_mod_cancel)

lemma year_length_leap: "is_leap (y + 1) \<Longrightarrow> year_length (nat (y mod 400)) = 366"
proof -
  assume leap: "is_leap (y + 1)"
  define k where "k = nat (y mod 400)"
  have k: "int k = y mod 400" "k < 400"
    by (simp_all add: k_def nat_less_iff)
  have "(y + 1) mod int c = int (Suc k mod c)" if "c dvd 400" for c
  proof -
    have "int c dvd 400"
      using that by (metis of_nat_dvd_iff of_nat_numeral)
    then have "(y + 1) mod int c = (y mod 400 + 1) mod int c"
      by (intro mod_add_cong) (simp_all add: mod_mod_cancel)
    then show ?thesis
      by (simp add: k(1) [symmetric] zmod_int add.commute)
  qed
  from this [of 4] this [of 100] this [of 400]
  have "Suc k mod 4 = 0" "Suc k mod 100 \<noteq> 0 \<or> Suc k mod 400 = 0"
    using leap unfolding is_leap_def by simp_all
  moreover have "Suc k mod 400 = 0 \<Longrightarrow> k = 399"
    using k(2) by presburger
  ultimately show "year_length (nat (y mod 400)) = 366"
    unfolding k_def [symmetric] year_length_def by (auto simp: year_base_Suc)
qed

lemma month_bases [simp]:
  "month_base 0 = 0" "month_base (Suc 0) = 31" "month_base (Suc (Suc 0)) = 61" "month_base 2 = 61" "month_base 3 = 92" "month_base 4 = 122"
  "month_base 5 = 153" "month_base 6 = 184" "month_base 7 = 214" "month_base 8 = 245"
  "month_base 9 = 275" "month_base 10 = 306" "month_base 11 = 337"
  by (simp_all add: month_base_def)

lemma twelve_cases:
  assumes "1 \<le> m" and "m \<le> (12::int)"
  obtains "m = 1" | "m = 2" | "m = 3" | "m = 4" | "m = 5" | "m = 6" | "m = 7" | "m = 8" | "m = 9"
    | "m = 10" | "m = 11" | "m = 12"
proof -
  have "m = 1 \<or> m = 2 \<or> m = 3 \<or> m = 4 \<or> m = 5 \<or> m = 6 \<or> m = 7 \<or> m = 8 \<or> m = 9 \<or>
      m = 10 \<or> m = 11 \<or> m = 12"
    using assms by presburger
  then show thesis
    using that by blast
qed

lemma day_of_year_bounds:
  assumes "valid_date y m d"
  defines "y' \<equiv> if m \<le> 2 then y - 1 else y" and "m' \<equiv> nat (if m \<le> 2 then m + 9 else m - 3)"
  shows "m' < 12" and "0 \<le> month_base m' + d - 1"
    and "Suc m' < 12 \<Longrightarrow> month_base m' + d - 1 < month_base (Suc m')"
    and "month_base m' + d - 1 < year_length (nat (y' mod 400))"
    and "(if m' < 10 then int m' + 3 else int m' - 9) = m"
proof -
  have m: "1 \<le> m" "m \<le> 12" and d: "1 \<le> d" "d \<le> days_in_month y m"
    using assms(1) by (auto simp: valid_date_def)
  have len: "365 \<le> year_length (nat (y' mod 400))"
    by (rule year_length_ge)
  have feb: "m = 2 \<Longrightarrow> is_leap y \<Longrightarrow> year_length (nat (y' mod 400)) = 366"
    using year_length_leap [of "y - 1"] by (simp add: y'_def)
  show "m' < 12" and "(if m' < 10 then int m' + 3 else int m' - 9) = m"
    using m by (auto simp: m'_def)
  have "0 \<le> month_base m'"
    using month_base_mono [of 0 m'] by simp
  then show "0 \<le> month_base m' + d - 1"
    using d by simp
  show "month_base m' + d - 1 < month_base (Suc m')" if "Suc m' < 12"
    using d that by (cases rule: twelve_cases [OF m]) (simp_all add: m'_def days_in_month_def)
  show "month_base m' + d - 1 < year_length (nat (y' mod 400))"
  proof (cases "m = 2")
    case True
    then show ?thesis
      using d len feb by (simp add: m'_def days_in_month_def split: if_splits)
  next
    case False
    then show ?thesis
      using d len by (cases rule: twelve_cases [OF m]) (simp_all add: m'_def days_in_month_def)
  qed
qed

theorem civil_of_days_of_civil:
  assumes "valid_date y m d"
  shows "civil_of_days (days_of_civil y m d) = (y, m, d)"
proof -
  define y' where "y' = (if m \<le> 2 then y - 1 else y)"
  define m' where "m' = nat (if m \<le> 2 then m + 9 else m - 3)"
  define k where "k = nat (y' mod 400)"
  define doy where "doy = month_base m' + d - 1"
  note bounds = day_of_year_bounds [OF assms, folded y'_def m'_def, folded k_def doy_def]
  have k: "k < 400" "int k = y' mod 400"
    by (simp_all add: k_def nat_less_iff)
  have k_le: "year_base k + year_length k \<le> 146097"
  proof (cases "k = 399")
    case True
    then show ?thesis
      by (simp add: year_length_def year_base_400)
  next
    case False
    then have "year_base (Suc k) \<le> year_base 399"
      using k(1) by (intro year_base_mono) simp
    then show ?thesis
      using False year_base_400 by (simp add: year_length_def)
  qed
  have z: "days_of_civil y m d + 719468 = y' div 400 * 146097 + (year_base k + doy)"
    by (simp add: days_of_civil_def Let_def y'_def m'_def k_def doy_def)
  have "0 \<le> year_base k + doy"
    using year_base_mono [of 0 k] bounds(2) by simp
  then have era: "(days_of_civil y m d + 719468) div 146097 = y' div 400"
    and doe: "(days_of_civil y m d + 719468) mod 146097 = year_base k + doy"
    using bounds(4) k_le unfolding z by simp_all
  have yoe: "rank year_base 400 (year_base k + doy) = k"
    using k bounds(2,4) by (intro rank_eq year_base_mono) (auto simp: year_length_def split: if_splits)
  have mp: "rank month_base 12 doy = m'"
    using bounds(1,2,3) assms by (intro rank_eq month_base_mono) (auto simp: doy_def valid_date_def)
  have "y' div 400 * 400 + int k = y'"
    by (simp add: k)
  moreover have "civil_of_days (days_of_civil y m d) =
      (y' div 400 * 400 + int k + (if m \<le> 2 then 1 else 0), m, doy - month_base m' + 1)"
    using bounds(1,5) by (auto simp: civil_of_days_def Let_def era doe yoe mp split: if_splits)
  ultimately show ?thesis
    by (simp add: doy_def y'_def)
qed


section \<open>Printing\<close>

text \<open>A number padded with zeros to a width, and the fields of an instant in UTC.\<close>

definition pad_dec :: "nat \<Rightarrow> nat \<Rightarrow> bytes" where
  "pad_dec w n = replicate (w - length (dec n)) (CHR ''0'') @ dec n"

definition pad_int :: "nat \<Rightarrow> int \<Rightarrow> bytes" where
  "pad_int w n = (if n < 0 then CHR ''-'' # pad_dec w (nat (- n)) else pad_dec w (nat n))"

definition day_of :: "time \<Rightarrow> int" where
  "day_of t = t div (24 * hour)"

definition time_of_day :: "time \<Rightarrow> int" where
  "time_of_day t = t mod (24 * hour)"

text \<open>\<open>t.UTC().Format(time.DateOnly)\<close>.\<close>

definition format_date :: "time \<Rightarrow> bytes" where
  "format_date t = (case civil_of_days (day_of t) of (y, m, d) \<Rightarrow>
     pad_int 4 y @ ''-'' @ pad_int 2 m @ ''-'' @ pad_int 2 d)"

text \<open>\<open>t.Format("2006-01-02T15:04:05.000Z")\<close> of a time in UTC: the fraction is cut to milliseconds.\<close>

definition format_wire :: "time \<Rightarrow> bytes" where
  "format_wire t = (let r = time_of_day t in
     format_date t @ ''T'' @ pad_int 2 (r div hour) @ '':'' @ pad_int 2 (r mod hour div minute) @ '':'' @
     pad_int 2 (r mod minute div second) @ ''.'' @ pad_int 3 (r mod second div millisecond) @ ''Z'')"

section \<open>Parsing\<close>

text \<open>The instant of calendar and clock fields in UTC (\<open>time.Date\<close> with fields in range).\<close>

definition time_of_fields :: "int \<Rightarrow> int \<Rightarrow> int \<Rightarrow> int \<Rightarrow> int \<Rightarrow> int \<Rightarrow> int \<Rightarrow> time" where
  "time_of_fields y mo d h mi s ns =
     days_of_civil y mo d * (24 * hour) + h * hour + mi * minute + s * second + ns"

text \<open>Exactly \<open>n\<close> digits, one literal byte, and one or two digits, each with the rest of the input.\<close>

definition eat_digits :: "nat \<Rightarrow> bytes \<Rightarrow> (int \<times> bytes) option" where
  "eat_digits n s = (if n \<le> length s \<and> list_all is_digit (take n s)
     then Some (int (dec_val (take n s)), drop n s) else None)"

definition eat_char :: "char \<Rightarrow> bytes \<Rightarrow> bytes option" where
  "eat_char c s = (case s of [] \<Rightarrow> None | d # r \<Rightarrow> if d = c then Some r else None)"

definition eat_hour :: "bytes \<Rightarrow> (int \<times> bytes) option" where
  "eat_hour s = (case eat_digits 2 s of Some r \<Rightarrow> Some r | None \<Rightarrow> eat_digits 1 s)"

definition eat_date :: "bytes \<Rightarrow> ((int \<times> int \<times> int) \<times> bytes) option" where
  "eat_date s = do {
     (y, s) \<leftarrow> eat_digits 4 s;
     s \<leftarrow> eat_char (CHR ''-'') s;
     (m, s) \<leftarrow> eat_digits 2 s;
     s \<leftarrow> eat_char (CHR ''-'') s;
     (d, s) \<leftarrow> eat_digits 2 s;
     if valid_date y m d then Some ((y, m, d), s) else None }"

text \<open>\<open>time.Parse(time.DateOnly, s)\<close>.\<close>

definition parse_date :: "bytes \<Rightarrow> time option" where
  "parse_date s = (case eat_date s of
     Some ((y, m, d), []) \<Rightarrow> Some (time_of_fields y m d 0 0 0 0)
   | _ \<Rightarrow> None)"

text \<open>The clock: Go takes an hour of one or two digits here.\<close>

definition eat_clock :: "bytes \<Rightarrow> ((int \<times> int \<times> int) \<times> bytes) option" where
  "eat_clock s = do {
     (h, s) \<leftarrow> eat_hour s;
     s \<leftarrow> eat_char (CHR '':'') s;
     (mi, s) \<leftarrow> eat_digits 2 s;
     s \<leftarrow> eat_char (CHR '':'') s;
     (sec, s) \<leftarrow> eat_digits 2 s;
     if h < 24 \<and> mi < 60 \<and> sec < 60 then Some ((h, mi, sec), s) else None }"

text \<open>
  \<open>time.Parse("2006-01-02T15:04:05.000Z", s)\<close>. The fraction may follow a comma instead of a
  period, and its three bytes go through \<open>atoi\<close>, which takes a sign.
\<close>

definition eat_millis :: "bytes \<Rightarrow> (int \<times> bytes) option" where
  "eat_millis s = (case s of
     c # a # r \<Rightarrow>
       if c \<noteq> CHR ''.'' \<and> c \<noteq> CHR '','' then None
       else if a = CHR ''+'' then eat_digits 2 r
       else if a = CHR ''-'' then
         (case eat_digits 2 r of Some (n, q) \<Rightarrow> if n = 0 then Some (0, q) else None | None \<Rightarrow> None)
       else eat_digits 3 (a # r)
   | _ \<Rightarrow> None)"

definition parse_wire :: "bytes \<Rightarrow> time option" where
  "parse_wire s = do {
     ((y, mo, d), s) \<leftarrow> eat_date s;
     s \<leftarrow> eat_char (CHR ''T'') s;
     ((h, mi, sec), s) \<leftarrow> eat_clock s;
     (ms, s) \<leftarrow> eat_millis s;
     s \<leftarrow> eat_char (CHR ''Z'') s;
     if s = [] then Some (time_of_fields y mo d h mi sec (ms * millisecond)) else None }"

text \<open>
  \<open>time.Parse(time.RFC3339Nano, s)\<close>: an optional fraction of any length (digits beyond the ninth
  are dropped), then \<open>Z\<close> or a numeric offset of at most 24 hours and 60 minutes.
\<close>

definition eat_fraction :: "bytes \<Rightarrow> int \<times> bytes" where
  "eat_fraction s = (case s of
     c # a # r \<Rightarrow>
       if (c = CHR ''.'' \<or> c = CHR '','') \<and> is_digit a then
         (let ds = takeWhile is_digit (a # r); d9 = take 9 ds
          in (int (dec_val d9) * 10 ^ (9 - length d9), dropWhile is_digit (a # r)))
       else (0, s)
   | _ \<Rightarrow> (0, s))"

definition eat_zone :: "bytes \<Rightarrow> (int \<times> bytes) option" where
  "eat_zone s = (case s of
     [] \<Rightarrow> None
   | c # r \<Rightarrow>
       if c = CHR ''Z'' then Some (0, r)
       else if c \<noteq> CHR ''+'' \<and> c \<noteq> CHR ''-'' then None
       else do {
         (h, r) \<leftarrow> eat_digits 2 r;
         r \<leftarrow> eat_char (CHR '':'') r;
         (m, r) \<leftarrow> eat_digits 2 r;
         if h \<le> 24 \<and> m \<le> 60
         then Some ((if c = CHR ''-'' then - 1 else 1) * (h * hour + m * minute), r)
         else None })"

definition parse_rfc3339 :: "bytes \<Rightarrow> time option" where
  "parse_rfc3339 s = do {
     ((y, mo, d), s) \<leftarrow> eat_date s;
     s \<leftarrow> eat_char (CHR ''T'') s;
     ((h, mi, sec), s) \<leftarrow> eat_clock s;
     (let (ns, s) = eat_fraction s in do {
       (off, s) \<leftarrow> eat_zone s;
       if s = [] then Some (time_of_fields y mo d h mi sec ns - off) else None }) }"

section \<open>Parsing what was printed\<close>

lemma length_dec_le: "n < 10 ^ w \<Longrightarrow> 0 < w \<Longrightarrow> length (dec n) \<le> w"
proof (induction n arbitrary: w rule: dec.induct)
  case (1 n)
  show ?case
  proof (cases "n < 10")
    case True
    then show ?thesis
      using "1.prems" by (simp add: dec.simps [of n])
  next
    case False
    then obtain v where w: "w = Suc v" and v: "0 < v"
      using "1.prems" by (cases w; cases "w - 1") auto
    have "n div 10 < 10 ^ v"
      using "1.prems"(1) by (simp add: w less_mult_imp_div_less mult.commute)
    then show ?thesis
      using "1.IH" [OF False _ v] False by (simp add: dec.simps [of n] w)
  qed
qed

lemma length_pad_dec [simp]: "n < 10 ^ w \<Longrightarrow> 0 < w \<Longrightarrow> length (pad_dec w n) = w"
  using length_dec_le by (simp add: pad_dec_def)

lemma dec_val_replicate: "dec_val (replicate k (CHR ''0'') @ s) = dec_val s"
proof -
  have "foldl (\<lambda>a c. a * 10 + digit_val c) 0 (replicate k (CHR ''0'')) = 0"
    by (induction k) (simp_all add: digit_val_def)
  then show ?thesis
    by (simp add: dec_val_def)
qed

lemma dec_val_pad_dec [simp]: "dec_val (pad_dec w n) = n"
  by (simp add: pad_dec_def dec_val_replicate)

lemma pad_dec_digits: "list_all is_digit (pad_dec w n)"
  using dec_digits [of n] by (auto simp: pad_dec_def list_all_iff is_digit_def)

lemma eat_digits_pad:
  assumes "0 \<le> n" and "n < 10 ^ w" and "0 < w"
  shows "eat_digits w (pad_int w n @ s) = Some (n, s)"
proof -
  have "nat n < 10 ^ w"
    using assms by (metis nat_less_numeral_power_cancel_iff)
  then show ?thesis
    using assms pad_dec_digits by (simp add: eat_digits_def pad_int_def)
qed

lemma eat_char_Cons [simp]: "eat_char c (c # s) = Some s"
  by (simp add: eat_char_def)

lemma days_in_month_le: "days_in_month y m \<le> 31"
  by (simp add: days_in_month_def)

lemma eat_date_format:
  assumes "valid_date y m d" and "0 \<le> y" and "y \<le> 9999"
  shows "eat_date (pad_int 4 y @ CHR ''-'' # pad_int 2 m @ CHR ''-'' # pad_int 2 d @ s) = Some ((y, m, d), s)"
proof -
  have "0 \<le> m" "m < 10 ^ 2" "0 \<le> d" "d < 10 ^ 2" "y < 10 ^ 4"
    using assms days_in_month_le [of y m] by (auto simp: valid_date_def)
  then show ?thesis
    using assms by (simp add: eat_date_def eat_digits_pad)
qed

text \<open>The fields of an instant given by fields in range.\<close>

definition valid_clock :: "int \<Rightarrow> int \<Rightarrow> int \<Rightarrow> int \<Rightarrow> bool" where
  "valid_clock h mi s ns \<longleftrightarrow>
     0 \<le> h \<and> h < 24 \<and> 0 \<le> mi \<and> mi < 60 \<and> 0 \<le> s \<and> s < 60 \<and> 0 \<le> ns \<and> ns < second"


lemma radix: "0 \<le> b \<Longrightarrow> b < c \<Longrightarrow> (a * c + b) div c = a \<and> (a * c + b) mod c = (b::int)"
  by (simp add: zdiv_eq_0_iff div_pos_pos_trivial)

lemma second_pos: "0 < second" "0 < millisecond" "0 < minute" "0 < hour"
  by (simp_all add: duration_defs)

lemma clock_fields:
  assumes "valid_clock h mi s ns"
  defines "r \<equiv> h * hour + mi * minute + s * second + ns"
  shows "0 \<le> r" and "r < 24 * hour" and "r div hour = h" and "r mod hour div minute = mi"
    and "r mod minute div second = s" and "r mod second = ns"
proof -
  have v: "0 \<le> h" "h < 24" "0 \<le> mi" "mi < 60" "0 \<le> s" "s < 60" "0 \<le> ns" "ns < second"
    using assms(1) by (auto simp: valid_clock_def)
  have a: "0 \<le> s * second + ns" "s * second + ns < minute"
    using v by (auto simp: duration_defs)
  have b: "0 \<le> mi * minute + (s * second + ns)" "mi * minute + (s * second + ns) < hour"
    using v a by (auto simp: duration_defs)
  have 1: "r = h * hour + (mi * minute + (s * second + ns))"
    and 2: "r = (h * 60 + mi) * minute + (s * second + ns)"
    and 3: "r = (h * 3600 + mi * 60 + s) * second + ns"
    by (simp_all add: r_def hour_def minute_def algebra_simps)
  show "0 \<le> r" "r < 24 * hour"
    using v b by (auto simp: 1 duration_defs)
  show "r div hour = h" and "r mod hour div minute = mi"
    using radix [OF b] radix [OF a] by (simp_all add: 1)
  show "r mod minute div second = s"
    using radix [OF a, of "h * 60 + mi"] radix [OF v(7,8), of s] by (simp only: 2)
  show "r mod second = ns"
    using radix [OF v(7,8), of "h * 3600 + mi * 60 + s"] by (simp only: 3)
qed

lemma time_of_fields_split:
  assumes "valid_clock h mi s ns"
  shows "day_of (time_of_fields y mo d h mi s ns) = days_of_civil y mo d"
    and "time_of_day (time_of_fields y mo d h mi s ns) = h * hour + mi * minute + s * second + ns"
  using radix [OF clock_fields(1,2) [OF assms], of "days_of_civil y mo d"]
  by (simp_all add: day_of_def time_of_day_def time_of_fields_def add.assoc)

text \<open>The millisecond text of fields: what \<open>format_wire\<close> prints and \<open>parse_wire\<close> reads.\<close>

definition wire_text :: "int \<Rightarrow> int \<Rightarrow> int \<Rightarrow> int \<Rightarrow> int \<Rightarrow> int \<Rightarrow> int \<Rightarrow> bytes" where
  "wire_text y mo d h mi s ms =
     pad_int 4 y @ CHR ''-'' # pad_int 2 mo @ CHR ''-'' # pad_int 2 d @ CHR ''T'' #
     pad_int 2 h @ CHR '':'' # pad_int 2 mi @ CHR '':'' # pad_int 2 s @ CHR ''.'' # pad_int 3 ms @ ''Z''"

lemma millis_clock:
  assumes "valid_clock h mi s 0" and "0 \<le> ms" and "ms < 1000"
  shows "valid_clock h mi s (ms * millisecond)"
  using assms by (auto simp: valid_clock_def duration_defs)

lemma format_wire_fields:
  assumes "valid_date y mo d" and "valid_clock h mi s 0" and "0 \<le> ms" and "ms < 1000"
  shows "format_wire (time_of_fields y mo d h mi s (ms * millisecond)) = wire_text y mo d h mi s ms"
proof -
  note clock = millis_clock [OF assms(2-4)]
  show ?thesis
    using clock_fields [OF clock] second_pos
    by (simp add: format_wire_def format_date_def Let_def wire_text_def
        time_of_fields_split [OF clock] civil_of_days_of_civil [OF assms(1)])
qed

lemma eat_clock_text:
  assumes "valid_clock h mi s 0"
  shows "eat_clock (pad_int 2 h @ CHR '':'' # pad_int 2 mi @ CHR '':'' # pad_int 2 s @ r) = Some ((h, mi, s), r)"
proof -
  have "0 \<le> h" "h < 10 ^ 2" "0 \<le> mi" "mi < 10 ^ 2" "0 \<le> s" "s < 10 ^ 2" "h < 24" "mi < 60" "s < 60"
    using assms by (auto simp: valid_clock_def)
  then show ?thesis
    by (simp add: eat_clock_def eat_hour_def eat_digits_pad)
qed

lemma pad_int_hd_digit:
  assumes "0 \<le> n" and "n < 10 ^ w" and "0 < w"
  shows "\<exists>c r. pad_int w n = c # r \<and> is_digit c"
proof -
  have "length (pad_dec w (nat n)) = w"
    using assms by (intro length_pad_dec) (metis nat_less_numeral_power_cancel_iff)
  then show ?thesis
    using assms pad_dec_digits [of w "nat n"] by (cases "pad_dec w (nat n)") (auto simp: pad_int_def)
qed

lemma eat_millis_text:
  assumes "0 \<le> ms" and "ms < 1000"
  shows "eat_millis (CHR ''.'' # pad_int 3 ms @ s) = Some (ms, s)"
proof -
  obtain c r where c: "pad_int 3 ms = c # r" "is_digit c"
    using pad_int_hd_digit [of ms 3] assms by auto
  moreover have "c \<noteq> CHR ''+''" "c \<noteq> CHR ''-''"
    using c(2) by (auto simp: is_digit_def)
  ultimately show ?thesis
    using eat_digits_pad [of ms 3 s] assms by (simp add: eat_millis_def)
qed

theorem parse_wire_text:
  assumes "valid_date y mo d" and "0 \<le> y" and "y \<le> 9999"
    and "valid_clock h mi s 0" and "0 \<le> ms" and "ms < 1000"
  shows "parse_wire (wire_text y mo d h mi s ms) = Some (time_of_fields y mo d h mi s (ms * millisecond))"
  using assms
  by (simp add: parse_wire_def wire_text_def eat_date_format eat_clock_text eat_millis_text)

lemma length_pad_int: "0 \<le> n \<Longrightarrow> n < 10 ^ w \<Longrightarrow> 0 < w \<Longrightarrow> length (pad_int w n) = w"
  by (simp add: pad_int_def)

lemma length_wire_text:
  assumes "valid_date y mo d" and "0 \<le> y" and "y \<le> 9999"
    and "valid_clock h mi s 0" and "0 \<le> ms" and "ms < 1000"
  shows "length (wire_text y mo d h mi s ms) = 24"
proof -
  have "0 \<le> mo" "mo < 10 ^ 2" "0 \<le> d" "d < 10 ^ 2"
    using assms(1) days_in_month_le [of y mo] by (auto simp: valid_date_def)
  then show ?thesis
    using assms by (simp add: wire_text_def length_pad_int valid_clock_def)
qed

text \<open>The RFC 3339 text of whole seconds in UTC.\<close>

definition rfc3339_text :: "int \<Rightarrow> int \<Rightarrow> int \<Rightarrow> int \<Rightarrow> int \<Rightarrow> int \<Rightarrow> bytes" where
  "rfc3339_text y mo d h mi s =
     pad_int 4 y @ CHR ''-'' # pad_int 2 mo @ CHR ''-'' # pad_int 2 d @ CHR ''T'' #
     pad_int 2 h @ CHR '':'' # pad_int 2 mi @ CHR '':'' # pad_int 2 s @ ''Z''"

lemma parse_rfc3339_text:
  assumes "valid_date y mo d" and "0 \<le> y" and "y \<le> 9999" and "valid_clock h mi s 0"
  shows "parse_rfc3339 (rfc3339_text y mo d h mi s) = Some (time_of_fields y mo d h mi s 0)"
  using assms
  by (simp add: parse_rfc3339_def rfc3339_text_def eat_date_format eat_clock_text eat_fraction_def eat_zone_def)

text \<open>The same for a bare date.\<close>

definition date_text :: "int \<Rightarrow> int \<Rightarrow> int \<Rightarrow> bytes" where
  "date_text y m d = pad_int 4 y @ CHR ''-'' # pad_int 2 m @ CHR ''-'' # pad_int 2 d"

lemma parse_date_text:
  assumes "valid_date y m d" and "0 \<le> y" and "y \<le> 9999"
  shows "parse_date (date_text y m d) = Some (time_of_fields y m d 0 0 0 0)"
  using eat_date_format [OF assms, of "[]"] by (simp add: parse_date_def date_text_def)

lemma format_date_fields:
  assumes "valid_date y m d" and "valid_clock h mi s ns"
  shows "format_date (time_of_fields y m d h mi s ns) = date_text y m d"
  by (simp add: format_date_def date_text_def time_of_fields_split [OF assms(2)]
      civil_of_days_of_civil [OF assms(1)])

lemma length_date_text:
  assumes "valid_date y m d" and "0 \<le> y" and "y \<le> 9999"
  shows "length (date_text y m d) = 10"
proof -
  have "0 \<le> m" "m < 10 ^ 2" "0 \<le> d" "d < 10 ^ 2"
    using assms(1) days_in_month_le [of y m] by (auto simp: valid_date_def)
  then show ?thesis
    using assms by (simp add: date_text_def length_pad_int)
qed

lemma eat_digits_nonneg: "eat_digits n s = Some (v, r) \<Longrightarrow> 0 \<le> v"
  by (auto simp: eat_digits_def split: if_splits)

lemma dec_val_less: "list_all is_digit s \<Longrightarrow> dec_val s < 10 ^ length s"
proof (induction s rule: rev_induct)
  case (snoc c s)
  then have "dec_val s + 1 \<le> 10 ^ length s" "digit_val c < 10"
    by (auto intro: digit_val_less)
  then have "(dec_val s + 1) * 10 \<le> 10 ^ length s * 10"
    by (intro mult_right_mono) auto
  then show ?case
    using \<open>digit_val c < 10\<close> by simp
qed simp

lemma eat_digits_less: "eat_digits n s = Some (v, r) \<Longrightarrow> v < 10 ^ n"
proof -
  assume "eat_digits n s = Some (v, r)"
  then have "v = int (dec_val (take n s))" "list_all is_digit (take n s)" "n \<le> length s"
    by (auto simp: eat_digits_def split: if_splits)
  then show ?thesis
    using dec_val_less [of "take n s"] by (simp add: min_absorb2)
qed

lemma eat_date_year: "eat_date s = Some ((y, m, d), r) \<Longrightarrow> valid_date y m d \<and> 0 \<le> y \<and> y \<le> 9999"
  by (auto simp: eat_date_def split: if_splits bind_splits prod.splits
      dest: eat_digits_nonneg eat_digits_less)


text \<open>"Parse, print again and compare" accepts exactly the texts of the fields in range.\<close>

lemma midnight: "valid_clock 0 0 0 0"
  by (simp add: valid_clock_def duration_defs)

lemma date_canonical_iff:
  "parse_date s = Some t \<and> format_date t = s \<longleftrightarrow>
   (\<exists>y m d. valid_date y m d \<and> 0 \<le> y \<and> y \<le> 9999 \<and> s = date_text y m d \<and> t = time_of_fields y m d 0 0 0 0)"
proof
  assume *: "parse_date s = Some t \<and> format_date t = s"
  then obtain y m d where ymd: "eat_date s = Some ((y, m, d), [])" and t: "t = time_of_fields y m d 0 0 0 0"
    by (auto simp: parse_date_def split: option.splits list.splits)
  then show "\<exists>y m d. valid_date y m d \<and> 0 \<le> y \<and> y \<le> 9999 \<and> s = date_text y m d \<and> t = time_of_fields y m d 0 0 0 0"
    using * eat_date_year [OF ymd] format_date_fields [OF _ midnight, of y m d] by metis
next
  assume "\<exists>y m d. valid_date y m d \<and> 0 \<le> y \<and> y \<le> 9999 \<and> s = date_text y m d \<and> t = time_of_fields y m d 0 0 0 0"
  then show "parse_date s = Some t \<and> format_date t = s"
    using parse_date_text format_date_fields [OF _ midnight] by metis
qed

lemma eat_clock_valid: "eat_clock s = Some ((h, mi, sec), r) \<Longrightarrow> valid_clock h mi sec 0"
  by (auto simp: eat_clock_def eat_hour_def valid_clock_def second_def
      split: if_splits bind_splits prod.splits option.splits dest: eat_digits_nonneg)

lemma eat_millis_bounds: "eat_millis s = Some (n, r) \<Longrightarrow> 0 \<le> n \<and> n < 1000"
  by (auto simp: eat_millis_def split: if_splits list.splits option.splits
      dest: eat_digits_nonneg eat_digits_less)

lemma parse_wire_fields:
  assumes "parse_wire s = Some t"
  obtains y mo d h mi sec ms where "valid_date y mo d" "0 \<le> y" "y \<le> 9999" "valid_clock h mi sec 0"
    "0 \<le> ms" "ms < 1000" "t = time_of_fields y mo d h mi sec (ms * millisecond)"
  using assms
  by (auto simp: parse_wire_def split: if_splits bind_splits prod.splits
      dest!: eat_date_year eat_clock_valid eat_millis_bounds)

theorem wire_canonical_iff:
  "parse_wire s = Some t \<and> format_wire t = s \<longleftrightarrow>
   (\<exists>y mo d h mi sec ms. valid_date y mo d \<and> 0 \<le> y \<and> y \<le> 9999 \<and> valid_clock h mi sec 0 \<and>
      0 \<le> ms \<and> ms < 1000 \<and> s = wire_text y mo d h mi sec ms \<and>
      t = time_of_fields y mo d h mi sec (ms * millisecond))"
  (is "?L \<longleftrightarrow> ?R")
proof
  assume ?L
  then show ?R
    using parse_wire_fields [of s t] format_wire_fields by metis
next
  assume ?R
  then show ?L
    using parse_wire_text format_wire_fields by metis
qed

end
