(* ===== verification/Gate8_Header.thy ===== *)
theory Gate8_Header
  imports Go_Encoding Go_Crypto Go_Time
begin

text \<open>
  The header of the Gate 8 wrapper, \<open>src/pkg/gate8wrapper/header.go\<close>: the derivations of the
  route alias, the day key and the nonce, the canonical additional data and the validators.

  \<open>ParseCanonicalAAD\<close> is not modelled; that the additional data determines the header, which it
  relies on, is proved here.
\<close>

section \<open>Constants and data\<close>

definition SchemaVersion :: uint32 where "SchemaVersion = 1"
definition RouteKeySize :: nat where "RouteKeySize = 32"
definition RouteAliasSize :: nat where "RouteAliasSize = 16"
definition NoncePrefixSize :: nat where "NoncePrefixSize = 4"
definition NonceSize :: nat where "NonceSize = 12"
definition DayKeySize :: nat where "DayKeySize = 32"
definition MaxTopicBytes :: nat where "MaxTopicBytes = 4 * 1024"
definition MaxCanonicalInteger :: uint64 where "MaxCanonicalInteger = 2 ^ 53 - 1"

lemmas gate8_sizes =
  RouteKeySize_def RouteAliasSize_def NoncePrefixSize_def NonceSize_def DayKeySize_def MaxTopicBytes_def

definition routeAliasDomain :: bytes where "routeAliasDomain = ''hytch.push.route-alias.v1'' @ [byte_of 0]"
definition wrapperSaltDomain :: bytes where "wrapperSaltDomain = ''hytch.push.wrapper.salt.v1'' @ [byte_of 0]"
definition wrapperInfoDomain :: bytes where "wrapperInfoDomain = ''hytch.push.wrapper.aes-gcm.v1'' @ [byte_of 0]"

definition EnvironmentDev :: bytes where "EnvironmentDev = ''dev''"
definition EnvironmentProduction :: bytes where "EnvironmentProduction = ''production''"

datatype gate8_error =
    ErrInvalidRouteKey | ErrInvalidTopic | ErrInvalidEnvironment | ErrInvalidDay | ErrInvalidSequence
  | ErrInvalidHeader | ErrInvalidCapability | ErrInvalidPayload | ErrSizeLimit | ErrBudgetRequired
  | ErrPayloadTooLarge | ErrAuthentication | ErrRouteMismatch | ErrReplay | ErrReplayState

record Header =
  h_SchemaVersion :: uint32
  h_Environment :: bytes
  h_AliasDay :: bytes
  h_RouteAlias :: bytes
  h_RouteKeyEpoch :: uint32
  h_NoncePrefix :: bytes
  h_DeliverySequence :: uint64

text \<open>The alias and the prefix are arrays of fixed size.\<close>

definition header_wf :: "Header \<Rightarrow> bool" where
  "header_wf h \<longleftrightarrow> length (h_RouteAlias h) = RouteAliasSize \<and> length (h_NoncePrefix h) = NoncePrefixSize"

section \<open>Validation\<close>

definition UTCDay :: "time \<Rightarrow> bytes" where
  "UTCDay value = format_date value"

definition validateEnvironment :: "bytes \<Rightarrow> gate8_error option" where
  "validateEnvironment environment =
     (if environment = EnvironmentDev \<or> environment = EnvironmentProduction then None else Some ErrInvalidEnvironment)"

definition validateAliasDay :: "bytes \<Rightarrow> gate8_error option" where
  "validateAliasDay aliasDay =
     (if length aliasDay \<noteq> length ''2006-01-02'' then Some ErrInvalidDay
      else (case parse_date aliasDay of
              None \<Rightarrow> Some ErrInvalidDay
            | Some parsed \<Rightarrow> if format_date parsed \<noteq> aliasDay then Some ErrInvalidDay else None))"

definition validateRouteInputs :: "bytes \<Rightarrow> bytes \<Rightarrow> bytes \<Rightarrow> bytes \<Rightarrow> gate8_error option" where
  "validateRouteInputs routeKey topic environment aliasDay =
     (if length routeKey \<noteq> RouteKeySize then Some ErrInvalidRouteKey
      else if length topic = 0 \<or> MaxTopicBytes < length topic then Some ErrInvalidTopic
      else (case validateEnvironment environment of
              Some e \<Rightarrow> Some e
            | None \<Rightarrow> validateAliasDay aliasDay))"

definition header_validate :: "Header \<Rightarrow> gate8_error option" where
  "header_validate h =
     (if h_SchemaVersion h \<noteq> SchemaVersion then Some ErrInvalidHeader
      else if h_RouteKeyEpoch h = 0 then Some ErrInvalidHeader
      else if validateEnvironment (h_Environment h) \<noteq> None then Some ErrInvalidHeader
      else if validateAliasDay (h_AliasDay h) \<noteq> None then Some ErrInvalidHeader
      else if MaxCanonicalInteger < h_DeliverySequence h then Some ErrInvalidHeader
      else None)"

section \<open>Derivations\<close>

definition route_alias_input :: "bytes \<Rightarrow> bytes \<Rightarrow> bytes \<Rightarrow> bytes" where
  "route_alias_input topic environment aliasDay =
     routeAliasDomain @ be_bytes 4 (length topic mod 2 ^ 32) @ topic @ [byte_of 0] @ environment @ [byte_of 0] @ aliasDay"

definition DeriveRouteAlias :: "bytes \<Rightarrow> bytes \<Rightarrow> bytes \<Rightarrow> bytes \<Rightarrow> gate8_error + bytes" where
  "DeriveRouteAlias routeKey topic environment aliasDay =
     unless (validateRouteInputs routeKey topic environment aliasDay)
       (Inr (take RouteAliasSize (hmac_sha256 routeKey (route_alias_input topic environment aliasDay))))"

text \<open>HKDF with one output block: extract under the salt, then expand.\<close>

definition DeriveDayKey :: "bytes \<Rightarrow> bytes \<Rightarrow> bytes \<Rightarrow> bytes \<Rightarrow> uint32 \<Rightarrow> gate8_error + bytes" where
  "DeriveDayKey routeKey environment aliasDay routeAlias routeKeyEpoch =
     (if length routeKey \<noteq> RouteKeySize then Inl ErrInvalidRouteKey
      else unless (validateEnvironment environment) (unless (validateAliasDay aliasDay)
        (if routeKeyEpoch = 0 then Inl ErrInvalidHeader
         else let salt = sha256 (wrapperSaltDomain @ environment @ [byte_of 0] @ aliasDay);
                  info = wrapperInfoDomain @ routeAlias @ be_bytes 4 (unat routeKeyEpoch);
                  pseudorandomKey = hmac_sha256 salt routeKey
              in Inr (hmac_sha256 pseudorandomKey (info @ [byte_of 1])))))"

definition BuildNonce :: "bytes \<Rightarrow> uint64 \<Rightarrow> gate8_error + bytes" where
  "BuildNonce noncePrefix deliverySequence =
     (if MaxCanonicalInteger < deliverySequence then Inl ErrInvalidSequence
      else Inr (noncePrefix @ be_bytes 8 (unat deliverySequence)))"

text \<open>The quotes of the JSON text are bytes 34.\<close>

abbreviation quote :: bytes where "quote \<equiv> [CHR 0x22]"

definition json_member :: "bytes \<Rightarrow> bytes" where
  "json_member name = quote @ name @ quote @ '':''"

definition canonical_header :: "Header \<Rightarrow> bytes" where
  "canonical_header h =
     ''{'' @ json_member ''alias_day'' @ quote @ h_AliasDay h @ quote @ '','' @
     json_member ''delivery_sequence'' @ dec (unat (h_DeliverySequence h)) @ '','' @
     json_member ''environment'' @ quote @ h_Environment h @ quote @ '','' @
     json_member ''nonce_prefix'' @ quote @ hex_encode (h_NoncePrefix h) @ quote @ '','' @
     json_member ''route_alias'' @ quote @ hex_encode (h_RouteAlias h) @ quote @ '','' @
     json_member ''route_key_epoch'' @ dec (unat (h_RouteKeyEpoch h)) @ '','' @
     json_member ''schema_version'' @ dec (unat (h_SchemaVersion h)) @ ''}''"

definition CanonicalAAD :: "Header \<Rightarrow> gate8_error + bytes" where
  "CanonicalAAD h = unless (header_validate h) (Inr (canonical_header h))"

section \<open>What the validators accept\<close>

lemma validateEnvironment_iff:
  "validateEnvironment e = None \<longleftrightarrow> e = EnvironmentDev \<or> e = EnvironmentProduction"
  by (simp add: validateEnvironment_def)

lemma validateAliasDay_iff:
  "validateAliasDay s = None \<longleftrightarrow> (\<exists>y m d. valid_date y m d \<and> 0 \<le> y \<and> y \<le> 9999 \<and> s = date_text y m d)"
proof
  assume "validateAliasDay s = None"
  then obtain t where "parse_date s = Some t \<and> format_date t = s"
    by (auto simp: validateAliasDay_def split: if_splits option.splits)
  then show "\<exists>y m d. valid_date y m d \<and> 0 \<le> y \<and> y \<le> 9999 \<and> s = date_text y m d"
    unfolding date_canonical_iff by blast
next
  assume "\<exists>y m d. valid_date y m d \<and> 0 \<le> y \<and> y \<le> 9999 \<and> s = date_text y m d"
  then obtain y m d where ymd: "valid_date y m d" "0 \<le> y" "y \<le> 9999" and s: "s = date_text y m d"
    by blast
  then have "parse_date s = Some (time_of_fields y m d 0 0 0 0) \<and> format_date (time_of_fields y m d 0 0 0 0) = s"
    unfolding date_canonical_iff by blast
  then show "validateAliasDay s = None"
    using length_date_text [OF ymd] by (simp add: validateAliasDay_def s)
qed

lemma validateAliasDay_length: "validateAliasDay s = None \<Longrightarrow> length s = 10"
  by (simp add: validateAliasDay_def split: if_splits)

lemma validateRouteInputs_iff:
  "validateRouteInputs k t e d = None \<longleftrightarrow>
   length k = RouteKeySize \<and> t \<noteq> [] \<and> length t \<le> MaxTopicBytes \<and>
   validateEnvironment e = None \<and> validateAliasDay d = None"
  by (auto simp: validateRouteInputs_def split: option.splits)

lemma header_validate_iff:
  "header_validate h = None \<longleftrightarrow>
   h_SchemaVersion h = SchemaVersion \<and> h_RouteKeyEpoch h \<noteq> 0 \<and> validateEnvironment (h_Environment h) = None \<and>
   validateAliasDay (h_AliasDay h) = None \<and> h_DeliverySequence h \<le> MaxCanonicalInteger"
  by (auto simp: header_validate_def not_less)

lemma DeriveRouteAlias_length: "DeriveRouteAlias k t e d = Inr a \<Longrightarrow> length a = RouteAliasSize"
  by (auto simp: DeriveRouteAlias_def result_iff RouteAliasSize_def)

lemma DeriveDayKey_length: "DeriveDayKey k e d a n = Inr key \<Longrightarrow> length key = DayKeySize"
  by (auto simp: DeriveDayKey_def result_iff Let_def DayKeySize_def split: if_splits)

lemma DeriveDayKey_ok:
  "length k = RouteKeySize \<Longrightarrow> validateEnvironment e = None \<Longrightarrow> validateAliasDay d = None \<Longrightarrow> n \<noteq> 0 \<Longrightarrow>
   \<exists>key. DeriveDayKey k e d a n = Inr key"
  by (simp add: DeriveDayKey_def Let_def)

section \<open>The inputs of the derivations are unambiguous\<close>

lemma environment_delimited:
  "validateEnvironment e = None \<Longrightarrow> validateEnvironment f = None \<Longrightarrow>
   c \<notin> set EnvironmentDev \<union> set EnvironmentProduction \<Longrightarrow>
   e @ c # s = f @ c # t \<longleftrightarrow> e = f \<and> s = t"
  by (auto simp: validateEnvironment_iff EnvironmentDev_def EnvironmentProduction_def)

lemma canonical_header_inj:
  assumes "header_wf h" and "header_wf g" and "header_validate h = None" and "header_validate g = None"
    and eq: "canonical_header h = canonical_header g"
  shows "h = g"
proof -
  note wf = assms(1-4) [unfolded header_wf_def header_validate_iff gate8_sizes]
  have day: "length (h_AliasDay h) = 10" "length (h_AliasDay g) = 10"
    using wf validateAliasDay_length by metis+
  have nd: "\<not> is_digit (CHR '','')"
    by (simp add: is_digit_def)
  have q: "CHR 0x22 \<notin> set EnvironmentDev \<union> set EnvironmentProduction"
    by (simp add: EnvironmentDev_def EnvironmentProduction_def)
  note env = environment_delimited [OF _ _ q, of "h_Environment h" "h_Environment g"]
  have "h_AliasDay h = h_AliasDay g \<and> h_DeliverySequence h = h_DeliverySequence g \<and>
      h_Environment h = h_Environment g \<and> h_NoncePrefix h = h_NoncePrefix g \<and>
      h_RouteAlias h = h_RouteAlias g \<and> h_RouteKeyEpoch h = h_RouteKeyEpoch g"
    using eq wf day
    by (simp add: canonical_header_def json_member_def dec_delimited [OF nd nd] env word_unat_eq_iff)
  moreover have "h_SchemaVersion h = h_SchemaVersion g"
    using wf by simp
  ultimately show ?thesis
    by simp
qed

lemma BuildNonce_inj:
  assumes "BuildNonce p m = Inr n" and "BuildNonce q k = Inr n" and "length p = length q"
  shows "p = q \<and> m = k"
proof -
  have "unat w < 256 ^ 8" for w :: uint64
    using unsigned_less [of w] by simp
  then show ?thesis
    using assms be_bytes_inj [of "unat m" 8 "unat k"]
    by (auto simp: BuildNonce_def word_unat_eq_iff split: if_splits)
qed

lemma route_alias_input_inj:
  assumes "validateRouteInputs k t e d = None" and "validateRouteInputs k' t' e' d' = None"
    and eq: "route_alias_input t e d = route_alias_input t' e' d'"
  shows "t = t' \<and> e = e' \<and> d = d'"
proof -
  have len: "length t < 256 ^ 4" "length t' < 256 ^ 4"
    using assms(1,2) by (simp_all add: validateRouteInputs_iff MaxTopicBytes_def)
  have q: "byte_of 0 \<notin> set EnvironmentDev \<union> set EnvironmentProduction"
    by code_simp
  have "len_field 4 t @ byte_of 0 # e @ byte_of 0 # d = len_field 4 t' @ byte_of 0 # e' @ byte_of 0 # d'"
    using eq len by (simp add: route_alias_input_def len_field_def)
  then have "t = t' \<and> e @ byte_of 0 # d = e' @ byte_of 0 # d'"
    using len_code.prefix_free [OF len] by blast
  then show ?thesis
    using assms(1,2) environment_delimited [OF _ _ q] by (simp add: validateRouteInputs_iff)
qed

text \<open>A day for the witnesses of the wrapper's properties.\<close>

lemma validateAliasDay_example: "validateAliasDay ''2026-02-28'' = None"
proof -
  have "date_text 2026 2 28 = ''2026-02-28''"
    by (simp add: date_text_def pad_int_def pad_dec_def dec.simps digit_char_def) code_simp
  moreover have "valid_date 2026 2 28"
    by (simp add: valid_date_def days_in_month_def is_leap_def)
  ultimately show ?thesis
    unfolding validateAliasDay_iff by (intro exI [of _ 2026] exI [of _ 2] exI [of _ 28]) simp
qed

end
