(* ===== verification/Gate8_Replay.thy ===== *)
theory Gate8_Replay
  imports Gate8_Header
begin

text \<open>
  Replay protection, \<open>src/pkg/gate8wrapper/replay.go\<close>. The Go interface
  \<open>ReplayProtector\<close> is the locale \<open>replay_protector\<close>: what a wrapper relies on is that a header
  accepted once is spent from then on. The in-memory \<open>ReplayWindow\<close> interprets it.

  The mutex makes every operation atomic; a window is its fields.
\<close>

section \<open>The interface\<close>

text \<open>The headers a sequence of calls accepts.\<close>

fun accepted :: "('r \<Rightarrow> Header \<Rightarrow> 'r \<times> gate8_error option) \<Rightarrow> 'r \<Rightarrow> Header list \<Rightarrow> Header list" where
  "accepted advance r [] = []"
| "accepted advance r (h # hs) = (case advance r h of
     (r', None) \<Rightarrow> h # accepted advance r' hs
   | (r', Some _) \<Rightarrow> accepted advance r' hs)"

locale replay_protector =
  fixes advance :: "'r \<Rightarrow> Header \<Rightarrow> 'r \<times> gate8_error option"
    and spent :: "'r \<Rightarrow> Header \<Rightarrow> bool"
  assumes accept_fresh: "advance r h = (r', None) \<Longrightarrow> \<not> spent r h"
    and accept_spends: "advance r h = (r', None) \<Longrightarrow> spent r' h"
    and spent_mono: "advance r h = (r', e) \<Longrightarrow> spent r k \<Longrightarrow> spent r' k"
begin

lemma spent_not_accepted: "spent r k \<Longrightarrow> k \<notin> set (accepted advance r hs)"
proof (induction hs arbitrary: r)
  case (Cons h hs)
  obtain r' e where step: "advance r h = (r', e)"
    by (cases "advance r h")
  have "e = None \<Longrightarrow> h \<noteq> k"
    using accept_fresh step Cons.prems by blast
  then show ?case
    using Cons.IH [OF spent_mono [OF step Cons.prems]] by (auto simp: step split: option.splits)
qed simp

theorem accepted_distinct: "distinct (accepted advance r hs)"
proof (induction hs arbitrary: r)
  case (Cons h hs)
  obtain r' e where step: "advance r h = (r', e)"
    by (cases "advance r h")
  show ?case
    using Cons.IH [of r'] spent_not_accepted [of r' h hs] accept_spends [of r h r'] step
    by (auto split: option.splits)
qed simp

end

section \<open>The in-memory window\<close>

record ReplayState =
  rs_Environment :: bytes
  rs_AliasDay :: bytes
  rs_RouteAlias :: bytes
  rs_RouteKeyEpoch :: uint32
  rs_NoncePrefix :: bytes
  rs_HighestSequence :: uint64

record ReplayWindow =
  rw_initialized :: bool
  rw_environment :: bytes
  rw_aliasDay :: bytes
  rw_routeAlias :: bytes
  rw_routeEpoch :: uint32
  rw_noncePrefix :: bytes
  rw_highest :: uint64

text \<open>The zero value of the struct.\<close>

definition zeroReplayWindow :: ReplayWindow where
  "zeroReplayWindow = \<lparr>rw_initialized = False, rw_environment = [], rw_aliasDay = [],
     rw_routeAlias = replicate RouteAliasSize (byte_of 0), rw_routeEpoch = 0,
     rw_noncePrefix = replicate NoncePrefixSize (byte_of 0), rw_highest = 0\<rparr>"

definition RestoreReplayWindow :: "ReplayState \<Rightarrow> gate8_error + ReplayWindow" where
  "RestoreReplayWindow state =
     (let header = \<lparr>h_SchemaVersion = SchemaVersion, h_Environment = rs_Environment state,
            h_AliasDay = rs_AliasDay state, h_RouteAlias = rs_RouteAlias state,
            h_RouteKeyEpoch = rs_RouteKeyEpoch state, h_NoncePrefix = rs_NoncePrefix state,
            h_DeliverySequence = rs_HighestSequence state\<rparr>
      in if header_validate header \<noteq> None then Inl ErrReplayState
         else Inr \<lparr>rw_initialized = True, rw_environment = rs_Environment state,
            rw_aliasDay = rs_AliasDay state, rw_routeAlias = rs_RouteAlias state,
            rw_routeEpoch = rs_RouteKeyEpoch state, rw_noncePrefix = rs_NoncePrefix state,
            rw_highest = rs_HighestSequence state\<rparr>)"

definition Snapshot :: "ReplayWindow option \<Rightarrow> ReplayState option" where
  "Snapshot window = (case window of
     None \<Rightarrow> None
   | Some w \<Rightarrow>
       if \<not> rw_initialized w then None
       else Some \<lparr>rs_Environment = rw_environment w, rs_AliasDay = rw_aliasDay w, rs_RouteAlias = rw_routeAlias w,
          rs_RouteKeyEpoch = rw_routeEpoch w, rs_NoncePrefix = rw_noncePrefix w, rs_HighestSequence = rw_highest w\<rparr>)"

text \<open>The receiver may be nil; it then stays nil.\<close>

definition CompareAndAdvanceAuthenticated ::
    "ReplayWindow option \<Rightarrow> Header \<Rightarrow> ReplayWindow option \<times> gate8_error option" where
  "CompareAndAdvanceAuthenticated window header = (case window of
     None \<Rightarrow> (None, Some ErrReplayState)
   | Some w \<Rightarrow>
       if \<not> rw_initialized w then
         (Some \<lparr>rw_initialized = True, rw_environment = h_Environment header, rw_aliasDay = h_AliasDay header,
            rw_routeAlias = h_RouteAlias header, rw_routeEpoch = h_RouteKeyEpoch header,
            rw_noncePrefix = h_NoncePrefix header, rw_highest = h_DeliverySequence header\<rparr>, None)
       else if rw_environment w \<noteq> h_Environment header \<or> rw_aliasDay w \<noteq> h_AliasDay header \<or>
               rw_routeAlias w \<noteq> h_RouteAlias header \<or> rw_routeEpoch w \<noteq> h_RouteKeyEpoch header \<or>
               rw_noncePrefix w \<noteq> h_NoncePrefix header then (window, Some ErrReplayState)
       else if h_DeliverySequence header \<le> rw_highest w then (window, Some ErrReplay)
       else (Some (w\<lparr>rw_highest := h_DeliverySequence header\<rparr>), None))"

definition same_scope :: "ReplayWindow \<Rightarrow> Header \<Rightarrow> bool" where
  "same_scope w h \<longleftrightarrow> rw_environment w = h_Environment h \<and> rw_aliasDay w = h_AliasDay h \<and>
     rw_routeAlias w = h_RouteAlias h \<and> rw_routeEpoch w = h_RouteKeyEpoch h \<and> rw_noncePrefix w = h_NoncePrefix h"

definition window_spent :: "ReplayWindow option \<Rightarrow> Header \<Rightarrow> bool" where
  "window_spent window h = (case window of
     None \<Rightarrow> True
   | Some w \<Rightarrow> rw_initialized w \<and> (\<not> same_scope w h \<or> h_DeliverySequence h \<le> rw_highest w))"

interpretation replay_window: replay_protector CompareAndAdvanceAuthenticated window_spent
  by unfold_locales
    (auto simp: CompareAndAdvanceAuthenticated_def window_spent_def same_scope_def split: option.splits if_splits)

text \<open>A window is a total replay filter: exactly the spent headers are refused.\<close>

lemma window_accepts_iff: "snd (CompareAndAdvanceAuthenticated w h) = None \<longleftrightarrow> \<not> window_spent w h"
  by (auto simp: CompareAndAdvanceAuthenticated_def window_spent_def same_scope_def split: option.splits)

lemma window_refusal_unchanged:
  "CompareAndAdvanceAuthenticated w h = (w', Some e) \<Longrightarrow> w' = w \<and> (e = ErrReplay \<or> e = ErrReplayState)"
  by (auto simp: CompareAndAdvanceAuthenticated_def split: option.splits if_splits)

text \<open>Consecutive accepted headers keep the scope and have increasing sequence numbers.\<close>

definition header_scope :: "Header \<Rightarrow> bytes \<times> bytes \<times> bytes \<times> uint32 \<times> bytes" where
  "header_scope h = (h_Environment h, h_AliasDay h, h_RouteAlias h, h_RouteKeyEpoch h, h_NoncePrefix h)"

lemma initialized_step:
  "rw_initialized w \<Longrightarrow> CompareAndAdvanceAuthenticated (Some w) h =
     (if \<not> same_scope w h then (Some w, Some ErrReplayState)
      else if h_DeliverySequence h \<le> rw_highest w then (Some w, Some ErrReplay)
      else (Some (w\<lparr>rw_highest := h_DeliverySequence h\<rparr>), None))"
  by (auto simp: CompareAndAdvanceAuthenticated_def same_scope_def)

lemma window_after_accept:
  assumes "CompareAndAdvanceAuthenticated window h = (window', None)"
  shows "\<exists>w. window' = Some w \<and> rw_initialized w \<and> same_scope w h \<and> rw_highest w = h_DeliverySequence h"
  using assms by (auto simp: CompareAndAdvanceAuthenticated_def same_scope_def split: option.splits if_splits)

lemma window_accepted_above:
  "rw_initialized w \<Longrightarrow> h \<in> set (accepted CompareAndAdvanceAuthenticated (Some w) hs) \<Longrightarrow>
   same_scope w h \<and> rw_highest w < h_DeliverySequence h"
proof (induction hs arbitrary: w)
  case (Cons g hs)
  let ?w = "w\<lparr>rw_highest := h_DeliverySequence g\<rparr>"
  show ?case
  proof (cases "same_scope w g \<and> rw_highest w < h_DeliverySequence g")
    case True
    then have "h = g \<or> h \<in> set (accepted CompareAndAdvanceAuthenticated (Some ?w) hs)"
      using Cons.prems by (simp add: initialized_step not_le [symmetric] split: prod.splits)
    then show ?thesis
      using Cons.IH [of ?w] Cons.prems(1) True by (auto simp: same_scope_def)
  next
    case False
    then show ?thesis
      using Cons by (auto simp: initialized_step split: if_splits)
  qed
qed simp

lemma window_accepted_sorted:
  "sorted_wrt (\<lambda>h g. header_scope h = header_scope g \<and> h_DeliverySequence h < h_DeliverySequence g)
     (accepted CompareAndAdvanceAuthenticated window hs)"
proof (induction hs arbitrary: window)
  case (Cons h hs)
  obtain window' e where step: "CompareAndAdvanceAuthenticated window h = (window', e)"
    by (cases "CompareAndAdvanceAuthenticated window h")
  have "header_scope h = header_scope g \<and> h_DeliverySequence h < h_DeliverySequence g"
    if none: "e = None" and mem: "g \<in> set (accepted CompareAndAdvanceAuthenticated window' hs)" for g
  proof -
    obtain w where "window' = Some w" "rw_initialized w" "same_scope w h" "rw_highest w = h_DeliverySequence h"
      using window_after_accept step none by blast
    then show ?thesis
      using window_accepted_above [of w g hs] mem by (auto simp: same_scope_def header_scope_def)
  qed
  then show ?case
    using Cons.IH [of window'] by (auto simp: step split: option.splits)
qed simp

section \<open>Snapshots\<close>

text \<open>A window holds the fields of a valid header, or is still the zero value's.\<close>

definition window_ok :: "ReplayWindow \<Rightarrow> bool" where
  "window_ok w \<longleftrightarrow> \<not> rw_initialized w \<or>
     (rw_routeEpoch w \<noteq> 0 \<and> validateEnvironment (rw_environment w) = None \<and>
      validateAliasDay (rw_aliasDay w) = None \<and> rw_highest w \<le> MaxCanonicalInteger)"

lemma zeroReplayWindow_ok: "window_ok zeroReplayWindow"
  by (simp add: window_ok_def zeroReplayWindow_def)

lemma advance_window_ok:
  "CompareAndAdvanceAuthenticated (Some w) h = (Some w', e) \<Longrightarrow> header_validate h = None \<Longrightarrow>
   window_ok w \<Longrightarrow> window_ok w'"
  by (auto simp: CompareAndAdvanceAuthenticated_def window_ok_def header_validate_iff split: if_splits)

lemma restore_snapshot:
  "RestoreReplayWindow s = Inr w \<Longrightarrow> Snapshot (Some w) = Some s \<and> window_ok w"
  by (auto simp: RestoreReplayWindow_def Snapshot_def window_ok_def header_validate_iff Let_def split: if_splits)

lemma snapshot_restore:
  "window_ok w \<Longrightarrow> Snapshot (Some w) = Some s \<Longrightarrow> RestoreReplayWindow s = Inr w"
  by (auto simp: RestoreReplayWindow_def Snapshot_def window_ok_def header_validate_iff Let_def split: if_splits)

section \<open>Properties\<close>

text \<open>
  Whatever headers a \<open>ReplayWindow\<close> is given, and in whatever order, the ones it accepts have
  one scope (environment, day, alias, epoch and nonce prefix) and strictly increasing delivery
  sequences; in particular no header is accepted twice.
\<close>

theorem replay_window_monotone:
  "sorted_wrt (\<lambda>h g. header_scope h = header_scope g \<and> h_DeliverySequence h < h_DeliverySequence g)
     (accepted CompareAndAdvanceAuthenticated window hs) \<and>
   distinct (accepted CompareAndAdvanceAuthenticated window hs)"
  using window_accepted_sorted replay_window.accepted_distinct by blast

text \<open>
  After any sequence of validated headers, restoring the snapshot of a window gives the window
  back, so no delivery sequence that was accepted before is accepted after a restore.
\<close>

theorem snapshot_restore_roundtrip:
  assumes "\<forall>h \<in> set hs. header_validate h = None"
    and "fold (\<lambda>h w. fst (CompareAndAdvanceAuthenticated w h)) hs (Some zeroReplayWindow) = Some w"
    and "Snapshot (Some w) = Some s"
  shows "RestoreReplayWindow s = Inr w"
proof -
  have "window_ok v"
    if "window_ok u" "\<forall>h \<in> set hs. header_validate h = None"
      "fold (\<lambda>h w. fst (CompareAndAdvanceAuthenticated w h)) hs (Some u) = Some v" for u v hs
    using that
  proof (induction hs arbitrary: u)
    case (Cons h hs)
    obtain w' e where step: "CompareAndAdvanceAuthenticated (Some u) h = (w', e)"
      by (cases "CompareAndAdvanceAuthenticated (Some u) h")
    then obtain u' where "w' = Some u'"
      by (auto simp: CompareAndAdvanceAuthenticated_def split: if_splits)
    then show ?case
      using Cons step advance_window_ok [of u h u' e] by simp
  qed simp
  then show ?thesis
    using snapshot_restore zeroReplayWindow_ok assms by blast
qed

definition example_header :: Header where
  "example_header = \<lparr>h_SchemaVersion = 1, h_Environment = ''dev'', h_AliasDay = ''2026-02-28'',
     h_RouteAlias = replicate 16 (CHR ''a''), h_RouteKeyEpoch = 1, h_NoncePrefix = ''1234'', h_DeliverySequence = 9\<rparr>"

lemma example_header_valid: "header_validate example_header = None"
  by (simp add: header_validate_iff example_header_def validateAliasDay_example validateEnvironment_iff
      EnvironmentDev_def SchemaVersion_def MaxCanonicalInteger_def)

theorem snapshot_restore_roundtrip_witness:
  "\<exists>w s. Snapshot (Some w) = Some s \<and> rs_HighestSequence s = 9 \<and> RestoreReplayWindow s = Inr w"
proof -
  let ?run = "fold (\<lambda>h w. fst (CompareAndAdvanceAuthenticated w h)) [example_header] (Some zeroReplayWindow)"
  obtain w s where "?run = Some w" "Snapshot (Some w) = Some s" "rs_HighestSequence s = 9"
    by (simp add: CompareAndAdvanceAuthenticated_def zeroReplayWindow_def Snapshot_def example_header_def)
  with snapshot_restore_roundtrip [of "[example_header]" w s] example_header_valid show ?thesis
    by auto
qed

end
