(* ===== verification/Gate8_Wrapper.thy ===== *)
theory Gate8_Wrapper
  imports Gate8_Replay
begin

text \<open>
  The Gate 8 wrapper, \<open>src/pkg/gate8wrapper/wrapper.go\<close>: the framed plaintext, \<open>Seal\<close> and
  \<open>Open\<close>.

  \<open>Open\<close> takes the replay protector as its two operations (whether the interface holds a nil
  value, and \<open>CompareAndAdvanceAuthenticated\<close>) and threads its state. The size callback of a
  request is a function; the hook of a fallback is a flag that says whether it was called.
\<close>

section \<open>Constants and data\<close>

definition MaxCapabilityBytes :: nat where "MaxCapabilityBytes = 64 * 1024"
definition MaxXMTPCiphertextBytes :: nat where "MaxXMTPCiphertextBytes = 1024 * 1024"
definition MaxPaddingBytes :: nat where "MaxPaddingBytes = 4 * 1024"
definition innerFrameVersion :: char where "innerFrameVersion = byte_of 1"
definition innerFrameFixedBytes :: nat where "innerFrameFixedBytes = 14"
definition gcmTagBytes :: nat where "gcmTagBytes = 16"

lemmas wrapper_sizes = MaxCapabilityBytes_def MaxXMTPCiphertextBytes_def MaxPaddingBytes_def
  innerFrameFixedBytes_def gcmTagBytes_def

type_synonym DeliveryMode = bytes

definition ModeCiphertextInline :: DeliveryMode where "ModeCiphertextInline = ''ciphertext_inline''"
definition ModeForegroundSync :: DeliveryMode where "ModeForegroundSync = ''foreground_sync''"

lemma modes_distinct [simp]: "ModeCiphertextInline \<noteq> ModeForegroundSync" "ModeForegroundSync \<noteq> ModeCiphertextInline"
  by (simp_all add: ModeCiphertextInline_def ModeForegroundSync_def)

record Plaintext =
  pt_Capability :: bytes
  pt_DeliveryMode :: DeliveryMode
  pt_XMTPEnvelope :: bytes
  pt_RandomPadding :: bytes

record Envelope =
  env_Header :: Header
  env_Ciphertext :: bytes

record SizeEstimate =
  se_Mode :: DeliveryMode
  se_HeaderAADBytes :: nat
  se_InnerPlaintextBytes :: nat
  se_SealedCiphertextBytes :: nat
  se_StandardBase64CiphertextBytes :: nat

record SealRequest =
  sq_RouteKey :: bytes
  sq_Topic :: bytes
  sq_Environment :: bytes
  sq_AliasDay :: bytes
  sq_RouteKeyEpoch :: uint32
  sq_NoncePrefix :: bytes
  sq_DeliverySequence :: uint64
  sq_Capability :: bytes
  sq_XMTPEnvelope :: bytes
  sq_InlinePadding :: bytes
  sq_ForegroundPadding :: bytes
  sq_FitsWrapper :: "(SizeEstimate \<Rightarrow> bool) option"
  sq_OnForegroundSync :: bool

record OpenRequest =
  oq_RouteKey :: bytes
  oq_Topic :: bytes
  oq_ExpectedEnvironment :: bytes
  oq_ExpectedAliasDay :: bytes
  oq_ExpectedRouteKeyEpoch :: uint32
  oq_Envelope :: Envelope

section \<open>The inner frame\<close>

definition validatePlaintextParts :: "bytes \<Rightarrow> bytes \<Rightarrow> bytes \<Rightarrow> bool \<Rightarrow> gate8_error option" where
  "validatePlaintextParts capability message padding messageRequired =
     (if length capability = 0 then Some ErrInvalidCapability
      else if MaxCapabilityBytes < length capability \<or> MaxXMTPCiphertextBytes < length message \<or>
              MaxPaddingBytes < length padding then Some ErrSizeLimit
      else if messageRequired \<and> length message = 0 then Some ErrInvalidPayload
      else None)"

text \<open>The lengths are Go ints that were read from slices or from unsigned fields, so never negative.\<close>

definition validatePlaintextLengths :: "DeliveryMode \<Rightarrow> nat \<Rightarrow> nat \<Rightarrow> nat \<Rightarrow> gate8_error option" where
  "validatePlaintextLengths mode capabilityBytes messageBytes paddingBytes =
     (if capabilityBytes \<le> 0 then Some ErrInvalidCapability
      else if MaxCapabilityBytes < capabilityBytes \<or> MaxXMTPCiphertextBytes < messageBytes \<or>
              MaxPaddingBytes < paddingBytes then Some ErrSizeLimit
      else if mode = ModeCiphertextInline then (if messageBytes = 0 then Some ErrInvalidPayload else None)
      else if mode = ModeForegroundSync then (if messageBytes \<noteq> 0 then Some ErrInvalidPayload else None)
      else Some ErrInvalidPayload)"

definition encodeMode :: "DeliveryMode \<Rightarrow> gate8_error + char" where
  "encodeMode mode =
     (if mode = ModeCiphertextInline then Inr (byte_of 1)
      else if mode = ModeForegroundSync then Inr (byte_of 2)
      else Inl ErrInvalidPayload)"

definition decodeMode :: "char \<Rightarrow> gate8_error + DeliveryMode" where
  "decodeMode value =
     (if value = byte_of 1 then Inr ModeCiphertextInline
      else if value = byte_of 2 then Inr ModeForegroundSync
      else Inl ErrInvalidPayload)"

definition encodePlaintext :: "Plaintext \<Rightarrow> gate8_error + bytes" where
  "encodePlaintext plaintext =
     unless (validatePlaintextParts (pt_Capability plaintext) (pt_XMTPEnvelope plaintext) (pt_RandomPadding plaintext)
         (pt_DeliveryMode plaintext = ModeCiphertextInline))
       (if pt_DeliveryMode plaintext = ModeForegroundSync \<and> length (pt_XMTPEnvelope plaintext) \<noteq> 0 then Inl ErrInvalidPayload
        else and_then (encodeMode (pt_DeliveryMode plaintext)) (\<lambda>modeCode.
          Inr (innerFrameVersion # modeCode #
            be_bytes 4 (length (pt_Capability plaintext)) @ be_bytes 4 (length (pt_XMTPEnvelope plaintext)) @
            be_bytes 4 (length (pt_RandomPadding plaintext)) @
            pt_Capability plaintext @ pt_XMTPEnvelope plaintext @ pt_RandomPadding plaintext)))"

definition slice :: "nat \<Rightarrow> nat \<Rightarrow> 'a list \<Rightarrow> 'a list" where
  "slice i j xs = take (j - i) (drop i xs)"

definition decodePlaintext :: "bytes \<Rightarrow> gate8_error + Plaintext" where
  "decodePlaintext encoded =
     (if length encoded < innerFrameFixedBytes \<or> encoded ! 0 \<noteq> innerFrameVersion then Inl ErrInvalidPayload
      else and_then (decodeMode (encoded ! 1)) (\<lambda>mode.
        let capabilityLength = be_val (slice 2 6 encoded);
            messageLength = be_val (slice 6 10 encoded);
            paddingLength = be_val (slice 10 14 encoded)
        in unless (validatePlaintextLengths mode capabilityLength messageLength paddingLength)
          (if innerFrameFixedBytes + capabilityLength + messageLength + paddingLength \<noteq> length encoded
           then Inl ErrInvalidPayload
           else let o1 = innerFrameFixedBytes + capabilityLength; o2 = o1 + messageLength
                in Inr \<lparr>pt_Capability = slice innerFrameFixedBytes o1 encoded, pt_DeliveryMode = mode,
                     pt_XMTPEnvelope = slice o1 o2 encoded, pt_RandomPadding = slice o2 (o2 + paddingLength) encoded\<rparr>)))"

definition estimateSize :: "DeliveryMode \<Rightarrow> nat \<Rightarrow> nat \<Rightarrow> nat \<Rightarrow> nat \<Rightarrow> gate8_error + SizeEstimate" where
  "estimateSize mode aadBytes capabilityBytes messageBytes paddingBytes =
     unless (validatePlaintextLengths mode capabilityBytes messageBytes paddingBytes)
       (let plaintextBytes = innerFrameFixedBytes + capabilityBytes + messageBytes + paddingBytes;
            sealedBytes = plaintextBytes + gcmTagBytes
        in Inr \<lparr>se_Mode = mode, se_HeaderAADBytes = aadBytes, se_InnerPlaintextBytes = plaintextBytes,
             se_SealedCiphertextBytes = sealedBytes,
             se_StandardBase64CiphertextBytes = (sealedBytes + 2) div 3 * 4\<rparr>)"

definition maxSealedCiphertextBytes :: nat where
  "maxSealedCiphertextBytes =
     innerFrameFixedBytes + MaxCapabilityBytes + MaxXMTPCiphertextBytes + MaxPaddingBytes + gcmTagBytes"

text \<open>AES-GCM under a key of a size AES admits.\<close>

definition newGCM :: "bytes \<Rightarrow> bytes option" where
  "newGCM key = (if length key = 16 \<or> length key = 24 \<or> length key = 32 then Some key else None)"

section \<open>Seal\<close>

text \<open>The choice of the mode, the message and the padding, given the length of the additional data.\<close>

definition seal_mode ::
    "SealRequest \<Rightarrow> (SizeEstimate \<Rightarrow> bool) \<Rightarrow> nat \<Rightarrow> gate8_error + (DeliveryMode \<times> bytes \<times> bytes)" where
  "seal_mode request fits aadBytes =
     and_then (estimateSize ModeCiphertextInline aadBytes (length (sq_Capability request))
         (length (sq_XMTPEnvelope request)) (length (sq_InlinePadding request))) (\<lambda>inlineSize.
       if length (sq_XMTPEnvelope request) = 0 \<or> \<not> fits inlineSize then
         and_then (estimateSize ModeForegroundSync aadBytes (length (sq_Capability request)) 0
             (length (sq_ForegroundPadding request))) (\<lambda>foregroundSize.
           if \<not> fits foregroundSize then Inl ErrPayloadTooLarge
           else Inr (ModeForegroundSync, [], sq_ForegroundPadding request))
       else Inr (ModeCiphertextInline, sq_XMTPEnvelope request, sq_InlinePadding request))"

definition seal_header :: "SealRequest \<Rightarrow> bytes \<Rightarrow> Header" where
  "seal_header request alias =
     \<lparr>h_SchemaVersion = SchemaVersion, h_Environment = sq_Environment request, h_AliasDay = sq_AliasDay request,
      h_RouteAlias = alias, h_RouteKeyEpoch = sq_RouteKeyEpoch request, h_NoncePrefix = sq_NoncePrefix request,
      h_DeliverySequence = sq_DeliverySequence request\<rparr>"

text \<open>The envelope, and whether the fallback hook was called.\<close>

definition seal_envelope :: "SealRequest \<Rightarrow> (SizeEstimate \<Rightarrow> bool) \<Rightarrow> gate8_error + (Envelope \<times> bool)" where
  "seal_envelope request fits =
     and_then (DeriveRouteAlias (sq_RouteKey request) (sq_Topic request) (sq_Environment request) (sq_AliasDay request))
     (\<lambda>alias. let header = seal_header request alias in
       and_then (CanonicalAAD header) (\<lambda>aad.
       and_then (seal_mode request fits (length aad)) (\<lambda>(mode, message, padding).
       and_then (encodePlaintext \<lparr>pt_Capability = sq_Capability request, pt_DeliveryMode = mode,
           pt_XMTPEnvelope = message, pt_RandomPadding = padding\<rparr>) (\<lambda>plaintext.
       and_then (DeriveDayKey (sq_RouteKey request) (sq_Environment request) (sq_AliasDay request) alias
           (sq_RouteKeyEpoch request)) (\<lambda>dayKey.
       case newGCM dayKey of
         None \<Rightarrow> Inl ErrAuthentication
       | Some key \<Rightarrow>
           and_then (BuildNonce (sq_NoncePrefix request) (sq_DeliverySequence request)) (\<lambda>nonce.
             let ciphertext = gcm_seal key nonce plaintext aad in
             if maxSealedCiphertextBytes < length ciphertext then Inl ErrSizeLimit
             else Inr (\<lparr>env_Header = header, env_Ciphertext = ciphertext\<rparr>,
                       mode = ModeForegroundSync \<and> sq_OnForegroundSync request)))))))"

definition Seal :: "SealRequest \<Rightarrow> gate8_error + (Envelope \<times> bool)" where
  "Seal request =
     (case sq_FitsWrapper request of
        None \<Rightarrow> Inl ErrBudgetRequired
      | Some fits \<Rightarrow>
          unless (validateRouteInputs (sq_RouteKey request) (sq_Topic request) (sq_Environment request) (sq_AliasDay request))
          (if MaxCanonicalInteger < sq_DeliverySequence request then Inl ErrInvalidSequence
           else unless (validatePlaintextParts (sq_Capability request) (sq_XMTPEnvelope request) (sq_InlinePadding request) False)
             (if MaxPaddingBytes < length (sq_ForegroundPadding request) then Inl ErrSizeLimit
              else seal_envelope request fits)))"

section \<open>Open\<close>

definition replayProtectorUnavailable :: "('r \<Rightarrow> bool) \<Rightarrow> 'r option \<Rightarrow> bool" where
  "replayProtectorUnavailable isNil protector = (case protector of None \<Rightarrow> True | Some r \<Rightarrow> isNil r)"

text \<open>Everything before the replay state is consulted: the authenticated inner frame.\<close>

definition open_authenticated :: "OpenRequest \<Rightarrow> gate8_error + bytes" where
  "open_authenticated request =
     (let header = env_Header (oq_Envelope request); ciphertext = env_Ciphertext (oq_Envelope request) in
      unless (validateRouteInputs (oq_RouteKey request) (oq_Topic request) (h_Environment header) (h_AliasDay header))
      (unless (header_validate header)
      (if oq_ExpectedEnvironment request = [] \<or> oq_ExpectedAliasDay request = [] \<or> oq_ExpectedRouteKeyEpoch request = 0 \<or>
          h_Environment header \<noteq> oq_ExpectedEnvironment request \<or> h_AliasDay header \<noteq> oq_ExpectedAliasDay request \<or>
          h_RouteKeyEpoch header \<noteq> oq_ExpectedRouteKeyEpoch request then Inl ErrRouteMismatch
       else if length ciphertext < gcmTagBytes \<or> maxSealedCiphertextBytes < length ciphertext then Inl ErrSizeLimit
       else and_then (DeriveRouteAlias (oq_RouteKey request) (oq_Topic request) (h_Environment header) (h_AliasDay header))
         (\<lambda>expectedAlias.
         if expectedAlias \<noteq> h_RouteAlias header then Inl ErrRouteMismatch
         else and_then (CanonicalAAD header) (\<lambda>aad.
           and_then (DeriveDayKey (oq_RouteKey request) (h_Environment header) (h_AliasDay header) (h_RouteAlias header)
               (h_RouteKeyEpoch header)) (\<lambda>dayKey.
           case newGCM dayKey of
             None \<Rightarrow> Inl ErrAuthentication
           | Some key \<Rightarrow>
               and_then (BuildNonce (h_NoncePrefix header) (h_DeliverySequence header)) (\<lambda>nonce.
                 case gcm_open key nonce ciphertext aad of
                   None \<Rightarrow> Inl ErrAuthentication
                 | Some opened \<Rightarrow> Inr opened)))))))"

definition Open :: "('r \<Rightarrow> bool) \<Rightarrow> ('r \<Rightarrow> Header \<Rightarrow> 'r \<times> gate8_error option) \<Rightarrow> 'r option \<Rightarrow> OpenRequest \<Rightarrow>
    'r option \<times> (gate8_error + Plaintext)" where
  "Open isNil advance replay request =
     (if replayProtectorUnavailable isNil replay then (replay, Inl ErrReplayState)
      else (case open_authenticated request of
              Inl e \<Rightarrow> (replay, Inl e)
            | Inr opened \<Rightarrow>
                (case advance (the replay) (env_Header (oq_Envelope request)) of
                   (replay', Some e) \<Rightarrow> (Some replay', Inl e)
                 | (replay', None) \<Rightarrow> (Some replay', decodePlaintext opened))))"

section \<open>The frame round trip\<close>

definition plaintext_ok :: "Plaintext \<Rightarrow> bool" where
  "plaintext_ok p \<longleftrightarrow> validatePlaintextLengths (pt_DeliveryMode p) (length (pt_Capability p)) (length (pt_XMTPEnvelope p))
     (length (pt_RandomPadding p)) = None"

lemma slice_append: "length a = i \<Longrightarrow> j = i + length b \<Longrightarrow> slice i j (a @ b @ c) = b"
  by (simp add: slice_def)

lemma byte_of_1_2 [simp]: "byte_of 1 \<noteq> byte_of 2" "byte_of 2 \<noteq> byte_of 1"
  by (code_simp+)

lemma decode_encodeMode: "encodeMode m = Inr c \<Longrightarrow> decodeMode c = Inr m"
  by (auto simp: encodeMode_def decodeMode_def split: if_splits)

lemma encode_decodeMode: "decodeMode c = Inr m \<Longrightarrow> encodeMode m = Inr c"
  by (auto simp: encodeMode_def decodeMode_def split: if_splits)

text \<open>Exactly the plaintexts with admissible lengths are encoded, and how.\<close>

definition frame :: "char \<Rightarrow> bytes \<Rightarrow> bytes \<Rightarrow> bytes \<Rightarrow> bytes" where
  "frame code cap msg pad = innerFrameVersion # code # be_bytes 4 (length cap) @ be_bytes 4 (length msg) @
     be_bytes 4 (length pad) @ cap @ msg @ pad"

lemma encodePlaintext_Inr_iff:
  "encodePlaintext p = Inr b \<longleftrightarrow> plaintext_ok p \<and>
   (\<exists>code. encodeMode (pt_DeliveryMode p) = Inr code \<and>
      b = frame code (pt_Capability p) (pt_XMTPEnvelope p) (pt_RandomPadding p))"
  by (auto simp: encodePlaintext_def plaintext_ok_def validatePlaintextParts_def validatePlaintextLengths_def
      result_iff encodeMode_def frame_def)

lemma length_frame [simp]:
  "length (frame code cap msg pad) = innerFrameFixedBytes + length cap + length msg + length pad"
  by (simp add: frame_def innerFrameFixedBytes_def)

lemma frame_slices:
  "slice 2 6 (frame code cap msg pad) = be_bytes 4 (length cap)"
  "slice 6 10 (frame code cap msg pad) = be_bytes 4 (length msg)"
  "slice 10 14 (frame code cap msg pad) = be_bytes 4 (length pad)"
  "slice 14 (14 + length cap) (frame code cap msg pad) = cap"
  "slice (14 + length cap) (14 + length cap + length msg) (frame code cap msg pad) = msg"
  "slice (14 + length cap + length msg) (14 + length cap + length msg + length pad) (frame code cap msg pad) = pad"
proof -
  let ?v = "[innerFrameVersion, code]" and ?c = "be_bytes 4 (length cap)" and ?m = "be_bytes 4 (length msg)"
    and ?p = "be_bytes 4 (length pad)"
  have f: "frame code cap msg pad = ?v @ ?c @ ?m @ ?p @ cap @ msg @ pad"
    by (simp add: frame_def)
  show "slice 2 6 (frame code cap msg pad) = ?c"
    unfolding f by (rule slice_append) simp_all
  show "slice 6 10 (frame code cap msg pad) = ?m"
    unfolding f using slice_append [of "?v @ ?c" 6 10 ?m] by simp
  show "slice 10 14 (frame code cap msg pad) = ?p"
    unfolding f using slice_append [of "?v @ ?c @ ?m" 10 14 ?p] by simp
  show "slice 14 (14 + length cap) (frame code cap msg pad) = cap"
    unfolding f using slice_append [of "?v @ ?c @ ?m @ ?p" 14 _ cap] by simp
  show "slice (14 + length cap) (14 + length cap + length msg) (frame code cap msg pad) = msg"
    unfolding f using slice_append [of "?v @ ?c @ ?m @ ?p @ cap" "14 + length cap" _ msg pad] by simp
  show "slice (14 + length cap + length msg) (14 + length cap + length msg + length pad) (frame code cap msg pad) = pad"
    unfolding f using slice_append [of "?v @ ?c @ ?m @ ?p @ cap @ msg" "14 + length cap + length msg" _ pad "[]"]
    by simp
qed

lemma validatePlaintextLengths_bounds:
  "validatePlaintextLengths m c x p = None \<Longrightarrow> c < 256 ^ 4 \<and> x < 256 ^ 4 \<and> p < 256 ^ 4"
  by (auto simp: validatePlaintextLengths_def wrapper_sizes split: if_splits)

lemma decode_frame:
  assumes "plaintext_ok p" and "encodeMode (pt_DeliveryMode p) = Inr code"
  shows "decodePlaintext (frame code (pt_Capability p) (pt_XMTPEnvelope p) (pt_RandomPadding p)) = Inr p"
proof -
  let ?f = "frame code (pt_Capability p) (pt_XMTPEnvelope p) (pt_RandomPadding p)"
  have ok: "validatePlaintextLengths (pt_DeliveryMode p) (length (pt_Capability p)) (length (pt_XMTPEnvelope p))
     (length (pt_RandomPadding p)) = None"
    using assms(1) by (simp add: plaintext_ok_def)
  have "?f ! 0 = innerFrameVersion" "?f ! 1 = code"
    by (simp_all add: frame_def)
  then show ?thesis
    using validatePlaintextLengths_bounds [OF ok] ok
    by (simp add: decodePlaintext_def decode_encodeMode [OF assms(2)] Let_def frame_slices innerFrameFixedBytes_def
        be_val_be_bytes)
qed

lemma split_frame:
  assumes "14 \<le> length b" and "b ! 0 = innerFrameVersion"
  shows "b = innerFrameVersion # b ! 1 # slice 2 6 b @ slice 6 10 b @ slice 10 14 b @ drop 14 b"
proof -
  obtain v c r where b: "b = v # c # r"
    using assms(1) by (cases b; cases "tl b") auto
  have "r = take 4 r @ take 4 (drop 4 r) @ take 4 (drop 4 (drop 4 r)) @ drop 4 (drop 4 (drop 4 r))"
    by (simp del: drop_drop)
  then show ?thesis
    using assms(2) by (simp add: b slice_def)
qed

lemma length_slice: "j \<le> length xs \<Longrightarrow> length (slice i j xs) = j - i"
  by (simp add: slice_def)

lemma slices_join: "i \<le> j \<Longrightarrow> j \<le> k \<Longrightarrow> slice i j xs @ slice j k xs = slice i k xs"
  using take_add [of "j - i" "k - j" "drop i xs"] by (simp add: slice_def)

lemma decodePlaintext_Inr:
  assumes "decodePlaintext b = Inr p"
  shows "plaintext_ok p \<and> encodeMode (pt_DeliveryMode p) = Inr (b ! 1) \<and>
    b = frame (b ! 1) (pt_Capability p) (pt_XMTPEnvelope p) (pt_RandomPadding p)"
proof -
  define c m q where cmq: "c = be_val (slice 2 6 b)" "m = be_val (slice 6 10 b)" "q = be_val (slice 10 14 b)"
  have len: "14 + c + m + q = length b" and ver: "b ! 0 = innerFrameVersion"
    and mode: "decodeMode (b ! 1) = Inr (pt_DeliveryMode p)"
    and ok: "validatePlaintextLengths (pt_DeliveryMode p) c m q = None"
    and p: "pt_Capability p = slice 14 (14 + c) b" "pt_XMTPEnvelope p = slice (14 + c) (14 + c + m) b"
      "pt_RandomPadding p = slice (14 + c + m) (14 + c + m + q) b"
    using assms
    by (auto simp: decodePlaintext_def result_iff Let_def innerFrameFixedBytes_def cmq split: if_splits)
  have lens: "length (pt_Capability p) = c" "length (pt_XMTPEnvelope p) = m" "length (pt_RandomPadding p) = q"
    using len by (simp_all add: p length_slice)
  have heads: "be_bytes 4 c = slice 2 6 b" "be_bytes 4 m = slice 6 10 b" "be_bytes 4 q = slice 10 14 b"
    using len by (simp_all add: cmq be_bytes_be_val length_slice)
  have "drop 14 b = slice 14 (length b) b"
    by (simp add: slice_def)
  also have "\<dots> = pt_Capability p @ pt_XMTPEnvelope p @ pt_RandomPadding p"
    using len by (simp add: p slices_join)
  finally have "b = frame (b ! 1) (pt_Capability p) (pt_XMTPEnvelope p) (pt_RandomPadding p)"
    using split_frame [OF _ ver] len by (simp add: frame_def lens heads)
  then show ?thesis
    using ok encode_decodeMode [OF mode] by (simp add: plaintext_ok_def lens)
qed

lemma decode_encode_iff: "decodePlaintext b = Inr p \<longleftrightarrow> encodePlaintext p = Inr b"
  using decodePlaintext_Inr decode_frame encodePlaintext_Inr_iff by metis

lemma encodePlaintext_length:
  "encodePlaintext p = Inr b \<Longrightarrow> length b + gcmTagBytes \<le> maxSealedCiphertextBytes"
  by (auto simp: encodePlaintext_Inr_iff plaintext_ok_def validatePlaintextLengths_def maxSealedCiphertextBytes_def
      split: if_splits)

section \<open>Sealing and opening\<close>

text \<open>What \<open>Seal\<close> checks and produces.\<close>

lemma Seal_Inr:
  assumes "Seal rq = Inr (env, hook)"
  obtains fits ra aad mode message padding plaintext dayKey nonce where
    "sq_FitsWrapper rq = Some fits"
    "validateRouteInputs (sq_RouteKey rq) (sq_Topic rq) (sq_Environment rq) (sq_AliasDay rq) = None"
    "DeriveRouteAlias (sq_RouteKey rq) (sq_Topic rq) (sq_Environment rq) (sq_AliasDay rq) = Inr ra"
    "header_validate (seal_header rq ra) = None"
    "aad = canonical_header (seal_header rq ra)"
    "seal_mode rq fits (length aad) = Inr (mode, message, padding)"
    "encodePlaintext \<lparr>pt_Capability = sq_Capability rq, pt_DeliveryMode = mode,
       pt_XMTPEnvelope = message, pt_RandomPadding = padding\<rparr> = Inr plaintext"
    "DeriveDayKey (sq_RouteKey rq) (sq_Environment rq) (sq_AliasDay rq) ra (sq_RouteKeyEpoch rq) = Inr dayKey"
    "BuildNonce (sq_NoncePrefix rq) (sq_DeliverySequence rq) = Inr nonce"
    "env = \<lparr>env_Header = seal_header rq ra, env_Ciphertext = gcm_seal dayKey nonce plaintext aad\<rparr>"
    "hook = (mode = ModeForegroundSync \<and> sq_OnForegroundSync rq)"
  using assms
  by (simp add: Seal_def seal_envelope_def CanonicalAAD_def newGCM_def Let_def result_iff split_beta
      split: option.splits if_splits, blast?)

definition inline_plaintext :: "SealRequest \<Rightarrow> Plaintext" where
  "inline_plaintext rq = \<lparr>pt_Capability = sq_Capability rq, pt_DeliveryMode = ModeCiphertextInline,
     pt_XMTPEnvelope = sq_XMTPEnvelope rq, pt_RandomPadding = sq_InlinePadding rq\<rparr>"

definition foreground_plaintext :: "SealRequest \<Rightarrow> Plaintext" where
  "foreground_plaintext rq = \<lparr>pt_Capability = sq_Capability rq, pt_DeliveryMode = ModeForegroundSync,
     pt_XMTPEnvelope = [], pt_RandomPadding = sq_ForegroundPadding rq\<rparr>"

lemma inline_needs_message [simp]: "(validatePlaintextLengths ModeCiphertextInline c 0 q = None) = False"
  by (simp add: validatePlaintextLengths_def)

lemma seal_mode_Inr:
  assumes "seal_mode rq fits n = Inr (mode, message, padding)"
  shows "\<exists>est. estimateSize mode n (length (sq_Capability rq)) (length message) (length padding) = Inr est \<and> fits est \<and>
    sq_XMTPEnvelope rq \<noteq> [] \<and>
    (\<lparr>pt_Capability = sq_Capability rq, pt_DeliveryMode = mode, pt_XMTPEnvelope = message, pt_RandomPadding = padding\<rparr> =
       (if mode = ModeForegroundSync then foreground_plaintext rq else inline_plaintext rq))"
  using assms
  by (auto simp: seal_mode_def estimateSize_def result_iff Let_def inline_plaintext_def foreground_plaintext_def
      split: if_splits)

text \<open>The request that opens what was sealed.\<close>

definition open_request :: "SealRequest \<Rightarrow> Envelope \<Rightarrow> OpenRequest" where
  "open_request rq env = \<lparr>oq_RouteKey = sq_RouteKey rq, oq_Topic = sq_Topic rq,
     oq_ExpectedEnvironment = sq_Environment rq, oq_ExpectedAliasDay = sq_AliasDay rq,
     oq_ExpectedRouteKeyEpoch = sq_RouteKeyEpoch rq, oq_Envelope = env\<rparr>"

lemma seal_header_simps [simp]:
  "h_SchemaVersion (seal_header rq a) = SchemaVersion" "h_Environment (seal_header rq a) = sq_Environment rq"
  "h_AliasDay (seal_header rq a) = sq_AliasDay rq" "h_RouteAlias (seal_header rq a) = a"
  "h_RouteKeyEpoch (seal_header rq a) = sq_RouteKeyEpoch rq" "h_NoncePrefix (seal_header rq a) = sq_NoncePrefix rq"
  "h_DeliverySequence (seal_header rq a) = sq_DeliverySequence rq"
  by (simp_all add: seal_header_def)

lemma environment_nonempty: "validateEnvironment e = None \<Longrightarrow> e \<noteq> []"
  by (auto simp: validateEnvironment_iff EnvironmentDev_def EnvironmentProduction_def)

lemma open_authenticated_sealed:
  assumes "Seal rq = Inr (env, hook)"
  shows "\<exists>b. open_authenticated (open_request rq env) = Inr b \<and>
    decodePlaintext b = Inr (if hook \<or> b ! 1 = byte_of 2 then foreground_plaintext rq else inline_plaintext rq)"
  using assms
proof (rule Seal_Inr)
  fix fits ra aad mode message padding plaintext dayKey nonce
  let ?h = "seal_header rq ra"
    and ?p = "\<lparr>pt_Capability = sq_Capability rq, pt_DeliveryMode = mode, pt_XMTPEnvelope = message, pt_RandomPadding = padding\<rparr>"
  assume route: "validateRouteInputs (sq_RouteKey rq) (sq_Topic rq) (sq_Environment rq) (sq_AliasDay rq) = None"
    and ra: "DeriveRouteAlias (sq_RouteKey rq) (sq_Topic rq) (sq_Environment rq) (sq_AliasDay rq) = Inr ra"
    and valid: "header_validate ?h = None" and aad: "aad = canonical_header ?h"
    and mode: "seal_mode rq fits (length aad) = Inr (mode, message, padding)"
    and enc: "encodePlaintext ?p = Inr plaintext"
    and key: "DeriveDayKey (sq_RouteKey rq) (sq_Environment rq) (sq_AliasDay rq) ra (sq_RouteKeyEpoch rq) = Inr dayKey"
    and nonce: "BuildNonce (sq_NoncePrefix rq) (sq_DeliverySequence rq) = Inr nonce"
    and env: "env = \<lparr>env_Header = ?h, env_Ciphertext = gcm_seal dayKey nonce plaintext aad\<rparr>"
    and hook: "hook = (mode = ModeForegroundSync \<and> sq_OnForegroundSync rq)"
  have day: "length dayKey = 32" "sq_AliasDay rq \<noteq> []" "sq_Environment rq \<noteq> []" "sq_RouteKeyEpoch rq \<noteq> 0"
    using DeriveDayKey_length [OF key] valid validateAliasDay_length [of "sq_AliasDay rq"]
      environment_nonempty [of "sq_Environment rq"] by (auto simp: header_validate_iff DayKeySize_def)
  have len: "16 \<le> length (gcm_seal dayKey nonce plaintext aad)"
    "length (gcm_seal dayKey nonce plaintext aad) \<le> maxSealedCiphertextBytes"
    using encodePlaintext_length [OF enc] by (simp_all add: gcm.seal_length gcmTagBytes_def)
  have "open_authenticated (open_request rq env) = Inr plaintext"
    using day len gcm.open_seal [of dayKey nonce plaintext aad]
    by (simp add: open_authenticated_def open_request_def env Let_def route valid ra CanonicalAAD_def key nonce
        newGCM_def gcmTagBytes_def aad)
  moreover have "decodePlaintext plaintext = Inr ?p"
    using enc by (simp add: decode_encode_iff)
  moreover have "plaintext ! 1 = byte_of 2 \<longleftrightarrow> mode = ModeForegroundSync"
    using enc by (auto simp: encodePlaintext_Inr_iff frame_def encodeMode_def split: if_splits)
  ultimately show ?thesis
    using seal_mode_Inr [OF mode] by (auto simp: hook)
qed

text \<open>
  An empty XMTP envelope is refused: the inline estimate fails before the fallback to
  \<open>foreground_sync\<close> is considered, whatever the size callback answers.
\<close>

lemma Seal_empty_envelope: "sq_XMTPEnvelope rq = [] \<Longrightarrow> Seal rq \<noteq> Inr (env, hook)"
proof
  assume "sq_XMTPEnvelope rq = []" and "Seal rq = Inr (env, hook)"
  then show False
    by (auto elim!: Seal_Inr dest!: seal_mode_Inr)
qed

section \<open>Replay\<close>

text \<open>The headers of the requests of a sequence that open successfully.\<close>

fun opened :: "('r \<Rightarrow> bool) \<Rightarrow> ('r \<Rightarrow> Header \<Rightarrow> 'r \<times> gate8_error option) \<Rightarrow> 'r option \<Rightarrow> OpenRequest list \<Rightarrow> Header list" where
  "opened isNil advance replay [] = []"
| "opened isNil advance replay (rq # rqs) = (case Open isNil advance replay rq of
     (replay', Inr p) \<Rightarrow> env_Header (oq_Envelope rq) # opened isNil advance replay' rqs
   | (replay', Inl e) \<Rightarrow> opened isNil advance replay' rqs)"

lemma Open_cases:
  obtains (unchanged) e where "Open isNil advance replay rq = (replay, Inl e)"
  | (refused) r r' b e e' where "replay = Some r" "\<not> isNil r" "open_authenticated rq = Inr b"
      "advance r (env_Header (oq_Envelope rq)) = (r', e)" "Open isNil advance replay rq = (Some r', Inl e')"
  | (opened) r r' b p where "replay = Some r" "\<not> isNil r" "open_authenticated rq = Inr b"
      "advance r (env_Header (oq_Envelope rq)) = (r', None)" "decodePlaintext b = Inr p"
      "Open isNil advance replay rq = (Some r', Inr p)"
proof (cases "replayProtectorUnavailable isNil replay \<or> (\<exists>e. open_authenticated rq = Inl e)")
  case True
  then have "\<exists>e. Open isNil advance replay rq = (replay, Inl e)"
    by (cases "replayProtectorUnavailable isNil replay") (auto simp: Open_def)
  then show ?thesis
    using unchanged by blast
next
  case False
  then obtain r b where r: "replay = Some r" "\<not> isNil r" and b: "open_authenticated rq = Inr b"
    by (auto simp: replayProtectorUnavailable_def split: option.splits) (metis Inr_Inl_False old.sum.exhaust)
  obtain r' e where adv: "advance r (env_Header (oq_Envelope rq)) = (r', e)"
    by (cases "advance r (env_Header (oq_Envelope rq))")
  have op: "Open isNil advance replay rq = (Some r', case e of Some x \<Rightarrow> Inl x | None \<Rightarrow> decodePlaintext b)"
    using r b adv by (simp add: Open_def replayProtectorUnavailable_def split: option.split)
  show ?thesis
  proof (cases "case e of Some x \<Rightarrow> Inl x | None \<Rightarrow> decodePlaintext b")
    case (Inl x)
    then show ?thesis
      using refused [OF r b adv] op by simp
  next
    case (Inr p)
    then show ?thesis
      using opened [OF r b, of r' p] op adv by (cases e) simp_all
  qed
qed

context replay_protector
begin

lemma spent_not_opened: "spent r k \<Longrightarrow> k \<notin> set (opened isNil advance (Some r) rqs)"
proof (induction rqs arbitrary: r)
  case (Cons rq rqs)
  show ?case
    using Cons.prems
  proof (cases rule: Open_cases [of isNil advance "Some r" rq])
    case (refused r0 r' b e e')
    then show ?thesis
      using Cons.IH [of r'] spent_mono [of r _ r' e k] Cons.prems by auto
  next
    case (opened r0 r' b p)
    then show ?thesis
      using Cons.IH [of r'] spent_mono [of r _ r' None k] accept_fresh [of r _ r'] Cons.prems by auto
  qed (use Cons in auto)
qed simp

lemma opened_distinct: "distinct (opened isNil advance (Some r) rqs)"
proof (induction rqs arbitrary: r)
  case (Cons rq rqs)
  show ?case
  proof (cases rule: Open_cases [of isNil advance "Some r" rq])
    case (opened r0 r' b p)
    then show ?thesis
      using Cons.IH [of r'] spent_not_opened [of r' "env_Header (oq_Envelope rq)" isNil rqs] accept_spends by auto
  qed (use Cons in auto)
qed simp

end

text \<open>What an authenticated frame went through.\<close>

lemma open_authenticated_Inr:
  assumes "open_authenticated rq = Inr b"
  defines "h \<equiv> env_Header (oq_Envelope rq)"
  shows "header_validate h = None \<and> h_Environment h = oq_ExpectedEnvironment rq \<and>
    h_AliasDay h = oq_ExpectedAliasDay rq \<and> h_RouteKeyEpoch h = oq_ExpectedRouteKeyEpoch rq \<and>
    DeriveRouteAlias (oq_RouteKey rq) (oq_Topic rq) (h_Environment h) (h_AliasDay h) = Inr (h_RouteAlias h) \<and>
    (\<exists>key. DeriveDayKey (oq_RouteKey rq) (h_Environment h) (h_AliasDay h) (h_RouteAlias h) (h_RouteKeyEpoch h) = Inr key \<and>
       gcm_open key (h_NoncePrefix h @ be_bytes 8 (unat (h_DeliverySequence h))) (env_Ciphertext (oq_Envelope rq))
         (canonical_header h) = Some b)"
  using assms(1)
  by (auto simp: open_authenticated_def h_def Let_def result_iff CanonicalAAD_def newGCM_def BuildNonce_def
      split: if_splits option.splits)

lemma Seal_header:
  assumes "Seal rq = Inr (env, hook)"
  shows "h_NoncePrefix (env_Header env) = sq_NoncePrefix rq \<and> h_DeliverySequence (env_Header env) = sq_DeliverySequence rq"
  using assms by (rule Seal_Inr) simp

section \<open>When Seal succeeds\<close>

text \<open>The estimate the callback is asked about.\<close>

definition seal_alias :: "SealRequest \<Rightarrow> bytes" where
  "seal_alias rq = take RouteAliasSize
     (hmac_sha256 (sq_RouteKey rq) (route_alias_input (sq_Topic rq) (sq_Environment rq) (sq_AliasDay rq)))"

definition size_of :: "SealRequest \<Rightarrow> Plaintext \<Rightarrow> SizeEstimate" where
  "size_of rq p =
     (let plaintextBytes = innerFrameFixedBytes + length (pt_Capability p) + length (pt_XMTPEnvelope p) + length (pt_RandomPadding p);
          sealedBytes = plaintextBytes + gcmTagBytes
      in \<lparr>se_Mode = pt_DeliveryMode p, se_HeaderAADBytes = length (canonical_header (seal_header rq (seal_alias rq))),
          se_InnerPlaintextBytes = plaintextBytes, se_SealedCiphertextBytes = sealedBytes,
          se_StandardBase64CiphertextBytes = (sealedBytes + 2) div 3 * 4\<rparr>)"

definition seal_inputs_ok :: "SealRequest \<Rightarrow> bool" where
  "seal_inputs_ok rq \<longleftrightarrow>
     length (sq_RouteKey rq) = RouteKeySize \<and> sq_Topic rq \<noteq> [] \<and> length (sq_Topic rq) \<le> MaxTopicBytes \<and>
     validateEnvironment (sq_Environment rq) = None \<and> validateAliasDay (sq_AliasDay rq) = None \<and>
     sq_RouteKeyEpoch rq \<noteq> 0 \<and> sq_DeliverySequence rq \<le> MaxCanonicalInteger \<and>
     sq_Capability rq \<noteq> [] \<and> length (sq_Capability rq) \<le> MaxCapabilityBytes \<and>
     sq_XMTPEnvelope rq \<noteq> [] \<and> length (sq_XMTPEnvelope rq) \<le> MaxXMTPCiphertextBytes \<and>
     length (sq_InlinePadding rq) \<le> MaxPaddingBytes \<and> length (sq_ForegroundPadding rq) \<le> MaxPaddingBytes"

lemma seal_mode_ok:
  assumes "seal_inputs_ok rq" and "n = length (canonical_header (seal_header rq (seal_alias rq)))"
  shows "seal_mode rq fits n =
    (if fits (size_of rq (inline_plaintext rq)) then Inr (ModeCiphertextInline, sq_XMTPEnvelope rq, sq_InlinePadding rq)
     else if fits (size_of rq (foreground_plaintext rq)) then Inr (ModeForegroundSync, [], sq_ForegroundPadding rq)
     else Inl ErrPayloadTooLarge)"
  using assms
  by (simp add: seal_mode_def estimateSize_def validatePlaintextLengths_def seal_inputs_ok_def Let_def size_of_def
      inline_plaintext_def foreground_plaintext_def)

lemma encode_sealed_ok:
  "seal_inputs_ok rq \<Longrightarrow> \<exists>b. encodePlaintext (inline_plaintext rq) = Inr b"
  "seal_inputs_ok rq \<Longrightarrow> \<exists>b. encodePlaintext (foreground_plaintext rq) = Inr b"
  by (simp_all add: encodePlaintext_Inr_iff plaintext_ok_def validatePlaintextLengths_def seal_inputs_ok_def
      inline_plaintext_def foreground_plaintext_def encodeMode_def)

lemma seal_envelope_ok:
  assumes "seal_inputs_ok rq"
    and mode: "seal_mode rq fits (length (canonical_header (seal_header rq (seal_alias rq)))) = Inr (m, msg, pad)"
    and enc: "encodePlaintext \<lparr>pt_Capability = sq_Capability rq, pt_DeliveryMode = m, pt_XMTPEnvelope = msg,
      pt_RandomPadding = pad\<rparr> = Inr b"
  shows "\<exists>r. seal_envelope rq fits = Inr r"
proof -
  have inputs: "validateRouteInputs (sq_RouteKey rq) (sq_Topic rq) (sq_Environment rq) (sq_AliasDay rq) = None"
      "header_validate (seal_header rq a) = None" "sq_DeliverySequence rq \<le> MaxCanonicalInteger" for a
    using assms(1) by (simp_all add: seal_inputs_ok_def validateRouteInputs_iff header_validate_iff)
  obtain key where key: "DeriveDayKey (sq_RouteKey rq) (sq_Environment rq) (sq_AliasDay rq) (seal_alias rq)
      (sq_RouteKeyEpoch rq) = Inr key"
    using DeriveDayKey_ok assms(1) by (metis seal_inputs_ok_def)
  then have "length key = 32"
    using DeriveDayKey_length by (simp add: DayKeySize_def)
  moreover have "\<not> maxSealedCiphertextBytes < length (gcm_seal key n b a)" for n a
    using encodePlaintext_length [OF enc] by (simp add: gcm.seal_length gcmTagBytes_def)
  ultimately show ?thesis
    using inputs key mode enc
    by (simp add: seal_envelope_def DeriveRouteAlias_def CanonicalAAD_def Let_def newGCM_def BuildNonce_def
        seal_alias_def [symmetric])
qed

lemma Seal_inputs:
  assumes "Seal rq = Inr r"
  shows "seal_inputs_ok rq"
proof -
  obtain env hook where "Seal rq = Inr (env, hook)"
    using assms by (cases r) auto
  then have "validatePlaintextParts (sq_Capability rq) (sq_XMTPEnvelope rq) (sq_InlinePadding rq) False = None"
    "length (sq_ForegroundPadding rq) \<le> MaxPaddingBytes"
    by (auto simp: Seal_def result_iff split: option.splits if_splits)
  moreover have "sq_XMTPEnvelope rq \<noteq> []"
    using Seal_empty_envelope \<open>Seal rq = Inr (env, hook)\<close> by blast
  moreover have "validateRouteInputs (sq_RouteKey rq) (sq_Topic rq) (sq_Environment rq) (sq_AliasDay rq) = None \<and>
      (\<exists>a. header_validate (seal_header rq a) = None)"
    using \<open>Seal rq = Inr (env, hook)\<close> by (rule Seal_Inr) blast
  ultimately show ?thesis
    by (auto simp: seal_inputs_ok_def validateRouteInputs_iff header_validate_iff validatePlaintextParts_def
        split: if_splits)
qed

lemma Seal_eq:
  assumes "seal_inputs_ok rq" and "sq_FitsWrapper rq = Some fits"
  shows "Seal rq = seal_envelope rq fits"
  using assms
  by (simp add: Seal_def seal_inputs_ok_def validatePlaintextParts_def validateRouteInputs_iff [THEN iffD2] leD)

section \<open>Properties\<close>

text \<open>
  C2. What \<open>Seal\<close> produces, \<open>Open\<close> opens, for every replay protector that accepts the header:
  the result is the capability with the whole XMTP envelope (inline mode), or the capability alone
  (\<open>foreground_sync\<close>), and the fallback hook was called only in the second case.
\<close>

theorem Open_Seal:
  assumes "Seal rq = Inr (env, hook)"
    and "\<not> isNil r" and "advance r (env_Header env) = (r', None)"
  shows "\<exists>p. Open isNil advance (Some r) (open_request rq env) = (Some r', Inr p) \<and>
     (p = inline_plaintext rq \<and> \<not> hook \<or> p = foreground_plaintext rq)"
proof -
  obtain b where "open_authenticated (open_request rq env) = Inr b"
    and "decodePlaintext b = Inr (if hook \<or> b ! 1 = byte_of 2 then foreground_plaintext rq else inline_plaintext rq)"
    using open_authenticated_sealed [OF assms(1)] by blast
  then show ?thesis
    using assms(2,3) by (auto simp: Open_def replayProtectorUnavailable_def open_request_def)
qed

definition example_seal_request :: SealRequest where
  "example_seal_request = \<lparr>sq_RouteKey = replicate 32 (CHR ''k''), sq_Topic = ''topic'', sq_Environment = ''dev'',
     sq_AliasDay = ''2026-02-28'', sq_RouteKeyEpoch = 1, sq_NoncePrefix = ''1234'', sq_DeliverySequence = 9,
     sq_Capability = ''cap'', sq_XMTPEnvelope = ''message'', sq_InlinePadding = ''pad'', sq_ForegroundPadding = [],
     sq_FitsWrapper = Some (\<lambda>_. True), sq_OnForegroundSync = True\<rparr>"

lemma example_inputs_ok: "seal_inputs_ok example_seal_request"
  by (simp add: seal_inputs_ok_def example_seal_request_def gate8_sizes wrapper_sizes validateEnvironment_iff
      EnvironmentDev_def validateAliasDay_example MaxCanonicalInteger_def)

lemma Seal_succeeds:
  assumes "seal_inputs_ok rq" and "sq_FitsWrapper rq = Some fits"
    and "fits (size_of rq (inline_plaintext rq)) \<or> fits (size_of rq (foreground_plaintext rq))"
  shows "\<exists>r. Seal rq = Inr r"
proof (cases "fits (size_of rq (inline_plaintext rq))")
  case True
  then show ?thesis
    using seal_envelope_ok [OF assms(1)] seal_mode_ok [OF assms(1) refl] encode_sealed_ok(1) [OF assms(1)]
    by (auto simp: Seal_eq [OF assms(1,2)] inline_plaintext_def)
next
  case False
  then show ?thesis
    using seal_envelope_ok [OF assms(1)] seal_mode_ok [OF assms(1) refl] encode_sealed_ok(2) [OF assms(1)] assms(3)
    by (auto simp: Seal_eq [OF assms(1,2)] foreground_plaintext_def)
qed

theorem Open_Seal_witness:
  "\<exists>env hook p. Seal example_seal_request = Inr (env, hook) \<and>
     Open (\<lambda>w. w = None) CompareAndAdvanceAuthenticated (Some (Some zeroReplayWindow)) (open_request example_seal_request env) =
       (Some (fst (CompareAndAdvanceAuthenticated (Some zeroReplayWindow) (env_Header env))), Inr p) \<and>
     pt_Capability p = ''cap''"
proof -
  obtain env hook where seal: "Seal example_seal_request = Inr (env, hook)"
    using Seal_succeeds [OF example_inputs_ok] by (auto simp: example_seal_request_def)
  have "CompareAndAdvanceAuthenticated (Some zeroReplayWindow) (env_Header env) =
      (fst (CompareAndAdvanceAuthenticated (Some zeroReplayWindow) (env_Header env)), None)"
    by (simp add: CompareAndAdvanceAuthenticated_def zeroReplayWindow_def)
  from Open_Seal [where isNil = "\<lambda>w. w = None" and advance = CompareAndAdvanceAuthenticated, OF seal _ this] seal
  show ?thesis
    by (auto simp: inline_plaintext_def foreground_plaintext_def example_seal_request_def)
qed

text \<open>
  C15. \<open>Seal\<close> returns an envelope exactly when the inputs are within their documented bounds (a
  non-empty XMTP envelope among them), the size callback is present, and it accepts the inline or the
  fallback size; the sizes it is asked about are those of the envelope's real parts.
\<close>

theorem Seal_succeeds_iff:
  "(\<exists>env hook. Seal rq = Inr (env, hook)) \<longleftrightarrow>
   seal_inputs_ok rq \<and> (\<exists>fits. sq_FitsWrapper rq = Some fits \<and>
     (fits (size_of rq (inline_plaintext rq)) \<or> fits (size_of rq (foreground_plaintext rq))))"
proof
  assume "\<exists>env hook. Seal rq = Inr (env, hook)"
  then obtain env hook where seal: "Seal rq = Inr (env, hook)"
    by blast
  note ok = Seal_inputs [OF seal]
  obtain fits where fits: "sq_FitsWrapper rq = Some fits"
    using seal by (rule Seal_Inr)
  have "fits (size_of rq (inline_plaintext rq)) \<or> fits (size_of rq (foreground_plaintext rq))"
    using seal seal_mode_ok [OF ok refl, of fits]
    by (auto simp: Seal_eq [OF ok fits] seal_envelope_def DeriveRouteAlias_def CanonicalAAD_def Let_def result_iff
        seal_alias_def [symmetric] split: if_splits)
  then show "seal_inputs_ok rq \<and> (\<exists>fits. sq_FitsWrapper rq = Some fits \<and>
     (fits (size_of rq (inline_plaintext rq)) \<or> fits (size_of rq (foreground_plaintext rq))))"
    using ok fits by blast
qed (auto dest: Seal_succeeds)

text \<open>
  The inner frame is a bijection between the admissible plaintexts and the accepted byte strings:
  \<open>decodePlaintext\<close> accepts a byte string as a plaintext exactly when \<open>encodePlaintext\<close> turns
  that plaintext into it.
\<close>

theorem frame_roundtrip: "decodePlaintext b = Inr p \<longleftrightarrow> encodePlaintext p = Inr b"
  by (rule decode_encode_iff)

text \<open>
  The ciphertext of a sealed envelope has exactly the size the callback accepted, and stays within
  the bound that \<open>Open\<close> enforces.
\<close>

theorem Seal_size:
  assumes "Seal rq = Inr (env, hook)"
  shows "\<exists>fits p. sq_FitsWrapper rq = Some fits \<and> (p = inline_plaintext rq \<or> p = foreground_plaintext rq) \<and>
     fits (size_of rq p) \<and> length (env_Ciphertext env) = se_SealedCiphertextBytes (size_of rq p) \<and>
     length (env_Ciphertext env) \<le> maxSealedCiphertextBytes"
  using assms
proof (rule Seal_Inr)
  fix fits ra aad mode message padding plaintext dayKey nonce
  let ?p = "\<lparr>pt_Capability = sq_Capability rq, pt_DeliveryMode = mode, pt_XMTPEnvelope = message, pt_RandomPadding = padding\<rparr>"
  assume fits: "sq_FitsWrapper rq = Some fits" and enc: "encodePlaintext ?p = Inr plaintext"
    and ra: "DeriveRouteAlias (sq_RouteKey rq) (sq_Topic rq) (sq_Environment rq) (sq_AliasDay rq) = Inr ra"
    and aad: "aad = canonical_header (seal_header rq ra)"
    and mode: "seal_mode rq fits (length aad) = Inr (mode, message, padding)"
    and env: "env = \<lparr>env_Header = seal_header rq ra, env_Ciphertext = gcm_seal dayKey nonce plaintext aad\<rparr>"
  have "ra = seal_alias rq"
    using ra by (auto simp: DeriveRouteAlias_def seal_alias_def result_iff)
  then have "length aad = length (canonical_header (seal_header rq (seal_alias rq)))"
    by (simp add: aad)
  from seal_mode_ok [OF Seal_inputs [OF assms] this, of fits] mode
  have p: "?p = inline_plaintext rq \<or> ?p = foreground_plaintext rq" "fits (size_of rq ?p)"
    by (auto simp: inline_plaintext_def foreground_plaintext_def split: if_splits)
  have "length plaintext = se_InnerPlaintextBytes (size_of rq ?p)"
    using enc by (auto simp: encodePlaintext_Inr_iff size_of_def Let_def)
  then have "length (env_Ciphertext env) = se_SealedCiphertextBytes (size_of rq ?p) \<and>
      length (env_Ciphertext env) \<le> maxSealedCiphertextBytes"
    using encodePlaintext_length [OF enc] by (simp add: env gcm.seal_length gcmTagBytes_def size_of_def Let_def)
  then show ?thesis
    using fits p by blast
qed

theorem Seal_size_witness:
  "\<exists>env hook. Seal example_seal_request = Inr (env, hook) \<and> length (env_Ciphertext env) \<le> maxSealedCiphertextBytes"
proof -
  obtain env hook where "Seal example_seal_request = Inr (env, hook)"
    using Seal_succeeds [OF example_inputs_ok] by (auto simp: example_seal_request_def)
  with Seal_size [OF this] show ?thesis
    by blast
qed

text \<open>
  C16. \<open>Open\<close> touches the replay state only after the envelope authenticated: if the state changes
  or a plaintext is returned, the header is valid, names the expected environment, day and epoch,
  carries the alias derived from the route key and the topic, and AES-GCM opened the ciphertext under
  the day key with the canonical header as additional data.
\<close>

theorem Open_authenticates_first:
  assumes "Open isNil advance replay rq = (replay', result)" and "replay' \<noteq> replay \<or> result = Inr p"
  shows "\<exists>key b. let h = env_Header (oq_Envelope rq) in
     header_validate h = None \<and> h_Environment h = oq_ExpectedEnvironment rq \<and>
     h_AliasDay h = oq_ExpectedAliasDay rq \<and> h_RouteKeyEpoch h = oq_ExpectedRouteKeyEpoch rq \<and>
     DeriveRouteAlias (oq_RouteKey rq) (oq_Topic rq) (h_Environment h) (h_AliasDay h) = Inr (h_RouteAlias h) \<and>
     DeriveDayKey (oq_RouteKey rq) (h_Environment h) (h_AliasDay h) (h_RouteAlias h) (h_RouteKeyEpoch h) = Inr key \<and>
     gcm_open key (h_NoncePrefix h @ be_bytes 8 (unat (h_DeliverySequence h))) (env_Ciphertext (oq_Envelope rq))
       (canonical_header h) = Some b"
proof -
  obtain b where "open_authenticated rq = Inr b"
    using assms by (cases rule: Open_cases [of isNil advance replay rq]) auto
  then show ?thesis
    using open_authenticated_Inr unfolding Let_def by blast
qed

theorem Open_authenticates_first_witness:
  "\<exists>env hook key b. Seal example_seal_request = Inr (env, hook) \<and>
     gcm_open key (''1234'' @ be_bytes 8 9) (env_Ciphertext env) (canonical_header (env_Header env)) = Some b"
proof -
  let ?rq = example_seal_request
  obtain env hook where seal: "Seal ?rq = Inr (env, hook)"
    using Seal_succeeds [OF example_inputs_ok] by (auto simp: example_seal_request_def)
  obtain b p where "open_authenticated (open_request ?rq env) = Inr b" "decodePlaintext b = Inr p"
    using open_authenticated_sealed [OF seal] by blast
  then have "Open (\<lambda>_. False) (\<lambda>r h. (h, None)) (Some (env_Header env)) (open_request ?rq env) = (Some (env_Header env), Inr p)"
    by (simp add: Open_def replayProtectorUnavailable_def open_request_def)
  from Open_authenticates_first [OF this, of p]
  obtain key b where "gcm_open key (h_NoncePrefix (env_Header env) @ be_bytes 8 (unat (h_DeliverySequence (env_Header env))))
      (env_Ciphertext env) (canonical_header (env_Header env)) = Some b"
    unfolding Let_def by (auto simp: open_request_def)
  moreover have "h_NoncePrefix (env_Header env) = ''1234''" "h_DeliverySequence (env_Header env) = 9"
    using Seal_header [OF seal] by (simp_all add: example_seal_request_def)
  ultimately show ?thesis
    using seal by auto
qed

text \<open>
  C7. In any sequence of \<open>Open\<close> calls that share one \<open>ReplayWindow\<close>, no two calls that return a
  plaintext have the same header.
\<close>

theorem Open_never_replays:
  "distinct (opened (\<lambda>w. w = None) CompareAndAdvanceAuthenticated (Some window) rqs)"
  by (rule replay_window.opened_distinct)

text \<open>
  The additional data determines the header, the nonce determines the prefix and the sequence, and
  the input of the alias determines the topic, the environment and the day: two different valid headers
  never authenticate the same bytes, and two different deliveries never share a nonce.
\<close>

theorem derivation_inputs_injective:
  assumes "header_wf h" and "header_wf g"
    and "CanonicalAAD h = Inr a" and "CanonicalAAD g = Inr a'"
    and "BuildNonce (h_NoncePrefix h) (h_DeliverySequence h) = Inr n" and "BuildNonce (h_NoncePrefix g) (h_DeliverySequence g) = Inr n'"
    and "validateRouteInputs k t (h_Environment h) (h_AliasDay h) = None" and "validateRouteInputs k' t' (h_Environment g) (h_AliasDay g) = None"
  shows "(a = a' \<longleftrightarrow> h = g) \<and>
     (n = n' \<longleftrightarrow> h_NoncePrefix h = h_NoncePrefix g \<and> h_DeliverySequence h = h_DeliverySequence g) \<and>
     (route_alias_input t (h_Environment h) (h_AliasDay h) = route_alias_input t' (h_Environment g) (h_AliasDay g) \<longleftrightarrow>
        t = t' \<and> h_Environment h = h_Environment g \<and> h_AliasDay h = h_AliasDay g)"
proof (intro conjI)
  show "a = a' \<longleftrightarrow> h = g"
    using assms(3,4) canonical_header_inj [OF assms(1,2)] by (auto simp: CanonicalAAD_def result_iff)
  show "n = n' \<longleftrightarrow> h_NoncePrefix h = h_NoncePrefix g \<and> h_DeliverySequence h = h_DeliverySequence g"
    using BuildNonce_inj assms(1,2,5,6) by (auto simp: header_wf_def)
  show "route_alias_input t (h_Environment h) (h_AliasDay h) = route_alias_input t' (h_Environment g) (h_AliasDay g) \<longleftrightarrow>
      t = t' \<and> h_Environment h = h_Environment g \<and> h_AliasDay h = h_AliasDay g"
    using route_alias_input_inj [OF assms(7,8)] by auto
qed

theorem derivation_inputs_injective_witness:
  "canonical_header example_header \<noteq> canonical_header (example_header\<lparr>h_DeliverySequence := 10\<rparr>)"
proof -
  let ?h = example_header and ?g = "example_header\<lparr>h_DeliverySequence := 10\<rparr>" and ?k = "replicate 32 (CHR ''k'')"
  have wf: "header_wf ?h" "header_wf ?g"
    by (simp_all add: header_wf_def example_header_def gate8_sizes)
  have seq: "h_DeliverySequence ?h = 9" "h_DeliverySequence ?g = 10"
    by (simp_all add: example_header_def)
  have small: "\<not> MaxCanonicalInteger < 9" "\<not> MaxCanonicalInteger < 10"
    by (simp_all add: MaxCanonicalInteger_def)
  have "header_validate ?g = None"
    using example_header_valid small by (simp add: header_validate_iff)
  then have aad: "CanonicalAAD ?h = Inr (canonical_header ?h)" "CanonicalAAD ?g = Inr (canonical_header ?g)"
    using example_header_valid by (simp_all add: CanonicalAAD_def)
  have nonce: "BuildNonce (h_NoncePrefix ?h) (h_DeliverySequence ?h) = Inr (h_NoncePrefix ?h @ be_bytes 8 9)"
    "BuildNonce (h_NoncePrefix ?g) (h_DeliverySequence ?g) = Inr (h_NoncePrefix ?g @ be_bytes 8 10)"
    using small by (simp_all add: BuildNonce_def seq)
  have route: "validateRouteInputs ?k ''t'' (h_Environment ?h) (h_AliasDay ?h) = None"
    "validateRouteInputs ?k ''t'' (h_Environment ?g) (h_AliasDay ?g) = None"
    using example_header_valid by (simp_all add: validateRouteInputs_iff header_validate_iff gate8_sizes)
  have "?h \<noteq> ?g"
  proof
    assume "?h = ?g"
    then have "(9 :: uint64) = 10"
      using seq by metis
    then show False
      by simp
  qed
  then show ?thesis
    using derivation_inputs_injective [OF wf aad nonce route] by blast
qed

end
