(* ===== verification/A9_State.thy ===== *)
theory A9_State
  imports Go_Encoding Go_Crypto Go_Time "HOL-Library.Word"
begin

text \<open>
  The state machines of the A9 adapter contract, \<open>src/internal/a9conformance/state/state.go\<close>:
  ordered control events with tombstones, watermarks with latched uncertainty, and the atomic
  replacement of an installation's routes. A method with a pointer receiver takes the state and
  returns it with the verdict; a \<open>map[string]bool\<close> is its lookup function.

  The lemmas are the rules the machines are there for: denial wins over every later authorization of
  the same or an older version, sequences advance one by one, accepted events are idempotent,
  uncertainty is never lifted, and a replacement is all or nothing and keeps the routes well formed.
\<close>

section \<open>Verdicts\<close>

record Verdict =
  Terminal :: bytes
  Reason :: bytes

definition TerminalApplied :: bytes where "TerminalApplied = ''APPLIED''"
definition TerminalReplay :: bytes where "TerminalReplay = ''REPLAY''"
definition TerminalEligible :: bytes where "TerminalEligible = ''ELIGIBLE''"
definition TerminalInvalid :: bytes where "TerminalInvalid = ''INVALID''"
definition TerminalInconclusive :: bytes where "TerminalInconclusive = ''INCONCLUSIVE''"
definition TerminalStale :: bytes where "TerminalStale = ''STALE''"
definition TerminalRevoked :: bytes where "TerminalRevoked = ''REVOKED''"

lemmas terminal_defs = TerminalApplied_def TerminalReplay_def TerminalEligible_def TerminalInvalid_def
  TerminalInconclusive_def TerminalStale_def TerminalRevoked_def

lemma terminals_distinct [simp]:
  "TerminalApplied \<noteq> TerminalReplay" "TerminalApplied \<noteq> TerminalEligible" "TerminalApplied \<noteq> TerminalInvalid" "TerminalApplied \<noteq> TerminalInconclusive" "TerminalApplied \<noteq> TerminalStale" "TerminalApplied \<noteq> TerminalRevoked"
  "TerminalReplay \<noteq> TerminalApplied" "TerminalReplay \<noteq> TerminalEligible" "TerminalReplay \<noteq> TerminalInvalid" "TerminalReplay \<noteq> TerminalInconclusive" "TerminalReplay \<noteq> TerminalStale" "TerminalReplay \<noteq> TerminalRevoked"
  "TerminalEligible \<noteq> TerminalApplied" "TerminalEligible \<noteq> TerminalReplay" "TerminalEligible \<noteq> TerminalInvalid" "TerminalEligible \<noteq> TerminalInconclusive" "TerminalEligible \<noteq> TerminalStale" "TerminalEligible \<noteq> TerminalRevoked"
  "TerminalInvalid \<noteq> TerminalApplied" "TerminalInvalid \<noteq> TerminalReplay" "TerminalInvalid \<noteq> TerminalEligible" "TerminalInvalid \<noteq> TerminalInconclusive" "TerminalInvalid \<noteq> TerminalStale" "TerminalInvalid \<noteq> TerminalRevoked"
  "TerminalInconclusive \<noteq> TerminalApplied" "TerminalInconclusive \<noteq> TerminalReplay" "TerminalInconclusive \<noteq> TerminalEligible" "TerminalInconclusive \<noteq> TerminalInvalid" "TerminalInconclusive \<noteq> TerminalStale" "TerminalInconclusive \<noteq> TerminalRevoked"
  "TerminalStale \<noteq> TerminalApplied" "TerminalStale \<noteq> TerminalReplay" "TerminalStale \<noteq> TerminalEligible" "TerminalStale \<noteq> TerminalInvalid" "TerminalStale \<noteq> TerminalInconclusive" "TerminalStale \<noteq> TerminalRevoked"
  "TerminalRevoked \<noteq> TerminalApplied" "TerminalRevoked \<noteq> TerminalReplay" "TerminalRevoked \<noteq> TerminalEligible" "TerminalRevoked \<noteq> TerminalInvalid" "TerminalRevoked \<noteq> TerminalInconclusive" "TerminalRevoked \<noteq> TerminalStale"
  by (simp_all add: terminal_defs)

abbreviation verdict :: "bytes \<Rightarrow> bytes \<Rightarrow> Verdict" where
  "verdict t r \<equiv> \<lparr>Terminal = t, Reason = r\<rparr>"

definition hash :: "bytes \<Rightarrow> bytes" where
  "hash value = hex_encode (sha256 value)"

section \<open>Control events\<close>

record receipt =
  bodyHash :: bytes
  receiptVerdict :: Verdict

record ControlState =
  AppliedSequence :: uint64
  HighestBindingVersion :: uint64
  Uncertain :: bool
  Tombstoned :: bool
  receipts :: "bytes \<rightharpoonup> receipt"

record ControlEvent =
  IdempotencyKey :: bytes
  SignedBody :: bytes
  StreamSequence :: uint64
  ExpectedPreviousSequence :: uint64
  BindingVersion :: uint64
  ExpectedBindingVersion :: uint64
  Action :: bytes

definition zeroControlState :: ControlState where
  "zeroControlState = \<lparr>AppliedSequence = 0, HighestBindingVersion = 0, Uncertain = False, Tombstoned = False,
     receipts = Map.empty\<rparr>"

definition control_fields_ok :: "ControlEvent \<Rightarrow> bool" where
  "control_fields_ok e \<longleftrightarrow>
     \<not> (StreamSequence e = 0 \<or> BindingVersion e = 0 \<or>
        StreamSequence e \<noteq> ExpectedPreviousSequence e + 1 \<or>
        BindingVersion e \<noteq> ExpectedBindingVersion e + 1 \<or>
        (Action e \<noteq> ''UPSERT'' \<and> Action e \<noteq> ''REVOKE''))"

definition ControlState_Apply :: "ControlState \<Rightarrow> ControlEvent \<Rightarrow> ControlState \<times> Verdict" where
  "ControlState_Apply s event =
     (let bh = hash (SignedBody event) in
      case receipts s (IdempotencyKey event) of
        Some prior \<Rightarrow>
          if bodyHash prior = bh then (s, verdict TerminalReplay (Reason (receiptVerdict prior)))
          else (s\<lparr>Uncertain := True\<rparr>, verdict TerminalInconclusive ''IDEMPOTENCY_CONFLICT'')
      | None \<Rightarrow>
          if \<not> control_fields_ok event then (s, verdict TerminalInvalid ''FIELD_DOMAIN'')
          else if Tombstoned s \<and> Action event = ''UPSERT'' \<and> BindingVersion event \<le> HighestBindingVersion s then
            (s, verdict TerminalRevoked ''TOMBSTONE_WINS'')
          else if StreamSequence event \<le> AppliedSequence s then
            (s, verdict TerminalStale ''CONTROL_SEQUENCE_REGRESSION'')
          else if AppliedSequence s + 1 < StreamSequence event then
            (if Action event = ''REVOKE'' \<and> HighestBindingVersion s < BindingVersion event then
               let result = verdict TerminalRevoked ''DENY_APPLIES_AND_UNCERTAINTY_LATCHES''
               in (s\<lparr>Uncertain := True, HighestBindingVersion := BindingVersion event, Tombstoned := True,
                     receipts := (receipts s)(IdempotencyKey event \<mapsto> \<lparr>bodyHash = bh, receiptVerdict = result\<rparr>)\<rparr>, result)
             else (s\<lparr>Uncertain := True\<rparr>, verdict TerminalInconclusive ''CONTROL_GAP''))
          else if ExpectedPreviousSequence event \<noteq> AppliedSequence s \<or>
                  ExpectedBindingVersion event \<noteq> HighestBindingVersion s then
            (s\<lparr>Uncertain := True\<rparr>, verdict TerminalInconclusive ''CONTROL_GAP'')
          else
            (let result = (if Action event = ''REVOKE'' then verdict TerminalRevoked ''AUTHORITY_REVOKED''
                           else verdict TerminalApplied [])
             in (s\<lparr>AppliedSequence := StreamSequence event, HighestBindingVersion := BindingVersion event,
                   Tombstoned := Tombstoned s \<or> Action event = ''REVOKE'',
                   receipts := (receipts s)(IdempotencyKey event \<mapsto> \<lparr>bodyHash = bh, receiptVerdict = result\<rparr>)\<rparr>, result)))"

section \<open>Watermarks\<close>

record WatermarkState =
  ws_SequencerEpoch :: bytes
  ws_AppliedSequences :: "uint64 \<Rightarrow> bool"
  ws_ContiguousSequence :: uint64
  ws_WatermarkSequence :: uint64
  ws_WatermarkHash :: bytes
  ws_Uncertain :: bool
  ws_UncertaintyReason :: bytes

record Watermark =
  wm_SequencerEpoch :: bytes
  wm_WatermarkSequence :: uint64
  wm_CommittedThroughStreamSequence :: uint64
  wm_Status :: bytes
  wm_UncertaintyReason :: bytes
  wm_ExpiresAt :: time
  wm_SignedBody :: bytes

definition latchUncertainty :: "WatermarkState \<Rightarrow> bytes \<Rightarrow> WatermarkState \<times> Verdict" where
  "latchUncertainty s reason =
     (s\<lparr>ws_Uncertain := True, ws_UncertaintyReason := reason\<rparr>, verdict TerminalInconclusive reason)"

definition uncertaintyReason :: "WatermarkState \<Rightarrow> bytes" where
  "uncertaintyReason s = (if ws_UncertaintyReason s = [] then ''SOURCE_UNAVAILABLE'' else ws_UncertaintyReason s)"

text \<open>
  The loop counts in 64 bits, so it does not end when \<open>through\<close> is the largest sequence and every
  sequence (0 included) is in the map: the result is then \<open>None\<close>.
\<close>

partial_function (option) containsContiguousFrom :: "(uint64 \<Rightarrow> bool) \<Rightarrow> uint64 \<Rightarrow> uint64 \<Rightarrow> bool option" where
  "containsContiguousFrom applied through sequence =
     (if \<not> sequence \<le> through then Some True
      else if \<not> applied sequence then Some False
      else containsContiguousFrom applied through (sequence + 1))"

definition containsContiguous :: "(uint64 \<Rightarrow> bool) \<Rightarrow> uint64 \<Rightarrow> bool option" where
  "containsContiguous applied through = containsContiguousFrom applied through 1"

definition WatermarkState_Apply :: "WatermarkState \<Rightarrow> Watermark \<Rightarrow> time \<Rightarrow> (WatermarkState \<times> Verdict) option" where
  "WatermarkState_Apply s mark now =
     (let bh = hash (wm_SignedBody mark) in
      if wm_Status mark \<noteq> ''CURRENT'' \<and> wm_Status mark \<noteq> ''UNCERTAIN'' then
        Some (s, verdict TerminalInvalid ''FIELD_DOMAIN'')
      else if wm_Status mark = ''CURRENT'' \<and> wm_UncertaintyReason mark \<noteq> ''NONE'' then
        Some (s, verdict TerminalInvalid ''FIELD_DOMAIN'')
      else if wm_Status mark = ''UNCERTAIN'' \<and> (wm_UncertaintyReason mark = [] \<or> wm_UncertaintyReason mark = ''NONE'') then
        Some (s, verdict TerminalInvalid ''FIELD_DOMAIN'')
      else if wm_SequencerEpoch mark \<noteq> ws_SequencerEpoch s then Some (latchUncertainty s ''EPOCH_MISMATCH'')
      else if \<not> now < wm_ExpiresAt mark then Some (latchUncertainty s ''WATERMARK_EXPIRED'')
      else if wm_WatermarkSequence mark < ws_WatermarkSequence s then Some (latchUncertainty s ''WATERMARK_ROLLBACK'')
      else if wm_WatermarkSequence mark = ws_WatermarkSequence s then
        (if bh = ws_WatermarkHash s then
           (if ws_Uncertain s then Some (s, verdict TerminalInconclusive (uncertaintyReason s))
            else Some (s, verdict TerminalReplay []))
         else Some (latchUncertainty s ''WATERMARK_ROLLBACK''))
      else if ws_WatermarkSequence s \<noteq> 0 \<and> wm_WatermarkSequence mark \<noteq> ws_WatermarkSequence s + 1 then
        Some (latchUncertainty s ''WATERMARK_GAP'')
      else if wm_Status mark = ''UNCERTAIN'' then
        Some (latchUncertainty (s\<lparr>ws_WatermarkSequence := wm_WatermarkSequence mark, ws_WatermarkHash := bh\<rparr>)
          (wm_UncertaintyReason mark))
      else if ws_Uncertain s then Some (s, verdict TerminalInconclusive (uncertaintyReason s))
      else if ws_ContiguousSequence s < wm_CommittedThroughStreamSequence mark then
        Some (latchUncertainty s ''WATERMARK_GAP'')
      else (case containsContiguous (ws_AppliedSequences s) (wm_CommittedThroughStreamSequence mark) of
              None \<Rightarrow> None
            | Some False \<Rightarrow> Some (latchUncertainty s ''WATERMARK_GAP'')
            | Some True \<Rightarrow>
                Some (s\<lparr>ws_WatermarkSequence := wm_WatermarkSequence mark, ws_WatermarkHash := bh\<rparr>,
                  verdict TerminalApplied [])))"

section \<open>The vault's routes\<close>

record Route =
  rt_TopicBinding :: bytes
  rt_TopicKeyEpoch :: uint64
  rt_RouteKeyEpoch :: uint64
  rt_BindingID :: bytes
  rt_HMACPeriods :: "uint64 list"

record VaultState =
  vs_InstallationBindingID :: bytes
  vs_SubscriptionGeneration :: uint64
  vs_SequencerEpoch :: bytes
  vs_Routes :: "Route list"
  vs_TombstonedBindings :: "bytes \<Rightarrow> bool"

text \<open>\<open>FailAfterValidatingEntry\<close> is a pointer to an index; an index that no entry has never fails.\<close>

record ReplaceRequest =
  rr_InstallationBindingID :: bytes
  rr_SequencerEpoch :: bytes
  rr_ExpectedSubscriptionGeneration :: uint64
  rr_SubscriptionGeneration :: uint64
  rr_Routes :: "Route list"
  rr_FailAfterValidatingEntry :: "int64 option"
  rr_CommitAmbiguous :: bool
  rr_ConcurrentRevokedBinding :: bytes

definition uint64Bytes :: "uint64 \<Rightarrow> bytes" where
  "uint64Bytes value = be_bytes 8 (unat value)"

definition routeCASKey :: "bytes \<Rightarrow> Route \<Rightarrow> bytes" where
  "routeCASKey installationBindingID route =
     installationBindingID @ [byte_of 0] @ hex_encode (uint64Bytes (rt_TopicKeyEpoch route)) @ [byte_of 0] @
     rt_TopicBinding route"

definition subscriptionLess :: "Route \<Rightarrow> Route \<Rightarrow> bool" where
  "subscriptionLess left right =
     (case (b64_decode_loose (rt_TopicBinding left), b64_decode_loose (rt_TopicBinding right)) of
        (Some leftTopic, Some rightTopic) \<Rightarrow>
          if leftTopic \<noteq> rightTopic then leftTopic < rightTopic
          else (case (b64_decode_loose (rt_BindingID left), b64_decode_loose (rt_BindingID right)) of
                  (Some leftBinding, Some rightBinding) \<Rightarrow> leftBinding < rightBinding
                | _ \<Rightarrow> rt_BindingID left < rt_BindingID right)
      | _ \<Rightarrow> rt_TopicBinding left < rt_TopicBinding right)"

text \<open>The loop over a route's HMAC periods: every period is larger than the one before.\<close>

fun periods_increasing :: "uint64 list \<Rightarrow> bool" where
  "periods_increasing (a # b # r) \<longleftrightarrow> \<not> b \<le> a \<and> periods_increasing (b # r)"
| "periods_increasing _ \<longleftrightarrow> True"

text \<open>The validation loop, with the keys and bindings seen so far; \<open>None\<close> when it runs to the end.\<close>

fun validate_entries ::
    "VaultState \<Rightarrow> ReplaceRequest \<Rightarrow> nat \<Rightarrow> bytes set \<Rightarrow> bytes set \<Rightarrow> Route list \<Rightarrow> Verdict option" where
  "validate_entries s request index seenCAS seenBindings [] = None"
| "validate_entries s request index seenCAS seenBindings (route # routes) =
     (if rr_ConcurrentRevokedBinding request = rt_BindingID route \<or> vs_TombstonedBindings s (rt_BindingID route) then
        Some (verdict TerminalRevoked ''TOMBSTONE_WINS'')
      else
        let key = routeCASKey (rr_InstallationBindingID request) route in
        if key \<in> seenCAS \<or> rt_BindingID route \<in> seenBindings then
          Some (verdict TerminalInvalid ''DUPLICATE_SUBSCRIPTION'')
        else if \<not> periods_increasing (rt_HMACPeriods route) then
          Some (verdict TerminalInvalid ''HMAC_PERIOD_DUPLICATE'')
        else if (case rr_FailAfterValidatingEntry request of Some i \<Rightarrow> sint i = int index | None \<Rightarrow> False) then
          Some (verdict TerminalInconclusive ''ATOMIC_ROLLBACK_NO_CHANGE'')
        else validate_entries s request (index + 1) (insert key seenCAS) (insert (rt_BindingID route) seenBindings) routes)"

text \<open>\<open>sort.SliceIsSorted\<close>: no element is less than the one before it.\<close>

fun slice_is_sorted :: "('a \<Rightarrow> 'a \<Rightarrow> bool) \<Rightarrow> 'a list \<Rightarrow> bool" where
  "slice_is_sorted lt (a # b # r) \<longleftrightarrow> \<not> lt b a \<and> slice_is_sorted lt (b # r)"
| "slice_is_sorted lt _ \<longleftrightarrow> True"

definition route_key_regression :: "VaultState \<Rightarrow> ReplaceRequest \<Rightarrow> bool" where
  "route_key_regression s request \<longleftrightarrow>
     list_ex (\<lambda>route. list_ex (\<lambda>stored.
       routeCASKey (rr_InstallationBindingID request) route = routeCASKey (rr_InstallationBindingID request) stored \<and>
       rt_RouteKeyEpoch route < rt_RouteKeyEpoch stored) (vs_Routes s)) (rr_Routes request)"

definition Replace :: "VaultState \<Rightarrow> ReplaceRequest \<Rightarrow> VaultState \<times> Verdict" where
  "Replace s request =
     (if rr_InstallationBindingID request \<noteq> vs_InstallationBindingID s \<or> rr_SequencerEpoch request \<noteq> vs_SequencerEpoch s then
        (s, verdict TerminalInvalid ''INSTALLATION_MISMATCH'')
      else if rr_ExpectedSubscriptionGeneration request \<noteq> vs_SubscriptionGeneration s \<or>
              rr_SubscriptionGeneration request \<noteq> vs_SubscriptionGeneration s + 1 then
        (s, verdict TerminalStale ''SUBSCRIPTION_GENERATION'')
      else (case validate_entries s request 0 {} {} (rr_Routes request) of
          Some v \<Rightarrow> (s, v)
        | None \<Rightarrow>
            if \<not> slice_is_sorted subscriptionLess (rr_Routes request) then (s, verdict TerminalInvalid ''SUBSCRIPTION_ORDER'')
            else if route_key_regression s request then (s, verdict TerminalStale ''ROUTE_KEY_EPOCH'')
            else if rr_CommitAmbiguous request then (s, verdict TerminalInconclusive ''VAULT_COMMIT_AMBIGUOUS'')
            else (s\<lparr>vs_Routes := rr_Routes request, vs_SubscriptionGeneration := rr_SubscriptionGeneration request\<rparr>,
                  verdict TerminalApplied [])))"

section \<open>Egress and restart\<close>

record EgressSnapshot =
  Gate6Allowed :: bool
  A9Current :: bool
  WelcomeAuthorized :: bool
  AuthorityAvailable :: bool

definition PreEgress :: "EgressSnapshot \<Rightarrow> Verdict" where
  "PreEgress snapshot =
     (if WelcomeAuthorized snapshot then verdict TerminalInvalid ''WELCOME_CLOSED''
      else if \<not> Gate6Allowed snapshot then verdict TerminalInconclusive ''GATE6_DENY''
      else if \<not> A9Current snapshot \<or> \<not> AuthorityAvailable snapshot then verdict TerminalInconclusive ''A9_NOT_CURRENT''
      else verdict TerminalEligible [])"

definition Restart :: "bool \<Rightarrow> Verdict" where
  "Restart durableAppliedCursorAvailable =
     (if \<not> durableAppliedCursorAvailable then verdict TerminalInconclusive ''REPLICA_AMBIGUITY''
      else verdict TerminalApplied [])"

section \<open>Control events: what a step does\<close>

text \<open>
  The steps of the machine by what they do to the state: nothing, latch uncertainty, deny across a gap,
  or apply the next event in sequence.
\<close>

inductive control_step :: "ControlState \<Rightarrow> ControlEvent \<Rightarrow> ControlState \<Rightarrow> Verdict \<Rightarrow> bool" where
  replay: "receipts s (IdempotencyKey e) = Some r \<Longrightarrow> bodyHash r = hash (SignedBody e) \<Longrightarrow>
    control_step s e s (verdict TerminalReplay (Reason (receiptVerdict r)))"
| refuse: "receipts s (IdempotencyKey e) = None \<Longrightarrow>
    v \<in> {verdict TerminalInvalid ''FIELD_DOMAIN'', verdict TerminalRevoked ''TOMBSTONE_WINS'',
      verdict TerminalStale ''CONTROL_SEQUENCE_REGRESSION''} \<Longrightarrow>
    (Terminal v = TerminalRevoked \<longrightarrow> Action e = ''UPSERT'') \<Longrightarrow> control_step s e s v"
| latch: "v \<in> {verdict TerminalInconclusive ''IDEMPOTENCY_CONFLICT'', verdict TerminalInconclusive ''CONTROL_GAP''} \<Longrightarrow>
    control_step s e (s\<lparr>Uncertain := True\<rparr>) v"
| deny: "receipts s (IdempotencyKey e) = None \<Longrightarrow> control_fields_ok e \<Longrightarrow> Action e = ''REVOKE'' \<Longrightarrow>
    AppliedSequence s + 1 < StreamSequence e \<Longrightarrow> HighestBindingVersion s < BindingVersion e \<Longrightarrow>
    v = verdict TerminalRevoked ''DENY_APPLIES_AND_UNCERTAINTY_LATCHES'' \<Longrightarrow>
    control_step s e (s\<lparr>Uncertain := True, HighestBindingVersion := BindingVersion e, Tombstoned := True,
      receipts := (receipts s)(IdempotencyKey e \<mapsto> \<lparr>bodyHash = hash (SignedBody e), receiptVerdict = v\<rparr>)\<rparr>) v"
| applied: "receipts s (IdempotencyKey e) = None \<Longrightarrow> control_fields_ok e \<Longrightarrow>
    \<not> (Tombstoned s \<and> Action e = ''UPSERT'' \<and> BindingVersion e \<le> HighestBindingVersion s) \<Longrightarrow>
    AppliedSequence s < StreamSequence e \<Longrightarrow>
    ExpectedPreviousSequence e = AppliedSequence s \<Longrightarrow> ExpectedBindingVersion e = HighestBindingVersion s \<Longrightarrow>
    v = (if Action e = ''REVOKE'' then verdict TerminalRevoked ''AUTHORITY_REVOKED'' else verdict TerminalApplied []) \<Longrightarrow>
    control_step s e (s\<lparr>AppliedSequence := StreamSequence e, HighestBindingVersion := BindingVersion e,
      Tombstoned := Tombstoned s \<or> Action e = ''REVOKE'',
      receipts := (receipts s)(IdempotencyKey e \<mapsto> \<lparr>bodyHash = hash (SignedBody e), receiptVerdict = v\<rparr>)\<rparr>) v"

lemma Apply_control_step:
  assumes "ControlState_Apply s e = (s', v)"
  shows "control_step s e s' v"
proof (cases "receipts s (IdempotencyKey e)")
  case (Some r)
  then consider "bodyHash r = hash (SignedBody e)" "s' = s" "v = verdict TerminalReplay (Reason (receiptVerdict r))"
    | "s' = s\<lparr>Uncertain := True\<rparr>" "v = verdict TerminalInconclusive ''IDEMPOTENCY_CONFLICT''"
    using assms by (auto simp: ControlState_Apply_def Let_def split: if_splits)
  then show ?thesis
    using replay [OF Some] latch [of v s e] by cases simp_all
next
  case None
  note Apply = assms [unfolded ControlState_Apply_def Let_def None option.case]
  let ?dead = "Tombstoned s \<and> Action e = ''UPSERT'' \<and> BindingVersion e \<le> HighestBindingVersion s"
    and ?gap = "AppliedSequence s + 1 < StreamSequence e"
    and ?deny = "Action e = ''REVOKE'' \<and> HighestBindingVersion s < BindingVersion e"
    and ?mismatch = "ExpectedPreviousSequence e \<noteq> AppliedSequence s \<or> ExpectedBindingVersion e \<noteq> HighestBindingVersion s"
  show ?thesis
  proof (cases "control_fields_ok e \<and> \<not> ?dead \<and> \<not> StreamSequence e \<le> AppliedSequence s")
    case False
    then have "s' = s \<and> v \<in> {verdict TerminalInvalid ''FIELD_DOMAIN'', verdict TerminalRevoked ''TOMBSTONE_WINS'',
        verdict TerminalStale ''CONTROL_SEQUENCE_REGRESSION''} \<and> (Terminal v = TerminalRevoked \<longrightarrow> Action e = ''UPSERT'')"
      using Apply by (auto simp: terminal_defs split: if_splits)
    then show ?thesis
      using refuse [OF None, of v] by blast
  next
    case True
    note after = Apply [unfolded if_not_P [OF conjunct1 [OF conjunct2 [OF True]]]
        if_not_P [OF conjunct2 [OF conjunct2 [OF True]]]]
    show ?thesis
    proof (cases ?gap)
      case gap: True
      show ?thesis
      proof (cases ?deny)
        case deny: True
        then show ?thesis
          using after True gap control_step.deny [OF None conjunct1 [OF True] conjunct1 [OF deny] gap conjunct2 [OF deny] refl]
          by auto
      next
        case False
        then show ?thesis
          using after True gap latch [of v s e] by (auto split: if_splits)
      qed
    next
      case nogap: False
      show ?thesis
      proof (cases ?mismatch)
        case mismatch: True
        then show ?thesis
          using after True nogap latch [of v s e] by (auto split: if_splits)
      next
        case False
        then show ?thesis
          using after True nogap control_step.applied [OF None conjunct1 [OF True] conjunct1 [OF conjunct2 [OF True]] _ _ _ refl]
          by (simp add: not_le) (elim conjE, hypsubst, assumption)
      qed
    qed
  qed
qed

section \<open>Control events: runs\<close>

fun control_run :: "ControlState \<Rightarrow> ControlEvent list \<Rightarrow> ControlState \<times> Verdict list" where
  "control_run s [] = (s, [])"
| "control_run s (e # es) =
     (case ControlState_Apply s e of (s', v) \<Rightarrow> case control_run s' es of (s'', vs) \<Rightarrow> (s'', v # vs))"

definition control_le :: "ControlState \<Rightarrow> ControlState \<Rightarrow> bool" where
  "control_le s s' \<longleftrightarrow>
     (Tombstoned s \<longrightarrow> Tombstoned s') \<and> (Uncertain s \<longrightarrow> Uncertain s') \<and>
     AppliedSequence s \<le> AppliedSequence s' \<and> HighestBindingVersion s \<le> HighestBindingVersion s' \<and>
     receipts s \<subseteq>\<^sub>m receipts s'"

lemma control_le_refl [simp]: "control_le s s"
  by (simp add: control_le_def)

lemma control_le_trans: "control_le a b \<Longrightarrow> control_le b c \<Longrightarrow> control_le a c"
  unfolding control_le_def by (meson map_le_trans order_trans)

lemma next_version: "control_fields_ok e \<Longrightarrow> ExpectedBindingVersion e < BindingVersion e \<and>
    unat (StreamSequence e) = unat (ExpectedPreviousSequence e) + 1"
proof -
  assume "control_fields_ok e"
  then have "BindingVersion e = ExpectedBindingVersion e + 1" "BindingVersion e \<noteq> 0"
    "StreamSequence e = ExpectedPreviousSequence e + 1" "StreamSequence e \<noteq> 0"
    by (auto simp: control_fields_ok_def)
  moreover have "x + 1 \<noteq> 0 \<Longrightarrow> x < x + 1 \<and> unat (x + 1) = unat x + 1" for x :: uint64
    using unatSuc [of x] by (simp add: word_less_nat_alt add.commute)
  ultimately show ?thesis
    by metis
qed

lemma control_step_le: "control_step s e s' v \<Longrightarrow> control_le s s'"
proof (induction rule: control_step.induct)
  case (deny s e v)
  then show ?case
    by (auto simp: control_le_def map_le_def)
next
  case (applied s e v)
  then show ?case
    using next_version [of e] by (auto simp: control_le_def map_le_def)
qed (auto simp: control_le_def)

lemma control_run_le: "control_run s es = (s', vs) \<Longrightarrow> control_le s s'"
proof (induction es arbitrary: s vs)
  case (Cons e es)
  then obtain t v ws where "ControlState_Apply s e = (t, v)" "control_run t es = (s', ws)"
    by (auto split: prod.splits)
  then show ?case
    using Cons.IH control_step_le [OF Apply_control_step] control_le_trans by blast
qed simp

text \<open>An event is answered with \<open>APPLIED\<close> only when it is the next one and no tombstone covers it.\<close>

lemma applied_step:
  assumes "control_step s e s' v" and "Terminal v = TerminalApplied"
  shows "control_fields_ok e \<and> Action e = ''UPSERT'' \<and> ExpectedBindingVersion e = HighestBindingVersion s \<and>
    ExpectedPreviousSequence e = AppliedSequence s \<and>
    \<not> (Tombstoned s \<and> BindingVersion e \<le> HighestBindingVersion s)"
  using assms
  by (cases rule: control_step.cases) (auto simp: control_fields_ok_def split: if_splits)

lemma revoke_step:
  assumes "control_step s e s' v" and "Action e = ''REVOKE''" and "Terminal v = TerminalRevoked"
  shows "Tombstoned s' \<and> HighestBindingVersion s' = BindingVersion e"
  using assms by (cases rule: control_step.cases) (auto split: if_splits)

text \<open>Which steps write a receipt, and what it holds.\<close>

lemma receipt_step:
  assumes "control_step s e s' v" and "receipts s (IdempotencyKey e) = None" and "receipts s' (IdempotencyKey e) \<noteq> None"
  shows "receipts s' (IdempotencyKey e) = Some \<lparr>bodyHash = hash (SignedBody e), receiptVerdict = v\<rparr>"
  using assms by (cases rule: control_step.cases) auto

definition in_sequence :: "Verdict \<Rightarrow> bool" where
  "in_sequence v \<longleftrightarrow> v = verdict TerminalApplied [] \<or> v = verdict TerminalRevoked ''AUTHORITY_REVOKED''"

lemma cursor_step:
  assumes "control_step s e s' v"
  shows "unat (AppliedSequence s') = unat (AppliedSequence s) + (if in_sequence v then 1 else 0)"
  using assms
proof (cases rule: control_step.cases)
  case applied
  then show ?thesis
    using next_version [of e] by (simp add: in_sequence_def)
qed (auto simp: in_sequence_def terminal_defs)

lemma cursor_run:
  "control_run s es = (s', vs) \<Longrightarrow> unat (AppliedSequence s') = unat (AppliedSequence s) + length (filter in_sequence vs)"
proof (induction es arbitrary: s vs)
  case (Cons e es)
  then obtain t v ws where "ControlState_Apply s e = (t, v)" "control_run t es = (s', ws)" "vs = v # ws"
    by (auto split: prod.splits)
  then show ?case
    using Cons.IH [of t ws] cursor_step [OF Apply_control_step] by simp
qed simp

section \<open>Watermarks: the loop and the latch\<close>

lemma containsContiguousFrom_returns:
  "unat through < 2 ^ 64 - 1 \<Longrightarrow>
   containsContiguousFrom applied through n = Some (\<forall>k. n \<le> k \<and> k \<le> through \<longrightarrow> applied k)"
proof (induction "unat through + 1 - unat n" arbitrary: n rule: less_induct)
  case less
  show ?case
  proof (cases "n \<le> through \<and> applied n")
    case True
    then have "unat n < 2 ^ 64 - 1"
      using less.prems by (simp add: word_le_nat_alt)
    then have succ: "unat (n + 1) = unat n + 1"
      using unat_add_lem [of n 1] by simp
    then have "containsContiguousFrom applied through (n + 1) = Some (\<forall>k. n + 1 \<le> k \<and> k \<le> through \<longrightarrow> applied k)"
      using less.prems True by (intro less.hyps) (auto simp: word_le_nat_alt)
    moreover have "n + 1 \<le> k \<longleftrightarrow> n \<le> k \<and> k \<noteq> n" for k
      using succ by (auto simp: word_le_nat_alt word_unat_eq_iff)
    ultimately show ?thesis
      using True by (subst containsContiguousFrom.simps) (auto)
  next
    case False
    then show ?thesis
      by (subst containsContiguousFrom.simps) (auto)
  qed
qed

lemma containsContiguous_returns:
  "unat through < 2 ^ 64 - 1 \<Longrightarrow>
   containsContiguous applied through = Some (\<forall>k. 1 \<le> k \<and> k \<le> through \<longrightarrow> applied k)"
  by (simp add: containsContiguous_def containsContiguousFrom_returns)

text \<open>A positive answer is right even without the bound: the loop cannot leave the largest sequence behind.\<close>

lemma containsContiguousFrom_True:
  assumes "containsContiguousFrom applied through n = Some b"
  shows "b \<longrightarrow> unat through < 2 ^ 64 - 1"
proof (rule containsContiguousFrom.raw_induct [where P = "\<lambda>_ t _ b. b \<longrightarrow> unat t < 2 ^ 64 - 1", OF _ assms])
  fix rec :: "(uint64 \<Rightarrow> bool) \<Rightarrow> uint64 \<Rightarrow> uint64 \<Rightarrow> bool option" and a t k c
  assume IH: "\<And>a t k c. rec a t k = Some c \<Longrightarrow> c \<longrightarrow> unat t < 2 ^ 64 - 1"
    and step: "(if \<not> k \<le> t then Some True else if \<not> a k then Some False else rec a t (k + 1)) = Some c"
  show "c \<longrightarrow> unat t < 2 ^ 64 - 1"
  proof (cases "k \<le> t")
    case True
    then show ?thesis
      using IH [of a t "k + 1" c] step by (auto split: if_splits)
  next
    case False
    then have "unat t < unat k"
      by (simp add: word_le_nat_alt)
    moreover have "unat k < 2 ^ 64"
      using unsigned_less [of k] by simp
    ultimately show ?thesis
      by simp
  qed
qed

lemma containsContiguous_True:
  "containsContiguous applied through = Some True \<Longrightarrow> 1 \<le> k \<Longrightarrow> k \<le> through \<Longrightarrow> applied k"
  using containsContiguousFrom_True [of applied through 1 True] containsContiguous_returns [of through applied]
  by (simp add: containsContiguous_def)

text \<open>Every mark either leaves the state alone, latches uncertainty, or is the next current mark.\<close>

lemma watermark_uncertain:
  assumes "WatermarkState_Apply s m now = Some (s', v)" and "ws_Uncertain s"
  shows "ws_Uncertain s' \<and> Terminal v \<noteq> TerminalApplied \<and> Terminal v \<noteq> TerminalReplay"
  using assms unfolding WatermarkState_Apply_def Let_def latchUncertainty_def
  by (simp split: if_split_asm option.split_asm bool.split_asm) (elim conjE, hypsubst, simp)+

lemma watermark_applied:
  assumes "WatermarkState_Apply s m now = Some (s', v)" and "Terminal v = TerminalApplied"
  shows "\<not> ws_Uncertain s \<and> s' = s\<lparr>ws_WatermarkSequence := wm_WatermarkSequence m, ws_WatermarkHash := hash (wm_SignedBody m)\<rparr> \<and>
      wm_Status m = ''CURRENT'' \<and> wm_SequencerEpoch m = ws_SequencerEpoch s \<and> now < wm_ExpiresAt m \<and>
      ws_WatermarkSequence s < wm_WatermarkSequence m \<and>
      (ws_WatermarkSequence s = 0 \<or> wm_WatermarkSequence m = ws_WatermarkSequence s + 1) \<and>
      wm_CommittedThroughStreamSequence m \<le> ws_ContiguousSequence s \<and>
      containsContiguous (ws_AppliedSequences s) (wm_CommittedThroughStreamSequence m) = Some True"
proof -
  have seq: "\<not> wm_WatermarkSequence m < ws_WatermarkSequence s \<Longrightarrow> wm_WatermarkSequence m \<noteq> ws_WatermarkSequence s \<Longrightarrow>
      ws_WatermarkSequence s < wm_WatermarkSequence m"
    by simp
  show ?thesis
    using assms seq unfolding WatermarkState_Apply_def Let_def latchUncertainty_def not_less [of "ws_ContiguousSequence s", symmetric]
    by (simp split: if_split_asm option.split_asm bool.split_asm) (elim conjE, hypsubst, simp)+
qed

lemma watermark_sequence_mono:
  assumes "WatermarkState_Apply s m now = Some (s', v)"
  shows "ws_WatermarkSequence s \<le> ws_WatermarkSequence s'"
proof -
  have seq: "\<not> wm_WatermarkSequence m < ws_WatermarkSequence s \<Longrightarrow> ws_WatermarkSequence s \<le> wm_WatermarkSequence m"
    by simp
  show ?thesis
    using assms seq unfolding WatermarkState_Apply_def Let_def latchUncertainty_def
    by (simp split: if_split_asm option.split_asm bool.split_asm) (elim conjE, hypsubst, simp)+
qed

fun watermark_run :: "WatermarkState \<Rightarrow> (Watermark \<times> time) list \<Rightarrow> (WatermarkState \<times> Verdict list) option" where
  "watermark_run s [] = Some (s, [])"
| "watermark_run s ((m, now) # ms) =
     (case WatermarkState_Apply s m now of
        None \<Rightarrow> None
      | Some (s', v) \<Rightarrow> map_option (\<lambda>(s'', vs). (s'', v # vs)) (watermark_run s' ms))"

lemma uncertain_run:
  "watermark_run s ms = Some (s', vs) \<Longrightarrow> ws_Uncertain s \<Longrightarrow>
   ws_Uncertain s' \<and> list_all (\<lambda>v. Terminal v \<noteq> TerminalApplied \<and> Terminal v \<noteq> TerminalReplay) vs"
proof (induction ms arbitrary: s vs)
  case (Cons mn ms)
  obtain m now where mn: "mn = (m, now)"
    by (cases mn)
  with Cons.prems obtain t v ws where step: "WatermarkState_Apply s m now = Some (t, v)"
    and rest: "watermark_run t ms = Some (s', ws)" and vs: "vs = v # ws"
    by (auto split: option.splits)
  have "ws_Uncertain t \<and> Terminal v \<noteq> TerminalApplied \<and> Terminal v \<noteq> TerminalReplay"
    by (rule watermark_uncertain [OF step Cons.prems(2)])
  then show ?case
    using Cons.IH [OF rest] by (simp add: vs)
qed simp

lemma watermark_returns:
  "unat (wm_CommittedThroughStreamSequence m) < 2 ^ 64 - 1 \<Longrightarrow> \<exists>r. WatermarkState_Apply s m now = Some r"
  by (simp add: WatermarkState_Apply_def Let_def containsContiguous_returns split: bool.split)

section \<open>Replacements\<close>

lemma validate_entries_None:
  assumes "validate_entries s rq i C B rs = None"
  shows "distinct (map (routeCASKey (rr_InstallationBindingID rq)) rs) \<and> distinct (map rt_BindingID rs) \<and>
    (\<forall>r \<in> set rs. routeCASKey (rr_InstallationBindingID rq) r \<notin> C \<and> rt_BindingID r \<notin> B \<and>
       \<not> vs_TombstonedBindings s (rt_BindingID r) \<and> rt_BindingID r \<noteq> rr_ConcurrentRevokedBinding rq \<and>
       periods_increasing (rt_HMACPeriods r))"
  using assms
proof (induction rs arbitrary: i C B)
  case (Cons r rs)
  let ?k = "routeCASKey (rr_InstallationBindingID rq) r"
  have ok: "\<not> vs_TombstonedBindings s (rt_BindingID r)" "rt_BindingID r \<noteq> rr_ConcurrentRevokedBinding rq"
    "?k \<notin> C" "rt_BindingID r \<notin> B" "periods_increasing (rt_HMACPeriods r)"
    and rest: "validate_entries s rq (i + 1) (insert ?k C) (insert (rt_BindingID r) B) rs = None"
    using Cons.prems by (auto simp: Let_def split: if_splits)
  then show ?case
    using Cons.IH [OF rest] by auto
qed simp

text \<open>The well-formedness of the published routes.\<close>

definition vault_ok :: "VaultState \<Rightarrow> bool" where
  "vault_ok s \<longleftrightarrow>
     distinct (map (routeCASKey (vs_InstallationBindingID s)) (vs_Routes s)) \<and>
     distinct (map rt_BindingID (vs_Routes s)) \<and>
     list_all (\<lambda>r. \<not> vs_TombstonedBindings s (rt_BindingID r) \<and> periods_increasing (rt_HMACPeriods r)) (vs_Routes s) \<and>
     slice_is_sorted subscriptionLess (vs_Routes s)"

lemma Replace_cases:
  assumes "Replace s rq = (s', v)"
  shows "s' = s \<and> Terminal v \<noteq> TerminalApplied \<or>
    v = verdict TerminalApplied [] \<and>
    s' = s\<lparr>vs_Routes := rr_Routes rq, vs_SubscriptionGeneration := vs_SubscriptionGeneration s + 1\<rparr> \<and>
    rr_InstallationBindingID rq = vs_InstallationBindingID s \<and> rr_SequencerEpoch rq = vs_SequencerEpoch s \<and>
    rr_ExpectedSubscriptionGeneration rq = vs_SubscriptionGeneration s \<and>
    validate_entries s rq 0 {} {} (rr_Routes rq) = None \<and> slice_is_sorted subscriptionLess (rr_Routes rq) \<and>
    \<not> route_key_regression s rq \<and> \<not> rr_CommitAmbiguous rq"
proof -
  have neg: "validate_entries s rq i C B rs = Some w \<Longrightarrow> Terminal w \<noteq> TerminalApplied" for i C B rs w
    by (induction rs arbitrary: i C B) (auto simp: Let_def split: if_splits)
  show ?thesis
    using assms neg unfolding Replace_def
    by (simp split: if_split_asm option.split_asm) (elim conjE, hypsubst, simp)+
qed

lemma Replace_ok:
  assumes "vault_ok s" and "Replace s rq = (s', v)"
  shows "vault_ok s'"
  using Replace_cases [OF assms(2)] assms(1) validate_entries_None [of s rq 0 "{}" "{}" "rr_Routes rq"]
  by (auto simp: vault_ok_def list_all_iff)

definition replace_all :: "VaultState \<Rightarrow> ReplaceRequest list \<Rightarrow> VaultState" where
  "replace_all s rqs = fold (\<lambda>rq s. fst (Replace s rq)) rqs s"

lemma replace_all_ok: "vault_ok s \<Longrightarrow> vault_ok (replace_all s rqs)"
proof (induction rqs arbitrary: s)
  case (Cons rq rqs)
  have "vault_ok (fst (Replace s rq))"
    using Replace_ok [OF Cons.prems, of rq] by (cases "Replace s rq") simp
  then show ?case
    using Cons.IH by (simp add: replace_all_def)
qed (simp add: replace_all_def)

section \<open>Properties\<close>

text \<open>
  C3. Denial wins. Once a \<open>REVOKE\<close> event was answered with \<open>REVOKED\<close> (in sequence, or across a
  gap), no later run of events makes the control state answer \<open>APPLIED\<close> to an \<open>UPSERT\<close> of the
  same or an older binding version.
\<close>

theorem denial_wins:
  assumes "ControlState_Apply s revoke = (s1, v)" and "Action revoke = ''REVOKE''" and "Terminal v = TerminalRevoked"
    and "control_run s1 es = (s2, vs)" and "Action e = ''UPSERT''" and "BindingVersion e \<le> BindingVersion revoke"
    and "ControlState_Apply s2 e = (s3, w)"
  shows "Terminal w \<noteq> TerminalApplied"
proof
  assume "Terminal w = TerminalApplied"
  then have "\<not> (Tombstoned s2 \<and> BindingVersion e \<le> HighestBindingVersion s2)"
    using applied_step [OF Apply_control_step [OF assms(7)]] by blast
  moreover have "Tombstoned s1 \<and> HighestBindingVersion s1 = BindingVersion revoke"
    by (rule revoke_step [OF Apply_control_step [OF assms(1)] assms(2,3)])
  ultimately show False
    using control_run_le [OF assms(4)] assms(6) unfolding control_le_def by force
qed

definition example_revoke :: ControlEvent where
  "example_revoke = \<lparr>IdempotencyKey = ''k1'', SignedBody = ''b'', StreamSequence = 5, ExpectedPreviousSequence = 4,
     BindingVersion = 3, ExpectedBindingVersion = 2, Action = ''REVOKE''\<rparr>"

definition example_upsert :: ControlEvent where
  "example_upsert = \<lparr>IdempotencyKey = ''k2'', SignedBody = ''c'', StreamSequence = 1, ExpectedPreviousSequence = 0,
     BindingVersion = 1, ExpectedBindingVersion = 0, Action = ''UPSERT''\<rparr>"

lemma example_denied:
  "\<exists>s1. ControlState_Apply zeroControlState example_revoke =
     (s1, verdict TerminalRevoked ''DENY_APPLIES_AND_UNCERTAINTY_LATCHES'')"
  by (simp add: ControlState_Apply_def Let_def zeroControlState_def example_revoke_def control_fields_ok_def)

theorem denial_wins_witness:
  "\<exists>s1 s2 w. control_run zeroControlState [example_revoke] = (s1, [verdict TerminalRevoked ''DENY_APPLIES_AND_UNCERTAINTY_LATCHES'']) \<and>
     ControlState_Apply s1 example_upsert = (s2, w) \<and> Terminal w \<noteq> TerminalApplied"
proof -
  obtain s1 where s1: "ControlState_Apply zeroControlState example_revoke =
      (s1, verdict TerminalRevoked ''DENY_APPLIES_AND_UNCERTAINTY_LATCHES'')"
    using example_denied by blast
  obtain s2 w where s2: "ControlState_Apply s1 example_upsert = (s2, w)"
    by (cases "ControlState_Apply s1 example_upsert")
  have "Terminal w \<noteq> TerminalApplied"
    using denial_wins [OF s1 _ _ _ _ _ s2, of "[]" "[]"] by (simp add: example_revoke_def example_upsert_def)
  then show ?thesis
    using s1 s2 by simp
qed

text \<open>
  The positive cursor is exactly the number of events applied in sequence: whatever events arrive,
  \<open>AppliedSequence\<close> grows by one for each event answered with \<open>APPLIED\<close> or with a revocation in
  sequence, and by nothing else; and tombstones, uncertainty, the highest binding version and the
  receipts are never taken back.
\<close>

theorem cursor_counts_applied:
  assumes "control_run s es = (s', vs)"
  shows "unat (AppliedSequence s') = unat (AppliedSequence s) + length (filter in_sequence vs) \<and> control_le s s'"
  using cursor_run [OF assms] control_run_le [OF assms] by blast

theorem cursor_counts_applied_witness:
  "\<exists>s'. control_run zeroControlState [example_upsert] = (s', [verdict TerminalApplied []]) \<and> unat (AppliedSequence s') = 1"
proof -
  obtain s' where run: "control_run zeroControlState [example_upsert] = (s', [verdict TerminalApplied []])"
    by (simp add: ControlState_Apply_def Let_def zeroControlState_def example_upsert_def control_fields_ok_def)
  then show ?thesis
    using cursor_counts_applied [OF run] by (simp add: zeroControlState_def in_sequence_def)
qed

text \<open>
  Accepted control events are idempotent: if an event was accepted (a receipt was written), then
  after any other events the same event is answered with \<open>REPLAY\<close> and the original reason, and
  changes nothing.
\<close>

theorem control_event_idempotent:
  assumes "ControlState_Apply s e = (s1, v)" and "receipts s (IdempotencyKey e) = None"
    and "receipts s1 (IdempotencyKey e) \<noteq> None" and "control_run s1 es = (s2, vs)"
  shows "ControlState_Apply s2 e = (s2, verdict TerminalReplay (Reason v))"
proof -
  have "receipts s1 (IdempotencyKey e) = Some \<lparr>bodyHash = hash (SignedBody e), receiptVerdict = v\<rparr>"
    by (rule receipt_step [OF Apply_control_step [OF assms(1)] assms(2,3)])
  then have "receipts s2 (IdempotencyKey e) = Some \<lparr>bodyHash = hash (SignedBody e), receiptVerdict = v\<rparr>"
    using control_run_le [OF assms(4)] unfolding control_le_def map_le_def by (metis domI)
  then show ?thesis
    by (simp add: ControlState_Apply_def Let_def)
qed

theorem control_event_idempotent_witness:
  "\<exists>s1. ControlState_Apply s1 example_revoke = (s1, verdict TerminalReplay ''DENY_APPLIES_AND_UNCERTAINTY_LATCHES'')"
proof -
  obtain s1 where s1: "ControlState_Apply zeroControlState example_revoke =
      (s1, verdict TerminalRevoked ''DENY_APPLIES_AND_UNCERTAINTY_LATCHES'')"
    using example_denied by blast
  then have "receipts s1 (IdempotencyKey example_revoke) \<noteq> None"
    by (auto simp: ControlState_Apply_def Let_def zeroControlState_def example_revoke_def control_fields_ok_def)
  with control_event_idempotent [OF s1 _ this, of "[]" s1 "[]"] show ?thesis
    by (auto simp: zeroControlState_def)
qed

text \<open>
  C13. Uncertainty is latched: once a watermark state is uncertain, it stays uncertain through any
  sequence of watermarks, and none of them is answered with \<open>APPLIED\<close> or \<open>REPLAY\<close>.
\<close>

theorem watermark_uncertainty_latched:
  assumes "watermark_run s ms = Some (s', vs)" and "ws_Uncertain s"
  shows "ws_Uncertain s' \<and> list_all (\<lambda>v. Terminal v \<noteq> TerminalApplied \<and> Terminal v \<noteq> TerminalReplay) vs"
  using uncertain_run [OF assms] .

definition example_watermark :: Watermark where
  "example_watermark = \<lparr>wm_SequencerEpoch = ''e'', wm_WatermarkSequence = 1, wm_CommittedThroughStreamSequence = 2,
     wm_Status = ''CURRENT'', wm_UncertaintyReason = ''NONE'', wm_ExpiresAt = 10, wm_SignedBody = ''w''\<rparr>"

definition example_watermark_state :: WatermarkState where
  "example_watermark_state = \<lparr>ws_SequencerEpoch = ''e'', ws_AppliedSequences = (\<lambda>k. k = 1 \<or> k = 2),
     ws_ContiguousSequence = 2, ws_WatermarkSequence = 0, ws_WatermarkHash = [], ws_Uncertain = False,
     ws_UncertaintyReason = []\<rparr>"

lemma example_watermark_applied:
  "\<exists>s'. WatermarkState_Apply example_watermark_state example_watermark 5 = Some (s', verdict TerminalApplied [])"
proof -
  have "containsContiguousFrom (\<lambda>k. k = 1 \<or> k = 2) 2 1 = Some True"
    by (simp add: containsContiguousFrom.simps)
  then show ?thesis
    by (simp add: WatermarkState_Apply_def Let_def example_watermark_def example_watermark_state_def containsContiguous_def)
qed

theorem watermark_uncertainty_latched_witness:
  "\<exists>s' v. watermark_run (example_watermark_state\<lparr>ws_Uncertain := True\<rparr>) [(example_watermark, 5)] = Some (s', [v]) \<and>
     ws_Uncertain s' \<and> Terminal v \<noteq> TerminalApplied"
proof -
  let ?s = "example_watermark_state\<lparr>ws_Uncertain := True\<rparr>"
  obtain s' v where "watermark_run ?s [(example_watermark, 5)] = Some (s', [v])"
    using watermark_returns [of example_watermark ?s 5] by (auto simp: example_watermark_def)
  with watermark_uncertainty_latched [OF this] show ?thesis
    by (auto simp: example_watermark_state_def)
qed

text \<open>
  C14. A watermark is answered with \<open>APPLIED\<close> only on full evidence: the state is certain, the mark
  is current, unexpired, of the same sequencer epoch and the next in sequence, and every stream
  sequence up to the committed one has been applied; the state then advances to exactly this mark.
\<close>

theorem watermark_applied_evidence:
  assumes "WatermarkState_Apply s m now = Some (s', v)" and "Terminal v = TerminalApplied"
  shows "\<not> ws_Uncertain s \<and> wm_Status m = ''CURRENT'' \<and> wm_SequencerEpoch m = ws_SequencerEpoch s \<and>
     now < wm_ExpiresAt m \<and> ws_WatermarkSequence s < wm_WatermarkSequence m \<and>
     (ws_WatermarkSequence s = 0 \<or> wm_WatermarkSequence m = ws_WatermarkSequence s + 1) \<and>
     wm_CommittedThroughStreamSequence m \<le> ws_ContiguousSequence s \<and>
     (\<forall>k. 1 \<le> k \<and> k \<le> wm_CommittedThroughStreamSequence m \<longrightarrow> ws_AppliedSequences s k) \<and>
     s' = s\<lparr>ws_WatermarkSequence := wm_WatermarkSequence m, ws_WatermarkHash := hash (wm_SignedBody m)\<rparr>"
  using watermark_applied [OF assms] containsContiguous_True by blast

theorem watermark_applied_evidence_witness:
  "\<exists>s'. WatermarkState_Apply example_watermark_state example_watermark 5 = Some (s', verdict TerminalApplied []) \<and>
     ws_WatermarkSequence s' = 1 \<and> ws_AppliedSequences example_watermark_state 2"
proof -
  obtain s' where ap: "WatermarkState_Apply example_watermark_state example_watermark 5 = Some (s', verdict TerminalApplied [])"
    using example_watermark_applied by blast
  have "ws_WatermarkSequence s' = 1 \<and> ws_AppliedSequences example_watermark_state 2"
    using watermark_applied_evidence [OF ap] by (auto simp: example_watermark_def)
  then show ?thesis
    using ap by blast
qed

text \<open>
  Applying a watermark always returns when the committed sequence is not the largest 64-bit
  number, and the watermark sequence never goes back.
\<close>

theorem watermark_apply_returns:
  assumes "unat (wm_CommittedThroughStreamSequence m) < 2 ^ 64 - 1"
  shows "\<exists>s' v. WatermarkState_Apply s m now = Some (s', v) \<and> ws_WatermarkSequence s \<le> ws_WatermarkSequence s'"
proof -
  obtain s' v where "WatermarkState_Apply s m now = Some (s', v)"
    using watermark_returns [OF assms, of s now] by auto
  then show ?thesis
    using watermark_sequence_mono by blast
qed

theorem watermark_apply_returns_witness:
  "\<exists>s' v. WatermarkState_Apply example_watermark_state example_watermark 50 = Some (s', v) \<and> 0 \<le> ws_WatermarkSequence s'"
  using watermark_apply_returns [of example_watermark example_watermark_state 50]
  by (simp add: example_watermark_def) blast

text \<open>
  C12. A replacement of the routes is all or nothing: either the vault is exactly as before, and the
  verdict is not \<open>APPLIED\<close>, or it holds exactly the requested routes and the next generation. The
  routes of a vault that starts well formed stay well formed through any sequence of replacements:
  distinct topic keys and bindings, none of them tombstoned, strictly increasing HMAC periods, sorted.
\<close>

theorem replace_atomic:
  assumes "vault_ok s" and "replace_all s rqs = t" and "Replace t rq = (t', v)"
  shows "vault_ok t' \<and>
     (t' = t \<and> Terminal v \<noteq> TerminalApplied \<or>
      v = verdict TerminalApplied [] \<and>
      t' = t\<lparr>vs_Routes := rr_Routes rq, vs_SubscriptionGeneration := vs_SubscriptionGeneration t + 1\<rparr>)"
  using Replace_ok [OF _ assms(3)] replace_all_ok [OF assms(1), of rqs] Replace_cases [OF assms(3)] assms(2) by blast

definition example_vault :: VaultState where
  "example_vault = \<lparr>vs_InstallationBindingID = ''i'', vs_SubscriptionGeneration = 0, vs_SequencerEpoch = ''e'',
     vs_Routes = [], vs_TombstonedBindings = (\<lambda>_. False)\<rparr>"

definition example_replace :: ReplaceRequest where
  "example_replace = \<lparr>rr_InstallationBindingID = ''i'', rr_SequencerEpoch = ''e'', rr_ExpectedSubscriptionGeneration = 0,
     rr_SubscriptionGeneration = 1,
     rr_Routes = [\<lparr>rt_TopicBinding = ''AAAA'', rt_TopicKeyEpoch = 1, rt_RouteKeyEpoch = 1, rt_BindingID = ''b'', rt_HMACPeriods = [2, 3]\<rparr>],
     rr_FailAfterValidatingEntry = None, rr_CommitAmbiguous = False, rr_ConcurrentRevokedBinding = []\<rparr>"

theorem replace_atomic_witness:
  "\<exists>t' v. Replace example_vault example_replace = (t', v) \<and> vault_ok t' \<and> vs_SubscriptionGeneration t' = 1"
proof -
  obtain t' where rep: "Replace example_vault example_replace = (t', verdict TerminalApplied [])"
    by (simp add: Replace_def example_vault_def example_replace_def Let_def route_key_regression_def)
  have "vault_ok example_vault"
    by (simp add: vault_ok_def example_vault_def)
  from replace_atomic [OF this _ rep, of "[]"] rep show ?thesis
    by (auto simp: replace_all_def example_vault_def)
qed

end
