(* ===== verification/Authority.thy ===== *)
theory Authority
  imports Go_Encoding Go_Crypto Go_Time
begin

text \<open>
  The signed safety authorities, \<open>src/pkg/authority\<close>: the receive capability, the policy control
  and the Welcome authorization, with their signing bytes and verification, the conversation
  commitment and the canonical identifiers.

  A verification takes the Ed25519 check, the keyring and the wall clock as arguments; the theorems
  hold for every one of them. \<open>ParsePublicKeyring\<close>, which builds the keyring from a JSON document, is
  not modelled.

  The lemmas: what each verification accepts, that the signing bytes determine the kind and the whole
  content of the artifact, and that an accepted artifact is short-lived.
\<close>

section \<open>Identifiers\<close>

definition auth_EnvironmentDev :: bytes where "auth_EnvironmentDev = ''dev''"
definition auth_EnvironmentProduction :: bytes where "auth_EnvironmentProduction = ''production''"

definition decodeCanonicalRawURLBase64 :: "bytes \<Rightarrow> bytes option" where
  "decodeCanonicalRawURLBase64 value =
     (case b64_decode_strict value of
        None \<Rightarrow> None
      | Some decoded \<Rightarrow> if b64_encode decoded \<noteq> value then None else Some decoded)"

definition ValidEnvironment :: "bytes \<Rightarrow> bool" where
  "ValidEnvironment value \<longleftrightarrow> value = auth_EnvironmentDev \<or> value = auth_EnvironmentProduction"

definition ValidInstallationID :: "bytes \<Rightarrow> bool" where
  "ValidInstallationID value =
     (if length value \<noteq> 64 then False
      else (case hex_decode value of
              None \<Rightarrow> False
            | Some decoded \<Rightarrow> length decoded = 32 \<and> hex_encode decoded = value))"

text \<open>The loop that drops the hyphens: every byte but those at 8, 13, 18 and 23.\<close>

definition compact_uuid :: "bytes \<Rightarrow> bytes" where
  "compact_uuid value = map (\<lambda>i. value ! i) (filter (\<lambda>i. i \<notin> {8, 13, 18, 23}) [0..<length value])"

definition ValidAccountIncarnationID :: "bytes \<Rightarrow> bool" where
  "ValidAccountIncarnationID value =
     (if length value \<noteq> 36 \<or> value ! 8 \<noteq> CHR ''-'' \<or> value ! 13 \<noteq> CHR ''-'' \<or>
         value ! 18 \<noteq> CHR ''-'' \<or> value ! 23 \<noteq> CHR ''-'' then False
      else (case hex_decode (compact_uuid value) of
              None \<Rightarrow> False
            | Some decoded \<Rightarrow> length decoded = 16 \<and> hex_encode decoded = compact_uuid value))"

definition validASCIIField :: "bytes \<Rightarrow> nat \<Rightarrow> nat \<Rightarrow> bool" where
  "validASCIIField value minLength maxLength =
     (if length value < minLength \<or> maxLength < length value then False
      else list_all (\<lambda>c. \<not> (byte_val c < 0x20 \<or> 0x7e < byte_val c \<or> c = CHR ''<'' \<or> c = CHR ''>'' \<or> c = CHR ''&'')) value)"

definition validLowerHexDigest :: "bytes \<Rightarrow> bool" where
  "validLowerHexDigest value =
     (case hex_decode value of
        None \<Rightarrow> False
      | Some decoded \<Rightarrow> length decoded = 32 \<and> hex_encode decoded = value)"

definition maxCapabilityFieldBytes :: nat where "maxCapabilityFieldBytes = 256"
definition auth_maxIJSONInteger :: uint64 where "auth_maxIJSONInteger = 2 ^ 53 - 1"

datatype authority_error =
    ErrCapabilityInvalid | ErrCapabilityExpired | ErrCapabilityKeyState
  | ErrPolicyControlInvalid | ErrPolicyControlExpired | ErrPolicyControlKeyState
  | ErrWelcomeAuthorizationInvalid | ErrWelcomeAuthorizationExpired | ErrWelcomeAuthorizationKeyState

text \<open>What the verifications take from outside: the signature check, the keyring and the wall clock.\<close>

type_synonym keyring = "bytes \<rightharpoonup> bytes"

definition PublicKeySize :: nat where "PublicKeySize = 32"
definition SignatureSize :: nat where "SignatureSize = 64"

section \<open>The conversation commitment\<close>

definition expectedConversationCommitmentDomain :: bytes where
  "expectedConversationCommitmentDomain = ''Hytch expected conversation commitment v1'' @ [byte_of 0]"

definition commitment_preimage :: "bytes list \<Rightarrow> bytes" where
  "commitment_preimage values = expectedConversationCommitmentDomain @ concat (map (len_field 8) values)"

definition deriveExpectedConversationCommitment :: "bytes \<Rightarrow> bytes \<Rightarrow> bytes \<Rightarrow> bytes \<Rightarrow> bytes" where
  "deriveExpectedConversationCommitment environment installationID accountIncarnationID expectedConversationID =
     sha256 (commitment_preimage [environment, installationID, accountIncarnationID, expectedConversationID])"

definition ExpectedConversationCommitment :: "bytes \<Rightarrow> bytes \<Rightarrow> bytes \<Rightarrow> bytes \<Rightarrow> authority_error + bytes" where
  "ExpectedConversationCommitment environment installationID accountIncarnationID expectedConversationID =
     (if \<not> ValidEnvironment environment \<or> \<not> ValidInstallationID installationID \<or>
         \<not> ValidAccountIncarnationID accountIncarnationID \<or>
         \<not> validASCIIField expectedConversationID 1 maxCapabilityFieldBytes then Inl ErrCapabilityInvalid
      else Inr (deriveExpectedConversationCommitment environment installationID accountIncarnationID expectedConversationID))"

section \<open>The policy control\<close>

definition policyControlDomain :: bytes where
  "policyControlDomain = ''Hytch safety policy control v1'' @ [byte_of 0]"

definition PolicyStateActive :: bytes where "PolicyStateActive = ''active''"
definition PolicyStateRevoked :: bytes where "PolicyStateRevoked = ''revoked''"
definition AgePolicyAdult :: bytes where "AgePolicyAdult = ''adult''"
definition AgePolicyTeen :: bytes where "AgePolicyTeen = ''teen''"

record PolicyControlV1 =
  pc_SchemaVersion :: uint32
  pc_Environment :: bytes
  pc_InstallationID :: bytes
  pc_AccountIncarnationID :: bytes
  pc_PolicyEpoch :: uint64
  pc_State :: bytes
  pc_AgePolicy :: bytes
  pc_IssuedAt :: bytes
  pc_ExpiresAt :: bytes
  pc_SigningKeyID :: bytes
  pc_Algorithm :: bytes
  pc_Signature :: bytes

record PolicyVerifyOptions =
  po_Now :: time
  po_ExpectedEnvironment :: bytes
  po_ExpectedInstallationID :: bytes
  po_ExpectedAccountIncarnationID :: bytes

definition validPolicyControlSigningShape :: "PolicyControlV1 \<Rightarrow> bool" where
  "validPolicyControlSigningShape control =
     (if pc_SchemaVersion control \<noteq> 1 \<or> pc_PolicyEpoch control = 0 \<or> auth_maxIJSONInteger < pc_PolicyEpoch control \<or>
         \<not> ValidEnvironment (pc_Environment control) \<or> \<not> ValidInstallationID (pc_InstallationID control) \<or>
         \<not> ValidAccountIncarnationID (pc_AccountIncarnationID control) then False
      else if pc_State control \<noteq> PolicyStateActive \<and> pc_State control \<noteq> PolicyStateRevoked then False
      else if pc_AgePolicy control \<noteq> AgePolicyAdult \<and> pc_AgePolicy control \<noteq> AgePolicyTeen then False
      else list_all (\<lambda>value. validASCIIField value 1 maxCapabilityFieldBytes)
        [pc_IssuedAt control, pc_ExpiresAt control, pc_SigningKeyID control, pc_Algorithm control])"

definition validPolicyControlShape :: "PolicyControlV1 \<Rightarrow> bool" where
  "validPolicyControlShape control \<longleftrightarrow>
     validPolicyControlSigningShape control \<and> validASCIIField (pc_Signature control) 1 maxCapabilityFieldBytes"

definition policy_members :: "PolicyControlV1 \<Rightarrow> (bytes \<times> jscalar) list" where
  "policy_members c =
     [(''account_incarnation_id'', JStr (pc_AccountIncarnationID c)), (''age_policy'', JStr (pc_AgePolicy c)),
      (''algorithm'', JStr (pc_Algorithm c)), (''environment'', JStr (pc_Environment c)),
      (''expires_at'', JStr (pc_ExpiresAt c)), (''installation_id'', JStr (pc_InstallationID c)),
      (''issued_at'', JStr (pc_IssuedAt c)), (''policy_epoch'', JNum (unat (pc_PolicyEpoch c))),
      (''schema_version'', JNum (unat (pc_SchemaVersion c))), (''signing_key_id'', JStr (pc_SigningKeyID c)),
      (''state'', JStr (pc_State c))]"

definition PolicyControl_SigningBytes :: "PolicyControlV1 \<Rightarrow> authority_error + bytes" where
  "PolicyControl_SigningBytes c =
     (if \<not> validPolicyControlSigningShape c then Inl ErrPolicyControlInvalid
      else Inr (policyControlDomain @ json_object (policy_members c)))"

text \<open>The zero \<open>Now\<close> of the options means the wall clock.\<close>

definition effective_now :: "time \<Rightarrow> time \<Rightarrow> time" where
  "effective_now clock now = (if now = zero_time then clock else now)"

definition VerifyPolicyControl ::
    "ed25519_verify \<Rightarrow> time \<Rightarrow> PolicyControlV1 \<Rightarrow> keyring \<Rightarrow> PolicyVerifyOptions \<Rightarrow> authority_error option" where
  "VerifyPolicyControl verify clock control keys opts =
     (if \<not> validPolicyControlShape control \<or>
         (po_ExpectedEnvironment opts \<noteq> [] \<and> \<not> ValidEnvironment (po_ExpectedEnvironment opts)) \<or>
         (po_ExpectedInstallationID opts \<noteq> [] \<and> \<not> ValidInstallationID (po_ExpectedInstallationID opts)) \<or>
         (po_ExpectedAccountIncarnationID opts \<noteq> [] \<and> \<not> ValidAccountIncarnationID (po_ExpectedAccountIncarnationID opts))
      then Some ErrPolicyControlInvalid
      else if pc_Algorithm control \<noteq> ''Ed25519'' then Some ErrPolicyControlKeyState
      else (case keys (pc_SigningKeyID control) of
          None \<Rightarrow> Some ErrPolicyControlKeyState
        | Some publicKey \<Rightarrow>
            if length publicKey \<noteq> PublicKeySize then Some ErrPolicyControlKeyState
            else (case decodeCanonicalRawURLBase64 (pc_Signature control) of
                None \<Rightarrow> Some ErrPolicyControlInvalid
              | Some signature \<Rightarrow>
                  if length signature \<noteq> SignatureSize then Some ErrPolicyControlInvalid
                  else (case PolicyControl_SigningBytes control of
                      Inl _ \<Rightarrow> Some ErrPolicyControlInvalid
                    | Inr signingBytes \<Rightarrow>
                        if \<not> verify publicKey signingBytes signature then Some ErrPolicyControlInvalid
                        else (case (parse_rfc3339 (pc_IssuedAt control), parse_rfc3339 (pc_ExpiresAt control)) of
                            (Some issuedAt, Some expiresAt) \<Rightarrow>
                              (let now = effective_now clock (po_Now opts);
                                   maxTTL = (if pc_AgePolicy control = AgePolicyTeen then 30 * second else minute)
                               in if \<not> now < expiresAt then Some ErrPolicyControlExpired
                                  else if time_sub expiresAt issuedAt \<le> 0 \<or> maxTTL < time_sub expiresAt issuedAt then
                                    Some ErrPolicyControlExpired
                                  else if now + 5 * second < issuedAt then Some ErrPolicyControlInvalid
                                  else if po_ExpectedEnvironment opts \<noteq> [] \<and> pc_Environment control \<noteq> po_ExpectedEnvironment opts then
                                    Some ErrPolicyControlInvalid
                                  else if po_ExpectedInstallationID opts \<noteq> [] \<and>
                                          pc_InstallationID control \<noteq> po_ExpectedInstallationID opts then
                                    Some ErrPolicyControlInvalid
                                  else if po_ExpectedAccountIncarnationID opts \<noteq> [] \<and>
                                          pc_AccountIncarnationID control \<noteq> po_ExpectedAccountIncarnationID opts then
                                    Some ErrPolicyControlInvalid
                                  else None)
                          | _ \<Rightarrow> Some ErrPolicyControlInvalid)))))"

section \<open>The receive capability\<close>

definition receiveCapabilityDomain :: bytes where
  "receiveCapabilityDomain = ''Hytch safety receive capability v1'' @ [byte_of 0]"

definition PushModeAlertAllowed :: bytes where "PushModeAlertAllowed = ''alert_allowed''"
definition PushModeSuppressed :: bytes where "PushModeSuppressed = ''suppressed''"

record ReceiveCapabilityV1 =
  rc_SchemaVersion :: uint32
  rc_Environment :: bytes
  rc_InstallationID :: bytes
  rc_AccountIncarnationID :: bytes
  rc_PolicyEpoch :: uint64
  rc_TopicDigest :: bytes
  rc_AliasDay :: bytes
  rc_RouteAlias :: bytes
  rc_ConversationGrantVersion :: uint64
  rc_RosterVersion :: uint64
  rc_PushMode :: bytes
  rc_IssuedAt :: bytes
  rc_ExpiresAt :: bytes
  rc_Nonce :: bytes
  rc_SigningKeyID :: bytes
  rc_Algorithm :: bytes
  rc_Signature :: bytes

record VerifyOptions =
  vo_Now :: time
  vo_MaxTTL :: duration
  vo_ExpectedEnvironment :: bytes
  vo_ExpectedInstallationID :: bytes
  vo_ExpectedAccountIncarnationID :: bytes
  vo_ExpectedTopicDigest :: bytes

definition EffectivePushMode :: "ReceiveCapabilityV1 \<Rightarrow> bytes" where
  "EffectivePushMode c = (if rc_PushMode c = PushModeAlertAllowed then PushModeAlertAllowed else PushModeSuppressed)"

definition validCapabilityCanonicalIntegers :: "ReceiveCapabilityV1 \<Rightarrow> bool" where
  "validCapabilityCanonicalIntegers c \<longleftrightarrow>
     rc_SchemaVersion c = 1 \<and> 0 < rc_PolicyEpoch c \<and> rc_PolicyEpoch c \<le> auth_maxIJSONInteger \<and>
     0 < rc_ConversationGrantVersion c \<and> rc_ConversationGrantVersion c \<le> auth_maxIJSONInteger \<and>
     0 < rc_RosterVersion c \<and> rc_RosterVersion c \<le> auth_maxIJSONInteger"

definition canonical_sized :: "bytes \<Rightarrow> (nat \<Rightarrow> bool) \<Rightarrow> bool" where
  "canonical_sized value sizeOk = (case decodeCanonicalRawURLBase64 value of None \<Rightarrow> False | Some b \<Rightarrow> sizeOk (length b))"

definition validCapabilitySigningShape :: "ReceiveCapabilityV1 \<Rightarrow> bool" where
  "validCapabilitySigningShape c =
     (if \<not> validCapabilityCanonicalIntegers c \<or> \<not> ValidEnvironment (rc_Environment c) \<or>
         \<not> ValidInstallationID (rc_InstallationID c) \<or> \<not> ValidAccountIncarnationID (rc_AccountIncarnationID c) then False
      else if \<not> list_all (\<lambda>field. validASCIIField field 1 maxCapabilityFieldBytes)
          [rc_TopicDigest c, rc_AliasDay c, rc_RouteAlias c, rc_IssuedAt c, rc_ExpiresAt c, rc_Nonce c,
           rc_SigningKeyID c, rc_Algorithm c] then False
      else if rc_PushMode c \<noteq> PushModeAlertAllowed \<and> rc_PushMode c \<noteq> PushModeSuppressed \<and>
          \<not> validASCIIField (rc_PushMode c) 0 32 then False
      else if \<not> (case hex_decode (rc_TopicDigest c) of
                   None \<Rightarrow> False
                 | Some d \<Rightarrow> length d = 32 \<and> hex_encode d = rc_TopicDigest c) then False
      else if \<not> canonical_sized (rc_RouteAlias c) (\<lambda>n. n = 16) then False
      else canonical_sized (rc_Nonce c) (\<lambda>n. 16 \<le> n \<and> n \<le> 64))"

definition validCapabilityShape :: "ReceiveCapabilityV1 \<Rightarrow> bool" where
  "validCapabilityShape c =
     (if \<not> validCapabilitySigningShape c \<or> \<not> validASCIIField (rc_Signature c) 1 maxCapabilityFieldBytes then False else True)"

definition capability_members :: "ReceiveCapabilityV1 \<Rightarrow> (bytes \<times> jscalar) list" where
  "capability_members c =
     [(''account_incarnation_id'', JStr (rc_AccountIncarnationID c)), (''algorithm'', JStr (rc_Algorithm c)),
      (''alias_day'', JStr (rc_AliasDay c)), (''conversation_grant_version'', JNum (unat (rc_ConversationGrantVersion c))),
      (''environment'', JStr (rc_Environment c)), (''expires_at'', JStr (rc_ExpiresAt c)),
      (''installation_id'', JStr (rc_InstallationID c)), (''issued_at'', JStr (rc_IssuedAt c)),
      (''nonce'', JStr (rc_Nonce c)), (''policy_epoch'', JNum (unat (rc_PolicyEpoch c))),
      (''push_mode'', JStr (rc_PushMode c)), (''roster_version'', JNum (unat (rc_RosterVersion c))),
      (''route_alias'', JStr (rc_RouteAlias c)), (''schema_version'', JNum (unat (rc_SchemaVersion c))),
      (''signing_key_id'', JStr (rc_SigningKeyID c)), (''topic_digest'', JStr (rc_TopicDigest c))]"

definition ReceiveCapability_SigningBytes :: "ReceiveCapabilityV1 \<Rightarrow> authority_error + bytes" where
  "ReceiveCapability_SigningBytes c =
     (if \<not> validCapabilitySigningShape c then Inl ErrCapabilityInvalid
      else Inr (receiveCapabilityDomain @ json_object (capability_members c)))"

definition capabilityTimes :: "ReceiveCapabilityV1 \<Rightarrow> (time \<times> time) option" where
  "capabilityTimes c = (case parse_rfc3339 (rc_IssuedAt c) of
     None \<Rightarrow> None
   | Some issuedAt \<Rightarrow> (case parse_rfc3339 (rc_ExpiresAt c) of None \<Rightarrow> None | Some expiresAt \<Rightarrow> Some (issuedAt, expiresAt)))"

definition VerifyReceiveCapability ::
    "ed25519_verify \<Rightarrow> time \<Rightarrow> ReceiveCapabilityV1 \<Rightarrow> keyring \<Rightarrow> VerifyOptions \<Rightarrow> authority_error option" where
  "VerifyReceiveCapability verify clock c keys opts =
     (if \<not> validCapabilityShape c \<or>
         (vo_ExpectedEnvironment opts \<noteq> [] \<and> \<not> ValidEnvironment (vo_ExpectedEnvironment opts)) \<or>
         (vo_ExpectedInstallationID opts \<noteq> [] \<and> \<not> ValidInstallationID (vo_ExpectedInstallationID opts)) \<or>
         (vo_ExpectedAccountIncarnationID opts \<noteq> [] \<and> \<not> ValidAccountIncarnationID (vo_ExpectedAccountIncarnationID opts))
      then Some ErrCapabilityInvalid
      else if rc_Algorithm c \<noteq> ''Ed25519'' then Some ErrCapabilityKeyState
      else (case keys (rc_SigningKeyID c) of
          None \<Rightarrow> Some ErrCapabilityKeyState
        | Some publicKey \<Rightarrow>
            if length publicKey \<noteq> PublicKeySize then Some ErrCapabilityKeyState
            else (case decodeCanonicalRawURLBase64 (rc_Signature c) of
                None \<Rightarrow> Some ErrCapabilityInvalid
              | Some signature \<Rightarrow>
                  if length signature \<noteq> SignatureSize then Some ErrCapabilityInvalid
                  else (case ReceiveCapability_SigningBytes c of
                      Inl _ \<Rightarrow> Some ErrCapabilityInvalid
                    | Inr signingBytes \<Rightarrow>
                        if \<not> verify publicKey signingBytes signature then Some ErrCapabilityInvalid
                        else (case capabilityTimes c of
                            None \<Rightarrow> Some ErrCapabilityInvalid
                          | Some (issuedAt, expiresAt) \<Rightarrow>
                              (let now = effective_now clock (vo_Now opts);
                                   maxTTL = (if vo_MaxTTL opts \<le> 0 \<or> minute < vo_MaxTTL opts then minute else vo_MaxTTL opts)
                               in if \<not> now < expiresAt then Some ErrCapabilityExpired
                                  else if time_sub expiresAt issuedAt \<le> 0 \<or> maxTTL < time_sub expiresAt issuedAt then
                                    Some ErrCapabilityExpired
                                  else if now + 5 * second < issuedAt then Some ErrCapabilityInvalid
                                  else if vo_ExpectedEnvironment opts \<noteq> [] \<and> rc_Environment c \<noteq> vo_ExpectedEnvironment opts then
                                    Some ErrCapabilityInvalid
                                  else if vo_ExpectedInstallationID opts \<noteq> [] \<and>
                                          rc_InstallationID c \<noteq> vo_ExpectedInstallationID opts then
                                    Some ErrCapabilityInvalid
                                  else if vo_ExpectedAccountIncarnationID opts \<noteq> [] \<and>
                                          rc_AccountIncarnationID c \<noteq> vo_ExpectedAccountIncarnationID opts then
                                    Some ErrCapabilityInvalid
                                  else if vo_ExpectedTopicDigest opts \<noteq> [] \<and> rc_TopicDigest c \<noteq> vo_ExpectedTopicDigest opts then
                                    Some ErrCapabilityInvalid
                                  else None))))))"

section \<open>The Welcome authorization\<close>

definition welcomeAuthorizationDomain :: bytes where
  "welcomeAuthorizationDomain = ''Hytch safety welcome authorization v1'' @ [byte_of 0]"

record WelcomeAuthorizationV1 =
  wa_SchemaVersion :: uint32
  wa_Environment :: bytes
  wa_InstallationID :: bytes
  wa_AccountIncarnationID :: bytes
  wa_PolicyEpoch :: uint64
  wa_TopicDigest :: bytes
  wa_OuterEnvelopeDigest :: bytes
  wa_ExpectedConversationCommitment :: bytes
  wa_GrantVersion :: uint64
  wa_Nonce :: bytes
  wa_IssuedAt :: bytes
  wa_ExpiresAt :: bytes
  wa_SigningKeyID :: bytes
  wa_Algorithm :: bytes
  wa_Signature :: bytes

record WelcomeVerifyOptions =
  wo_Now :: time
  wo_ExpectedEnvironment :: bytes
  wo_ExpectedInstallationID :: bytes
  wo_ExpectedAccountIncarnationID :: bytes
  wo_ExpectedTopicDigest :: bytes
  wo_ExpectedOuterEnvelopeDigest :: bytes
  wo_ExpectedConversationCommitment :: bytes
  wo_ExpectedPolicyEpoch :: uint64

definition validWelcomeCanonicalIntegers :: "WelcomeAuthorizationV1 \<Rightarrow> bool" where
  "validWelcomeCanonicalIntegers a \<longleftrightarrow>
     wa_SchemaVersion a = 1 \<and> 0 < wa_PolicyEpoch a \<and> wa_PolicyEpoch a \<le> auth_maxIJSONInteger \<and>
     0 < wa_GrantVersion a \<and> wa_GrantVersion a \<le> auth_maxIJSONInteger"

definition validWelcomeAuthorizationSigningShape :: "WelcomeAuthorizationV1 \<Rightarrow> bool" where
  "validWelcomeAuthorizationSigningShape a =
     (if \<not> validWelcomeCanonicalIntegers a \<or> \<not> ValidEnvironment (wa_Environment a) \<or>
         \<not> ValidInstallationID (wa_InstallationID a) \<or> \<not> ValidAccountIncarnationID (wa_AccountIncarnationID a) then False
      else if \<not> list_all (\<lambda>value. validASCIIField value 1 maxCapabilityFieldBytes)
          [wa_TopicDigest a, wa_OuterEnvelopeDigest a, wa_ExpectedConversationCommitment a, wa_Nonce a, wa_IssuedAt a,
           wa_ExpiresAt a, wa_SigningKeyID a, wa_Algorithm a] then False
      else if \<not> validLowerHexDigest (wa_TopicDigest a) \<or> \<not> validLowerHexDigest (wa_OuterEnvelopeDigest a) \<or>
          \<not> validLowerHexDigest (wa_ExpectedConversationCommitment a) then False
      else canonical_sized (wa_Nonce a) (\<lambda>n. 16 \<le> n \<and> n \<le> 64))"

definition validWelcomeAuthorizationShape :: "WelcomeAuthorizationV1 \<Rightarrow> bool" where
  "validWelcomeAuthorizationShape a \<longleftrightarrow>
     validWelcomeAuthorizationSigningShape a \<and> validASCIIField (wa_Signature a) 1 maxCapabilityFieldBytes"

definition welcome_members :: "WelcomeAuthorizationV1 \<Rightarrow> (bytes \<times> jscalar) list" where
  "welcome_members a =
     [(''account_incarnation_id'', JStr (wa_AccountIncarnationID a)), (''algorithm'', JStr (wa_Algorithm a)),
      (''environment'', JStr (wa_Environment a)),
      (''expected_conversation_commitment'', JStr (wa_ExpectedConversationCommitment a)),
      (''expires_at'', JStr (wa_ExpiresAt a)), (''grant_version'', JNum (unat (wa_GrantVersion a))),
      (''installation_id'', JStr (wa_InstallationID a)), (''issued_at'', JStr (wa_IssuedAt a)),
      (''nonce'', JStr (wa_Nonce a)), (''outer_envelope_digest'', JStr (wa_OuterEnvelopeDigest a)),
      (''policy_epoch'', JNum (unat (wa_PolicyEpoch a))), (''schema_version'', JNum (unat (wa_SchemaVersion a))),
      (''signing_key_id'', JStr (wa_SigningKeyID a)), (''topic_digest'', JStr (wa_TopicDigest a))]"

definition WelcomeAuthorization_SigningBytes :: "WelcomeAuthorizationV1 \<Rightarrow> authority_error + bytes" where
  "WelcomeAuthorization_SigningBytes a =
     (if \<not> validWelcomeAuthorizationSigningShape a then Inl ErrWelcomeAuthorizationInvalid
      else Inr (welcomeAuthorizationDomain @ json_object (welcome_members a)))"

definition welcomeAuthorizationTimes :: "WelcomeAuthorizationV1 \<Rightarrow> (time \<times> time) option" where
  "welcomeAuthorizationTimes a = (case parse_rfc3339 (wa_IssuedAt a) of
     None \<Rightarrow> None
   | Some issuedAt \<Rightarrow> (case parse_rfc3339 (wa_ExpiresAt a) of None \<Rightarrow> None | Some expiresAt \<Rightarrow> Some (issuedAt, expiresAt)))"

definition VerifyWelcomeAuthorization ::
    "ed25519_verify \<Rightarrow> time \<Rightarrow> WelcomeAuthorizationV1 \<Rightarrow> keyring \<Rightarrow> WelcomeVerifyOptions \<Rightarrow> authority_error option" where
  "VerifyWelcomeAuthorization verify clock a keys opts =
     (if \<not> validWelcomeAuthorizationShape a \<or>
         (wo_ExpectedEnvironment opts \<noteq> [] \<and> \<not> ValidEnvironment (wo_ExpectedEnvironment opts)) \<or>
         (wo_ExpectedInstallationID opts \<noteq> [] \<and> \<not> ValidInstallationID (wo_ExpectedInstallationID opts)) \<or>
         (wo_ExpectedAccountIncarnationID opts \<noteq> [] \<and> \<not> ValidAccountIncarnationID (wo_ExpectedAccountIncarnationID opts))
      then Some ErrWelcomeAuthorizationInvalid
      else if wa_Algorithm a \<noteq> ''Ed25519'' then Some ErrWelcomeAuthorizationKeyState
      else (case keys (wa_SigningKeyID a) of
          None \<Rightarrow> Some ErrWelcomeAuthorizationKeyState
        | Some publicKey \<Rightarrow>
            if length publicKey \<noteq> PublicKeySize then Some ErrWelcomeAuthorizationKeyState
            else (case decodeCanonicalRawURLBase64 (wa_Signature a) of
                None \<Rightarrow> Some ErrWelcomeAuthorizationInvalid
              | Some signature \<Rightarrow>
                  if length signature \<noteq> SignatureSize then Some ErrWelcomeAuthorizationInvalid
                  else (case WelcomeAuthorization_SigningBytes a of
                      Inl _ \<Rightarrow> Some ErrWelcomeAuthorizationInvalid
                    | Inr signingBytes \<Rightarrow>
                        if \<not> verify publicKey signingBytes signature then Some ErrWelcomeAuthorizationInvalid
                        else (case welcomeAuthorizationTimes a of
                            None \<Rightarrow> Some ErrWelcomeAuthorizationInvalid
                          | Some (issuedAt, expiresAt) \<Rightarrow>
                              (let now = effective_now clock (wo_Now opts)
                               in if \<not> now < expiresAt \<or> time_sub expiresAt issuedAt \<le> 0 \<or>
                                     minute < time_sub expiresAt issuedAt then Some ErrWelcomeAuthorizationExpired
                                  else if now + 5 * second < issuedAt then Some ErrWelcomeAuthorizationInvalid
                                  else if wo_ExpectedEnvironment opts \<noteq> [] \<and> wa_Environment a \<noteq> wo_ExpectedEnvironment opts then
                                    Some ErrWelcomeAuthorizationInvalid
                                  else if wo_ExpectedInstallationID opts \<noteq> [] \<and>
                                          wa_InstallationID a \<noteq> wo_ExpectedInstallationID opts then
                                    Some ErrWelcomeAuthorizationInvalid
                                  else if wo_ExpectedAccountIncarnationID opts \<noteq> [] \<and>
                                          wa_AccountIncarnationID a \<noteq> wo_ExpectedAccountIncarnationID opts then
                                    Some ErrWelcomeAuthorizationInvalid
                                  else if wo_ExpectedTopicDigest opts \<noteq> [] \<and> wa_TopicDigest a \<noteq> wo_ExpectedTopicDigest opts then
                                    Some ErrWelcomeAuthorizationInvalid
                                  else if wo_ExpectedOuterEnvelopeDigest opts \<noteq> [] \<and>
                                          wa_OuterEnvelopeDigest a \<noteq> wo_ExpectedOuterEnvelopeDigest opts then
                                    Some ErrWelcomeAuthorizationInvalid
                                  else if wo_ExpectedConversationCommitment opts \<noteq> [] \<and>
                                          wa_ExpectedConversationCommitment a \<noteq> wo_ExpectedConversationCommitment opts then
                                    Some ErrWelcomeAuthorizationInvalid
                                  else if wo_ExpectedPolicyEpoch opts \<noteq> 0 \<and> wa_PolicyEpoch a \<noteq> wo_ExpectedPolicyEpoch opts then
                                    Some ErrWelcomeAuthorizationInvalid
                                  else None))))))"

section \<open>Canonical encodings\<close>

lemma decodeCanonical_iff: "decodeCanonicalRawURLBase64 v = Some b \<longleftrightarrow> v = b64_encode b"
  by (auto simp: decodeCanonicalRawURLBase64_def split: option.splits)

lemma hex_exact_iff:
  "(case hex_decode v of None \<Rightarrow> False | Some d \<Rightarrow> length d = n \<and> hex_encode d = v) \<longleftrightarrow>
   length v = 2 * n \<and> list_all is_lower_hex v"
  unfolding hex_canonical_iff [symmetric] by (simp split: option.split)

lemma ValidInstallationID_iff: "ValidInstallationID v \<longleftrightarrow> length v = 64 \<and> list_all is_lower_hex v"
  by (simp add: ValidInstallationID_def hex_exact_iff)

lemma validLowerHexDigest_iff: "validLowerHexDigest v \<longleftrightarrow> length v = 64 \<and> list_all is_lower_hex v"
  by (simp add: validLowerHexDigest_def hex_exact_iff)

lemma length_compact_uuid: "length v = 36 \<Longrightarrow> length (compact_uuid v) = 32"
  by (simp add: compact_uuid_def upt_rec [of 0] upt_rec)

lemma ValidAccountIncarnationID_iff:
  "ValidAccountIncarnationID v \<longleftrightarrow>
   length v = 36 \<and> v ! 8 = CHR ''-'' \<and> v ! 13 = CHR ''-'' \<and> v ! 18 = CHR ''-'' \<and> v ! 23 = CHR ''-'' \<and>
   (\<forall>i < 36. i \<notin> {8, 13, 18, 23} \<longrightarrow> is_lower_hex (v ! i))"
proof -
  have hex: "list_all is_lower_hex (compact_uuid v) \<longleftrightarrow> (\<forall>i < 36. i \<notin> {8, 13, 18, 23} \<longrightarrow> is_lower_hex (v ! i))"
    if "length v = 36"
    using that by (auto simp: compact_uuid_def list_all_iff)
  show ?thesis
    using hex length_compact_uuid [of v] by (cases "length v = 36") (simp_all add: ValidAccountIncarnationID_def hex_exact_iff, blast)
qed

section \<open>Signing bytes\<close>

text \<open>
  The shape the three artifacts share: a domain, and the members of the signed JSON object, which
  determine the artifact up to its signature.
\<close>

locale signed_artifact =
  fixes dom_prefix :: bytes and members :: "'a \<Rightarrow> (bytes \<times> jscalar) list" and unsigned_part :: "'a \<Rightarrow> 'a"
  assumes members_iff: "members x = members y \<longleftrightarrow> unsigned_part x = unsigned_part y"
begin

lemma signing_bytes_iff:
  "dom_prefix @ json_object (members x) = dom_prefix @ json_object (members y) \<longleftrightarrow> unsigned_part x = unsigned_part y"
  by (simp add: json_object_inj members_iff)

end

lemma unat_inj_iff: "unat a = unat b \<longleftrightarrow> a = b"
  by (simp add: word_unat_eq_iff)

interpretation policy_artifact: signed_artifact policyControlDomain policy_members "\<lambda>c. c\<lparr>pc_Signature := []\<rparr>"
proof
  show "policy_members x = policy_members y \<longleftrightarrow> x\<lparr>pc_Signature := []\<rparr> = y\<lparr>pc_Signature := []\<rparr>" for x y
    by (cases x; cases y) (auto simp: policy_members_def unat_inj_iff)
qed

interpretation capability_artifact: signed_artifact receiveCapabilityDomain capability_members "\<lambda>c. c\<lparr>rc_Signature := []\<rparr>"
proof
  show "capability_members x = capability_members y \<longleftrightarrow> x\<lparr>rc_Signature := []\<rparr> = y\<lparr>rc_Signature := []\<rparr>" for x y
    by (cases x; cases y) (auto simp: capability_members_def unat_inj_iff)
qed

interpretation welcome_artifact: signed_artifact welcomeAuthorizationDomain welcome_members "\<lambda>a. a\<lparr>wa_Signature := []\<rparr>"
proof
  show "welcome_members x = welcome_members y \<longleftrightarrow> x\<lparr>wa_Signature := []\<rparr> = y\<lparr>wa_Signature := []\<rparr>" for x y
    by (cases x; cases y) (auto simp: welcome_members_def unat_inj_iff)
qed

lemma domains_separate:
  "policyControlDomain @ x \<noteq> receiveCapabilityDomain @ y" "policyControlDomain @ x \<noteq> welcomeAuthorizationDomain @ y"
  "receiveCapabilityDomain @ x \<noteq> welcomeAuthorizationDomain @ y"
  by (simp_all add: policyControlDomain_def receiveCapabilityDomain_def welcomeAuthorizationDomain_def)

lemma commitment_preimage_inj:
  assumes "list_all (\<lambda>v. length v < 256 ^ 8) vs" and "list_all (\<lambda>v. length v < 256 ^ 8) ws" and "length vs = length ws"
    and "commitment_preimage vs = commitment_preimage ws"
  shows "vs = ws"
  using len_code.concat_enc_inj [OF assms(1-3), of "[]" "[]"] assms(4) by (simp add: commitment_preimage_def)

section \<open>What the verifications accept\<close>

text \<open>
  A lifetime: not over yet, positive, at most \<open>ttl\<close>, and issued at most five seconds ahead.
\<close>

definition fresh :: "time \<Rightarrow> duration \<Rightarrow> time \<Rightarrow> time \<Rightarrow> bool" where
  "fresh now ttl issuedAt expiresAt \<longleftrightarrow>
     now < expiresAt \<and> issuedAt < expiresAt \<and> expiresAt - issuedAt \<le> ttl \<and> issuedAt \<le> now + 5 * second"

text \<open>An empty expectation is no expectation.\<close>

definition as_expected :: "bytes \<Rightarrow> bytes \<Rightarrow> bool" where
  "as_expected expected value \<longleftrightarrow> expected = [] \<or> value = expected"

text \<open>The signature part: the named key, of the right size, verifies the canonical signature.\<close>

definition signed_by :: "ed25519_verify \<Rightarrow> keyring \<Rightarrow> bytes \<Rightarrow> bytes \<Rightarrow> bytes \<Rightarrow> bool" where
  "signed_by verify keys keyID signature message \<longleftrightarrow>
     (\<exists>pk sig. keys keyID = Some pk \<and> length pk = PublicKeySize \<and> signature = b64_encode sig \<and>
        length sig = SignatureSize \<and> verify pk message sig)"

lemma ttl_iff:
  "0 < ttl \<Longrightarrow> ttl \<le> minute \<Longrightarrow> \<not> (time_sub e i \<le> 0 \<or> ttl < time_sub e i) \<longleftrightarrow> i < e \<and> e - i \<le> ttl"
  using time_sub_le [of 0 e i] time_sub_le [of ttl e i] by (auto simp: minute_def second_def)

lemma expectation_iff: "\<not> (x \<noteq> [] \<and> y \<noteq> x) \<longleftrightarrow> as_expected x y"
  by (auto simp: as_expected_def)

lemma case_times [guard_iff]:
  "(case (a, b) of (Some i, Some e) \<Rightarrow> f i e | _ \<Rightarrow> Some x) = None \<longleftrightarrow>
   (\<exists>i e. a = Some i \<and> b = Some e \<and> f i e = None)"
  by (cases a; cases b) auto

lemma expectation_valid:
  assumes "ValidEnvironment e" and "ValidInstallationID i" and "ValidAccountIncarnationID a"
  shows "as_expected x e \<Longrightarrow> \<not> (x \<noteq> [] \<and> \<not> ValidEnvironment x)"
    and "as_expected x i \<Longrightarrow> \<not> (x \<noteq> [] \<and> \<not> ValidInstallationID x)"
    and "as_expected x a \<Longrightarrow> \<not> (x \<noteq> [] \<and> \<not> ValidAccountIncarnationID x)"
  using assms by (auto simp: as_expected_def)

lemma policy_shape:
  assumes "validPolicyControlShape c"
  shows "PolicyControl_SigningBytes c = Inr (policyControlDomain @ json_object (policy_members c))"
    and "ValidEnvironment (pc_Environment c)" and "ValidInstallationID (pc_InstallationID c)"
    and "ValidAccountIncarnationID (pc_AccountIncarnationID c)"
  using assms unfolding validPolicyControlShape_def PolicyControl_SigningBytes_def
  by (simp, simp_all add: validPolicyControlSigningShape_def split: if_split_asm)

lemma policy_ttl:
  "\<not> (time_sub e i \<le> 0 \<or> (if teen then 30 * second else minute) < time_sub e i) \<longleftrightarrow>
   i < e \<and> e - i \<le> (if teen then 30 * second else minute)"
  by (rule ttl_iff) (simp_all add: minute_def second_def)

lemma VerifyPolicyControl_None:
  "VerifyPolicyControl verify clock c keys opts = None \<longleftrightarrow>
     validPolicyControlShape c \<and> pc_Algorithm c = ''Ed25519'' \<and>
     signed_by verify keys (pc_SigningKeyID c) (pc_Signature c) (policyControlDomain @ json_object (policy_members c)) \<and>
     (\<exists>i e. parse_rfc3339 (pc_IssuedAt c) = Some i \<and> parse_rfc3339 (pc_ExpiresAt c) = Some e \<and>
        fresh (effective_now clock (po_Now opts)) (if pc_AgePolicy c = AgePolicyTeen then 30 * second else minute) i e) \<and>
     as_expected (po_ExpectedEnvironment opts) (pc_Environment c) \<and>
     as_expected (po_ExpectedInstallationID opts) (pc_InstallationID c) \<and>
     as_expected (po_ExpectedAccountIncarnationID opts) (pc_AccountIncarnationID c)"
proof (cases "validPolicyControlShape c")
  case True
  note shape = policy_shape [OF True]
  show ?thesis
    unfolding VerifyPolicyControl_def Let_def guard_iff policy_ttl expectation_iff shape(1) decodeCanonical_iff
      signed_by_def fresh_def
    using True expectation_valid [OF shape(2-4)]
    by (simp only: not_not not_less not_le sum.inject) blast
qed (simp add: VerifyPolicyControl_def)

lemma capability_shape:
  assumes "validCapabilityShape c"
  shows "ReceiveCapability_SigningBytes c = Inr (receiveCapabilityDomain @ json_object (capability_members c))"
    and "ValidEnvironment (rc_Environment c)" and "ValidInstallationID (rc_InstallationID c)"
    and "ValidAccountIncarnationID (rc_AccountIncarnationID c)"
  using assms unfolding validCapabilityShape_def ReceiveCapability_SigningBytes_def
  by (simp split: if_split_asm, simp_all add: validCapabilitySigningShape_def split: if_split_asm)

lemma welcome_shape:
  assumes "validWelcomeAuthorizationShape a"
  shows "WelcomeAuthorization_SigningBytes a = Inr (welcomeAuthorizationDomain @ json_object (welcome_members a))"
    and "ValidEnvironment (wa_Environment a)" and "ValidInstallationID (wa_InstallationID a)"
    and "ValidAccountIncarnationID (wa_AccountIncarnationID a)"
  using assms unfolding validWelcomeAuthorizationShape_def WelcomeAuthorization_SigningBytes_def
  by (simp, simp_all add: validWelcomeAuthorizationSigningShape_def split: if_split_asm)

text \<open>The longest lifetime of a capability: the option, when it is positive and at most a minute.\<close>

definition effective_ttl :: "duration \<Rightarrow> duration" where
  "effective_ttl ttl = (if ttl \<le> 0 \<or> minute < ttl then minute else ttl)"

lemma effective_ttl_bounds: "0 < effective_ttl ttl" "effective_ttl ttl \<le> minute"
  by (auto simp: effective_ttl_def minute_def second_def)

lemmas capability_ttl = ttl_iff [OF effective_ttl_bounds]

lemma welcome_ttl: "\<not> (\<not> now < e \<or> time_sub e i \<le> 0 \<or> minute < time_sub e i) \<longleftrightarrow> now < e \<and> i < e \<and> e - i \<le> minute"
  using ttl_iff [of minute e i] by (auto simp: minute_def second_def)

lemma ex_pair_None [guard_iff]:
  "(\<exists>p. x = Some p \<and> (case p of (i, e) \<Rightarrow> f i e) = None) \<longleftrightarrow> (\<exists>i e. x = Some (i, e) \<and> f i e = None)"
  by auto

lemma capabilityTimes_iff:
  "capabilityTimes c = Some (i, e) \<longleftrightarrow> parse_rfc3339 (rc_IssuedAt c) = Some i \<and> parse_rfc3339 (rc_ExpiresAt c) = Some e"
  by (auto simp: capabilityTimes_def split: option.split)

lemma welcomeAuthorizationTimes_iff:
  "welcomeAuthorizationTimes a = Some (i, e) \<longleftrightarrow> parse_rfc3339 (wa_IssuedAt a) = Some i \<and> parse_rfc3339 (wa_ExpiresAt a) = Some e"
  by (auto simp: welcomeAuthorizationTimes_def split: option.split)


text \<open>
  A Welcome authorization is accepted exactly when its shape is valid, the algorithm is Ed25519,
  the named key verifies its canonical signature, it is live, at most a minute long and issued at most
  five seconds ahead, and the environment, installation, account, topic, outer envelope, conversation
  commitment and policy epoch the caller expects are the signed ones.
\<close>

theorem VerifyWelcomeAuthorization_accepts:
  "VerifyWelcomeAuthorization verify clock a keys opts = None \<longleftrightarrow>
     validWelcomeAuthorizationShape a \<and> wa_Algorithm a = ''Ed25519'' \<and>
     signed_by verify keys (wa_SigningKeyID a) (wa_Signature a) (welcomeAuthorizationDomain @ json_object (welcome_members a)) \<and>
     (\<exists>i e. parse_rfc3339 (wa_IssuedAt a) = Some i \<and> parse_rfc3339 (wa_ExpiresAt a) = Some e \<and>
        fresh (effective_now clock (wo_Now opts)) minute i e) \<and>
     as_expected (wo_ExpectedEnvironment opts) (wa_Environment a) \<and>
     as_expected (wo_ExpectedInstallationID opts) (wa_InstallationID a) \<and>
     as_expected (wo_ExpectedAccountIncarnationID opts) (wa_AccountIncarnationID a) \<and>
     as_expected (wo_ExpectedTopicDigest opts) (wa_TopicDigest a) \<and>
     as_expected (wo_ExpectedOuterEnvelopeDigest opts) (wa_OuterEnvelopeDigest a) \<and>
     as_expected (wo_ExpectedConversationCommitment opts) (wa_ExpectedConversationCommitment a) \<and>
     (wo_ExpectedPolicyEpoch opts = 0 \<or> wa_PolicyEpoch a = wo_ExpectedPolicyEpoch opts)"
proof (cases "validWelcomeAuthorizationShape a")
  case True
  note shape = welcome_shape [OF True]
  show ?thesis
    unfolding VerifyWelcomeAuthorization_def Let_def guard_iff welcome_ttl expectation_iff shape(1)
      decodeCanonical_iff signed_by_def fresh_def welcomeAuthorizationTimes_iff
    using True expectation_valid [OF shape(2-4)]
    by (simp only: not_not not_less not_le sum.inject) blast
qed (simp add: VerifyWelcomeAuthorization_def)

section \<open>Freshness of an accepted policy control\<close>

lemma fresh_expiry: "fresh now ttl i e \<Longrightarrow> now < e \<and> e \<le> now + ttl + 5 * second"
  by (auto simp: fresh_def)

definition policy_example :: PolicyControlV1 where
  "policy_example = \<lparr>pc_SchemaVersion = 1, pc_Environment = ''dev'', pc_InstallationID = replicate 64 (CHR ''a''),
     pc_AccountIncarnationID = ''00000000-0000-4000-8000-000000000000'', pc_PolicyEpoch = 3, pc_State = ''active'',
     pc_AgePolicy = ''teen'', pc_IssuedAt = ''2026-01-02T00:00:00Z'', pc_ExpiresAt = ''2026-01-02T00:00:30Z'',
     pc_SigningKeyID = ''k1'', pc_Algorithm = ''Ed25519'', pc_Signature = b64_encode (replicate 64 (CHR ''s''))\<rparr>"

definition policy_example_options :: PolicyVerifyOptions where
  "policy_example_options = \<lparr>po_Now = zero_time, po_ExpectedEnvironment = ''dev'',
     po_ExpectedInstallationID = [], po_ExpectedAccountIncarnationID = []\<rparr>"

lemma policy_example_times:
  "parse_rfc3339 (pc_IssuedAt policy_example) = Some (time_of_fields 2026 1 2 0 0 0 0)"
  "parse_rfc3339 (pc_ExpiresAt policy_example) = Some (time_of_fields 2026 1 2 0 0 30 0)"
proof -
  have "rfc3339_text 2026 1 2 0 0 0 = ''2026-01-02T00:00:00Z''" "rfc3339_text 2026 1 2 0 0 30 = ''2026-01-02T00:00:30Z''"
    by ((simp only: rfc3339_text_def pad_int_def pad_dec_def, simp add: dec.simps digit_char_def, code_simp)+)
  moreover have "valid_date 2026 1 2" "valid_clock 0 0 0 0" "valid_clock 0 0 30 0"
    by (simp_all add: valid_date_def days_in_month_def is_leap_def valid_clock_def second_def)
  ultimately show
    "parse_rfc3339 (pc_IssuedAt policy_example) = Some (time_of_fields 2026 1 2 0 0 0 0)"
    "parse_rfc3339 (pc_ExpiresAt policy_example) = Some (time_of_fields 2026 1 2 0 0 30 0)"
    using parse_rfc3339_text [of 2026 1 2 0 0 0] parse_rfc3339_text [of 2026 1 2 0 0 30]
    by (simp_all add: policy_example_def)
qed

lemma example_uuid: "ValidAccountIncarnationID ''00000000-0000-4000-8000-000000000000''"
proof -
  have "compact_uuid ''00000000-0000-4000-8000-000000000000'' = ''00000000000040008000000000000000''"
    by (simp add: compact_uuid_def upt_rec [of 0] upt_rec)
  then show ?thesis
    unfolding ValidAccountIncarnationID_def hex_exact_iff by (simp add: is_lower_hex_def)
qed

lemma example_installation: "ValidInstallationID (replicate 64 (CHR ''a''))"
  by (simp add: ValidInstallationID_iff list_all_iff is_lower_hex_def)

lemma validASCIIField_b64: "validASCIIField (b64_encode s) lo hi \<longleftrightarrow> lo \<le> length (b64_encode s) \<and> length (b64_encode s) \<le> hi"
proof -
  have "list_all (\<lambda>c. \<not> (byte_val c < 0x20 \<or> 0x7e < byte_val c \<or> c = CHR ''<'' \<or> c = CHR ''>'' \<or> c = CHR ''&'')) (b64_encode s)"
  proof (rule b64_encode_alphabet)
    fix n :: nat
    assume "n < 64"
    moreover from this have "byte_val (b64_char n) \<notin> {60, 62, 38}"
      by (auto simp: byte_val_b64_char)
    then have "b64_char n \<noteq> CHR ''<'' \<and> b64_char n \<noteq> CHR ''>'' \<and> b64_char n \<noteq> CHR ''&''"
      by auto
    ultimately show "\<not> (byte_val (b64_char n) < 0x20 \<or> 0x7e < byte_val (b64_char n) \<or> b64_char n = CHR ''<'' \<or>
        b64_char n = CHR ''>'' \<or> b64_char n = CHR ''&'')"
      by (auto simp: byte_val_b64_char)
  qed
  then show ?thesis
    by (auto simp: validASCIIField_def)
qed

lemma example_signature: "validASCIIField (b64_encode (replicate 64 (CHR ''s''))) (Suc 0) 256"
  by (simp add: validASCIIField_b64 length_b64_encode)

lemma policy_example_shape: "validPolicyControlShape policy_example"
proof -
  have "list_all (\<lambda>value. validASCIIField value (Suc 0) 256) [''2026-01-02T00:00:00Z'', ''2026-01-02T00:00:30Z'', ''k1'', ''Ed25519'']"
    by (simp add: validASCIIField_def)
  then show ?thesis
    using example_uuid example_installation example_signature
    by (simp add: validPolicyControlShape_def validPolicyControlSigningShape_def policy_example_def ValidEnvironment_def
        auth_EnvironmentDev_def maxCapabilityFieldBytes_def auth_maxIJSONInteger_def PolicyStateActive_def AgePolicyTeen_def)
qed

lemma policy_example_accepted:
  "VerifyPolicyControl (\<lambda>_ _ _. True) (time_of_fields 2026 1 2 0 0 10 0) policy_example (\<lambda>_. Some (replicate 32 (CHR ''p'')))
     policy_example_options = None"
proof -
  have "signed_by (\<lambda>_ _ _. True) (\<lambda>_. Some (replicate 32 (CHR ''p''))) k (pc_Signature policy_example) m" for k m
    unfolding signed_by_def
    by (rule exI [where x = "replicate 32 (CHR ''p'')"], rule exI [where x = "replicate 64 (CHR ''s'')"]) (simp add: policy_example_def PublicKeySize_def SignatureSize_def)
  moreover have "fresh (effective_now (time_of_fields 2026 1 2 0 0 10 0) (po_Now policy_example_options))
      (if pc_AgePolicy policy_example = AgePolicyTeen then 30 * second else minute)
      (time_of_fields 2026 1 2 0 0 0 0) (time_of_fields 2026 1 2 0 0 30 0)"
    by (simp add: fresh_def effective_now_def policy_example_options_def policy_example_def time_of_fields_def duration_defs
        AgePolicyTeen_def)
  ultimately show ?thesis
    unfolding VerifyPolicyControl_None using policy_example_shape policy_example_times
    by (auto simp: as_expected_def policy_example_options_def policy_example_def)
qed

text \<open>
  An accepted policy control carries a signature of the named key over its signing bytes and is
  short-lived: it expires after now, and at most 65 seconds after now, 35 for a teen account.
\<close>

theorem policy_control_short_lived:
  assumes "VerifyPolicyControl verify clock c keys opts = None"
  shows "\<exists>m e. PolicyControl_SigningBytes c = Inr m \<and> signed_by verify keys (pc_SigningKeyID c) (pc_Signature c) m \<and>
    parse_rfc3339 (pc_ExpiresAt c) = Some e \<and> effective_now clock (po_Now opts) < e \<and>
    e \<le> effective_now clock (po_Now opts) + (if pc_AgePolicy c = AgePolicyTeen then 35 else 65) * second"
proof -
  obtain i e where accepted: "validPolicyControlShape c"
      "signed_by verify keys (pc_SigningKeyID c) (pc_Signature c) (policyControlDomain @ json_object (policy_members c))"
      "parse_rfc3339 (pc_ExpiresAt c) = Some e"
    and "fresh (effective_now clock (po_Now opts)) (if pc_AgePolicy c = AgePolicyTeen then 30 * second else minute) i e"
    using assms unfolding VerifyPolicyControl_None by blast
  with fresh_expiry [OF this(4)] show ?thesis
    by (auto simp: policy_shape(1) minute_def)
qed

theorem policy_control_short_lived_witness:
  "\<exists>m e. PolicyControl_SigningBytes policy_example = Inr m \<and>
    signed_by (\<lambda>_ _ _. True) (\<lambda>_. Some (replicate 32 (CHR ''p''))) (pc_SigningKeyID policy_example)
      (pc_Signature policy_example) m \<and>
    parse_rfc3339 (pc_ExpiresAt policy_example) = Some e \<and> effective_now (time_of_fields 2026 1 2 0 0 10 0) (po_Now policy_example_options) < e \<and>
    e \<le> effective_now (time_of_fields 2026 1 2 0 0 10 0) (po_Now policy_example_options) + (if pc_AgePolicy policy_example = AgePolicyTeen then 35 else 65) * second"
  by (rule policy_control_short_lived [OF policy_example_accepted])

section \<open>What a signature covers\<close>

text \<open>The three kinds of artifact one key may sign.\<close>

datatype artifact = Policy PolicyControlV1 | Capability ReceiveCapabilityV1 | Welcome WelcomeAuthorizationV1

fun artifact_signing_bytes :: "artifact \<Rightarrow> authority_error + bytes" where
  "artifact_signing_bytes (Policy c) = PolicyControl_SigningBytes c"
| "artifact_signing_bytes (Capability c) = ReceiveCapability_SigningBytes c"
| "artifact_signing_bytes (Welcome a) = WelcomeAuthorization_SigningBytes a"

fun without_signature :: "artifact \<Rightarrow> artifact" where
  "without_signature (Policy c) = Policy (c\<lparr>pc_Signature := []\<rparr>)"
| "without_signature (Capability c) = Capability (c\<lparr>rc_Signature := []\<rparr>)"
| "without_signature (Welcome a) = Welcome (a\<lparr>wa_Signature := []\<rparr>)"

lemmas signing_bytes_defs =
  PolicyControl_SigningBytes_def ReceiveCapability_SigningBytes_def WelcomeAuthorization_SigningBytes_def

lemmas signing_bytes_iffs =
  policy_artifact.signing_bytes_iff capability_artifact.signing_bytes_iff welcome_artifact.signing_bytes_iff

fun artifact_text :: "artifact \<Rightarrow> bytes" where
  "artifact_text (Policy c) = policyControlDomain @ json_object (policy_members c)"
| "artifact_text (Capability c) = receiveCapabilityDomain @ json_object (capability_members c)"
| "artifact_text (Welcome a) = welcomeAuthorizationDomain @ json_object (welcome_members a)"

lemma artifact_signing_bytes_Inr: "artifact_signing_bytes a = Inr m \<Longrightarrow> m = artifact_text a"
  by (cases a) (simp_all add: signing_bytes_defs split: if_split_asm)

lemma artifact_text_iff: "artifact_text a = artifact_text b \<longleftrightarrow> without_signature a = without_signature b"
  by (cases a; cases b)
    (simp_all only: artifact_text.simps without_signature.simps artifact.inject artifact.distinct signing_bytes_iffs
      domains_separate domains_separate [symmetric])

text \<open>
  C8. A signature authorises one artifact only: when two artifacts of any kinds have the same signing
  bytes they are of the same kind and agree in every field but the signature, so that a signature on a
  policy control can never be presented as one on a capability or a Welcome authorization.
\<close>

theorem signing_bytes_unambiguous:
  assumes "artifact_signing_bytes a = Inr m" and "artifact_signing_bytes b = Inr m"
  shows "without_signature a = without_signature b"
  using assms artifact_text_iff [of a b] by (simp add: artifact_signing_bytes_Inr)

theorem signing_bytes_unambiguous_witness:
  "without_signature (Policy policy_example) = without_signature (Policy (policy_example\<lparr>pc_Signature := ''x''\<rparr>))"
proof (rule signing_bytes_unambiguous)
  show "artifact_signing_bytes (Policy policy_example) = Inr (artifact_text (Policy policy_example))"
    using policy_shape(1) [OF policy_example_shape] by simp
  moreover have "validPolicyControlSigningShape policy_example"
    using policy_example_shape by (simp add: validPolicyControlShape_def)
  moreover have "policy_members (policy_example\<lparr>pc_Signature := ''x''\<rparr>) = policy_members policy_example"
      "validPolicyControlSigningShape (policy_example\<lparr>pc_Signature := ''x''\<rparr>) = validPolicyControlSigningShape policy_example"
    by (simp_all add: policy_members_def validPolicyControlSigningShape_def)
  ultimately show "artifact_signing_bytes (Policy (policy_example\<lparr>pc_Signature := ''x''\<rparr>)) = Inr (artifact_text (Policy policy_example))"
    by (simp add: PolicyControl_SigningBytes_def)
qed

section \<open>The conversation commitment binds its inputs\<close>

lemma expected_commitment_lengths:
  assumes "ExpectedConversationCommitment e i a c = Inr d"
  shows "list_all (\<lambda>v. length v < 256 ^ 8) [e, i, a, c]"
  using assms unfolding ExpectedConversationCommitment_def guard_iff
  by (auto simp: ValidEnvironment_def auth_EnvironmentDev_def auth_EnvironmentProduction_def ValidInstallationID_iff
      ValidAccountIncarnationID_iff validASCIIField_def maxCapabilityFieldBytes_def split: if_split_asm)

text \<open>
  The commitment of a conversation is the SHA-256 digest of a transcript that determines all four
  inputs: two accepted inputs have the same transcript only when environment, installation, account and
  conversation are all the same.
\<close>

theorem conversation_commitment_binds:
  assumes "ExpectedConversationCommitment e i a c = Inr d" and "ExpectedConversationCommitment e' i' a' c' = Inr d'"
  shows "d = sha256 (commitment_preimage [e, i, a, c]) \<and>
    (commitment_preimage [e, i, a, c] = commitment_preimage [e', i', a', c'] \<longleftrightarrow> (e, i, a, c) = (e', i', a', c'))"
  using assms commitment_preimage_inj [OF expected_commitment_lengths [OF assms(1)] expected_commitment_lengths [OF assms(2)]]
  by (auto simp: ExpectedConversationCommitment_def deriveExpectedConversationCommitment_def split: if_split_asm)

lemma example_commitment_inputs:
  "ExpectedConversationCommitment ''dev'' (replicate 64 (CHR ''a'')) ''00000000-0000-4000-8000-000000000000'' ''c1'' =
   Inr (deriveExpectedConversationCommitment ''dev'' (replicate 64 (CHR ''a'')) ''00000000-0000-4000-8000-000000000000'' ''c1'')"
  using example_uuid example_installation
  by (simp add: ExpectedConversationCommitment_def ValidEnvironment_def auth_EnvironmentDev_def validASCIIField_def
      maxCapabilityFieldBytes_def)

theorem conversation_commitment_binds_witness:
  "commitment_preimage [''dev'', replicate 64 (CHR ''a''), ''00000000-0000-4000-8000-000000000000'', ''c1''] =
   commitment_preimage [''dev'', replicate 64 (CHR ''a''), ''00000000-0000-4000-8000-000000000000'', ''c1''] \<longleftrightarrow>
   (''dev'', replicate 64 (CHR ''a''), ''00000000-0000-4000-8000-000000000000'', ''c1'') =
   (''dev'', replicate 64 (CHR ''a''), ''00000000-0000-4000-8000-000000000000'', ''c1'')"
  using conversation_commitment_binds [OF example_commitment_inputs example_commitment_inputs] by blast

end
