(* ===== verification/Interfaces.thy ===== *)
theory Interfaces
  imports Topics Go_Crypto Go_Time
begin

text \<open>
  The data the components exchange: \<open>src/pkg/interfaces/interfaces.go\<close> and
  \<open>src/pkg/interfaces/notification_queue.go\<close>. Each struct is a record whose fields keep the
  source's names behind a short prefix; a pointer is an option; a Go \<open>int\<close> or \<open>int64\<close> is a
  64-bit word read as two's complement.

  A \<open>time.Time\<close> in these structs carries its location: the request fingerprint marshals it.
\<close>

section \<open>Times with a location\<close>

text \<open>The instant and the offset of its location in seconds east of UTC (\<open>None\<close> for UTC itself).\<close>

record zoned_time =
  zt_instant :: time
  zt_offset :: "int option"

text \<open>Go's integer division and remainder truncate towards zero.\<close>

definition go_div :: "int \<Rightarrow> int \<Rightarrow> int" where
  "go_div a b = sgn a * sgn b * (\<bar>a\<bar> div \<bar>b\<bar>)"

definition go_mod :: "int \<Rightarrow> int \<Rightarrow> int" where
  "go_mod a b = a - b * go_div a b"

text \<open>
  \<open>Time.MarshalBinary\<close>: a version byte, the seconds since the zero time in eight bytes, the
  nanoseconds in four and the offset in minutes in two (-1 stands for UTC), and in version 2 the
  seconds of the offset in one. It fails when the minutes do not fit or would read as UTC.
\<close>

definition marshal_time :: "zoned_time \<Rightarrow> bytes option" where
  "marshal_time t =
     (let sec = be_bytes 8 (nat ((zt_instant t - zero_time) div second mod 2 ^ 64));
          nsec = be_bytes 4 (nat (zt_instant t mod second))
      in case zt_offset t of
           None \<Rightarrow> Some (byte_of 1 # sec @ nsec @ be_bytes 2 65535)
         | Some off \<Rightarrow>
             (let m = go_div off 60; s = go_mod off 60
              in if m < - 32768 \<or> m = - 1 \<or> 32767 < m then None
                 else if s = 0 then Some (byte_of 1 # sec @ nsec @ be_bytes 2 (nat (m mod 65536)))
                 else Some (byte_of 2 # sec @ nsec @ be_bytes 2 (nat (m mod 65536)) @ [byte_of (nat (s mod 256))])))"

section \<open>Payload formats and listeners\<close>

type_synonym PayloadFormat = int64

definition PayloadFormatUnspecified :: PayloadFormat where "PayloadFormatUnspecified = 0"
definition PayloadFormatV3 :: PayloadFormat where "PayloadFormatV3 = 1"
definition PayloadFormatV4 :: PayloadFormat where "PayloadFormatV4 = 2"

lemmas PayloadFormat_defs = PayloadFormatUnspecified_def PayloadFormatV3_def PayloadFormatV4_def

text \<open>The protobuf enumeration is a 32-bit integer with the same three named values.\<close>

definition PayloadFormatFromProto :: "32 word \<Rightarrow> PayloadFormat" where
  "PayloadFormatFromProto p =
     (if p = 1 then PayloadFormatV3 else if p = 2 then PayloadFormatV4 else PayloadFormatUnspecified)"

definition ToProto :: "PayloadFormat \<Rightarrow> 32 word" where
  "ToProto p = (if p = PayloadFormatV3 then 1 else if p = PayloadFormatV4 then 2 else 0)"

definition PayloadFormat_String :: "PayloadFormat \<Rightarrow> bytes" where
  "PayloadFormat_String p =
     (if p = PayloadFormatV3 then ''v3'' else if p = PayloadFormatV4 then ''v4'' else ''unspecified'')"

definition NormalizePayloadFormat :: "PayloadFormat \<Rightarrow> PayloadFormat" where
  "NormalizePayloadFormat f = (if f = PayloadFormatUnspecified then PayloadFormatV3 else f)"

definition ListenerTypeV3 :: bytes where "ListenerTypeV3 = ''v3''"
definition ListenerTypeV4 :: bytes where "ListenerTypeV4 = ''v4''"

text \<open>True when the check returns no error.\<close>

definition ValidateForListener :: "PayloadFormat \<Rightarrow> bytes \<Rightarrow> bool" where
  "ValidateForListener p listenerType =
     (\<not> (listenerType = ListenerTypeV3 \<and> NormalizePayloadFormat p = PayloadFormatV4))"

section \<open>Structs\<close>

record DeliveryMechanism =
  dm_Kind :: bytes
  dm_Token :: bytes
  dm_UpdatedAt :: zoned_time
  dm_RegistrationVersion :: int64

definition APNS :: bytes where "APNS = ''apns''"
definition FCM :: bytes where "FCM = ''fcm''"

record Installation =
  inst_Id :: bytes
  inst_DeliveryMechanism :: DeliveryMechanism
  inst_PayloadFormat :: PayloadFormat

record HmacKey =
  hk_ThirtyDayPeriodsSinceEpoch :: int64
  hk_Key :: bytes

record A9RouteSnapshot =
  a9_InstallationBindingID :: bytes
  a9_SequencerEpoch :: bytes
  a9_SubscriptionGeneration :: uint64
  a9_BindingID :: bytes
  a9_BindingVersion :: uint64
  a9_AssertionHash :: bytes
  a9_AssertionStreamSequence :: uint64
  a9_AssertionExpiresAt :: zoned_time
  a9_TopicKeyEpoch :: uint32
  a9_TopicBinding :: bytes
  a9_RouteKeyEpoch :: uint32
  a9_KeysetSequence :: uint64
  a9_KeysetHash :: bytes
  a9_WatermarkSequence :: uint64

record SecureRoute =
  sr_LeaseID :: bytes
  sr_RouteKey :: bytes
  sr_RouteKeyEpoch :: uint32
  sr_NoncePrefix :: uint32
  sr_DeliverySequence :: uint64
  sr_AliasDay :: bytes
  sr_RouteAlias :: bytes
  sr_ReceiveCapability :: bytes
  sr_LeaseExpiresAt :: zoned_time
  sr_ControlExpiresAt :: zoned_time
  sr_PolicyEpoch :: uint64
  sr_WelcomeAuthorized :: bool
  sr_WelcomeAuthorizationID :: bytes
  sr_WelcomeEnvelopeDigest :: bytes
  sr_A9 :: "A9RouteSnapshot option"

record Subscription =
  sub_Id :: int64
  sub_CreatedAt :: zoned_time
  sub_InstallationId :: bytes
  sub_Topic :: bytes
  sub_TopicV4 :: "xtopic option"
  sub_IsActive :: bool
  sub_IsSilent :: bool
  sub_ExpectedHmacKeyPeriod :: "int64 option"
  sub_HmacKey :: "HmacKey option"
  sub_SecureRoute :: "SecureRoute option"

record MessageContext =
  mc_MessageType :: message_type
  mc_ShouldPush :: "bool option"
  mc_HmacInputs :: "bytes option"
  mc_SenderHmac :: "bytes option"

record SendRequest =
  req_IdempotencyKey :: bytes
  req_Topic :: bytes
  req_TopicBytesB64 :: bytes
  req_EncryptedMessage :: bytes
  req_PayloadFormat :: PayloadFormat
  req_MessageContext :: MessageContext
  req_Installation :: Installation
  req_Subscription :: Subscription

text \<open>
  The struct \<open>SendRequest.MarshalJSON\<close> hands to \<open>json.Marshal\<close> (the JSON form of the HTTP
  delivery). The message bytes are left out for a Welcome.
\<close>

record sendRequestJSON =
  js_IdempotencyKey :: bytes
  js_ContentTopic :: bytes
  js_Message :: bytes
  js_MessageContext :: MessageContext
  js_Installation :: Installation
  js_Subscription :: Subscription
  js_PayloadFormat :: PayloadFormat
  js_TopicBytesB64 :: bytes

definition MarshalJSON :: "SendRequest \<Rightarrow> sendRequestJSON" where
  "MarshalJSON r =
     \<lparr>js_IdempotencyKey = req_IdempotencyKey r,
      js_ContentTopic = req_Topic r,
      js_Message = (if mc_MessageType (req_MessageContext r) \<noteq> V3Welcome then req_EncryptedMessage r else []),
      js_MessageContext = req_MessageContext r,
      js_Installation = req_Installation r,
      js_Subscription = req_Subscription r,
      js_PayloadFormat = req_PayloadFormat r,
      js_TopicBytesB64 = req_TopicBytesB64 r\<rparr>"

section \<open>Sender HMACs\<close>

definition LibXMTPSenderHmacKeySize :: nat where "LibXMTPSenderHmacKeySize = 42"

definition validSenderHmacKeyLength :: "nat \<Rightarrow> bool" where
  "validSenderHmacKeyLength n \<longleftrightarrow> n = 32 \<or> n = LibXMTPSenderHmacKeySize"

definition HmacKey_IsValid :: "HmacKey \<Rightarrow> bool" where
  "HmacKey_IsValid k \<longleftrightarrow>
     0 \<le> sint (hk_ThirtyDayPeriodsSinceEpoch k) \<and>
     sint (hk_ThirtyDayPeriodsSinceEpoch k) \<le> 2 ^ 31 - 1 \<and>
     validSenderHmacKeyLength (length (hk_Key k))"

definition HasValidSenderHmac :: "MessageContext \<Rightarrow> bool" where
  "HasValidSenderHmac m \<longleftrightarrow>
     (case mc_SenderHmac m of None \<Rightarrow> False | Some h \<Rightarrow> length h = 32) \<and> mc_HmacInputs m \<noteq> None"

definition IsSender :: "MessageContext \<Rightarrow> bytes \<Rightarrow> bool" where
  "IsSender m hmacKey =
     (if \<not> HasValidSenderHmac m \<or> \<not> validSenderHmacKeyLength (length hmacKey) then False
      else (case (mc_SenderHmac m, mc_HmacInputs m) of
              (Some h, Some inputs) \<Rightarrow> h = hmac_sha256 hmacKey inputs
            | _ \<Rightarrow> False))"

section \<open>The durable queue's envelope\<close>

record NotificationEnvelope =
  ne_ID :: int64
  ne_Listener :: bytes
  ne_MessageKey :: bytes
  ne_Payload :: bytes
  ne_Attempts :: int32
  ne_LeaseID :: bytes
  ne_RecipientsPrepared :: bool

section \<open>Marshalled times\<close>

lemma be_word64: "unat (w :: 64 word) < 256 ^ 8"
  using unsigned_less [of w] by simp

text \<open>
  A marshalled time is unambiguous, as long as the seconds since the zero time fit 64 bits (for every
  \<open>time.Time\<close> they do).
\<close>

definition time_in_range :: "zoned_time \<Rightarrow> bool" where
  "time_in_range t \<longleftrightarrow> 0 \<le> zt_instant t - zero_time \<and> zt_instant t - zero_time < 2 ^ 63 * second"

definition time_secs :: "zoned_time \<Rightarrow> nat" where
  "time_secs t = nat ((zt_instant t - zero_time) div second mod 2 ^ 64)"

definition time_nsecs :: "zoned_time \<Rightarrow> nat" where
  "time_nsecs t = nat (zt_instant t mod second)"

lemma time_secs_less: "time_secs t < 256 ^ 8" "time_nsecs t < 256 ^ 4"
proof -
  have "(zt_instant t - zero_time) div second mod 2 ^ 64 < 2 ^ 64"
    by (rule pos_mod_bound) simp
  then show "time_secs t < 256 ^ 8"
    by (simp add: time_secs_def nat_less_iff)
  have "zt_instant t mod second < second"
    by (rule pos_mod_bound) (simp add: second_def)
  then show "time_nsecs t < 256 ^ 4"
    by (simp add: time_nsecs_def nat_less_iff second_def)
qed

lemma instant_from_parts:
  assumes "time_secs t = time_secs u" and "time_nsecs t = time_nsecs u" and "time_in_range t" and "time_in_range u"
  shows "zt_instant t = zt_instant u"
proof -
  have secs: "int (time_secs x) = (zt_instant x - zero_time) div second" if "time_in_range x" for x
  proof -
    have "0 \<le> (zt_instant x - zero_time) div second"
      using that by (intro pos_imp_zdiv_nonneg_iff [THEN iffD2]) (simp_all add: time_in_range_def second_def)
    moreover have "(zt_instant x - zero_time) div second < 2 ^ 64"
    proof -
      have "(zt_instant x - zero_time) div second \<le> (2 ^ 63 * second) div second"
        using that by (intro zdiv_mono1) (simp_all add: time_in_range_def second_def)
      then show ?thesis
        by (simp add: second_def)
    qed
    ultimately show ?thesis
      by (simp add: time_secs_def)
  qed
  have nsecs: "int (time_nsecs x) = (zt_instant x - zero_time) mod second" for x
  proof -
    have "zt_instant x - zero_time = zt_instant x + 62135596800 * second"
      by (simp add: zero_time_def)
    then have "(zt_instant x - zero_time) mod second = zt_instant x mod second"
      by (simp only: mod_mult_self1)
    then show ?thesis
      by (simp add: time_nsecs_def second_def)
  qed
  have "(zt_instant t - zero_time) div second = (zt_instant u - zero_time) div second"
    and "(zt_instant t - zero_time) mod second = (zt_instant u - zero_time) mod second"
    using assms secs nsecs by metis+
  then show ?thesis
    by (metis diff_add_cancel div_mult_mod_eq)
qed

text \<open>The bytes behind the version, the seconds and the nanoseconds determine the offset.\<close>

definition offset_bytes :: "int option \<Rightarrow> bytes option" where
  "offset_bytes z = (case z of
     None \<Rightarrow> Some (be_bytes 2 65535)
   | Some off \<Rightarrow>
       (if go_div off 60 < - 32768 \<or> go_div off 60 = - 1 \<or> 32767 < go_div off 60 then None
        else if go_mod off 60 = 0 then Some (be_bytes 2 (nat (go_div off 60 mod 65536)))
        else Some (be_bytes 2 (nat (go_div off 60 mod 65536)) @ [byte_of (nat (go_mod off 60 mod 256))])))"

lemma marshal_time_parts:
  "marshal_time t = map_option (\<lambda>r. byte_of (if length r = 2 then 1 else 2) #
     be_bytes 8 (time_secs t) @ be_bytes 4 (time_nsecs t) @ r) (offset_bytes (zt_offset t))"
  by (simp add: marshal_time_def offset_bytes_def time_secs_def time_nsecs_def Let_def split: option.split)

lemma mod_65536_inj:
  fixes m n :: int
  assumes "- 32768 \<le> m" "m \<le> 32767" "- 32768 \<le> n" "n \<le> 32767" "m mod 65536 = n mod 65536"
  shows "m = n"
proof -
  have "(m + 32768) mod 65536 = (n + 32768) mod 65536"
    using assms(5) by (rule mod_add_cong) simp
  moreover have "(m + 32768) mod 65536 = m + 32768" "(n + 32768) mod 65536 = n + 32768"
    using assms by (auto intro: mod_pos_pos_trivial)
  ultimately show ?thesis
    by linarith
qed

lemma go_mod_60: "\<bar>go_mod a 60\<bar> < 60" "a = 60 * go_div a 60 + go_mod a 60"
proof -
  show "a = 60 * go_div a 60 + go_mod a 60"
    by (simp add: go_mod_def)
  show "\<bar>go_mod a 60\<bar> < 60"
  proof (cases "0 \<le> a")
    case True
    then have "go_mod a 60 = a mod 60"
      by (cases "a = 0") (simp_all add: go_mod_def go_div_def minus_mult_div_eq_mod)
    then show ?thesis
      by simp
  next
    case False
    then have "go_mod a 60 = - ((- a) - 60 * ((- a) div 60))"
      by (simp add: go_mod_def go_div_def)
    also have "\<dots> = - ((- a) mod 60)"
      by (simp only: minus_mult_div_eq_mod)
    finally have "go_mod a 60 = - ((- a) mod 60)" .
    moreover have "0 \<le> (- a) mod 60" "(- a) mod 60 < 60"
      by simp_all
    ultimately show ?thesis
      by linarith
  qed
qed

lemma mod_256_inj:
  fixes m n :: int
  assumes "\<bar>m\<bar> < 60" "\<bar>n\<bar> < 60" "m mod 256 = n mod 256"
  shows "m = n"
proof -
  have "(m + 128) mod 256 = (n + 128) mod 256"
    using assms(3) by (rule mod_add_cong) simp
  moreover have "(m + 128) mod 256 = m + 128" "(n + 128) mod 256 = n + 128"
    using assms by (auto intro: mod_pos_pos_trivial)
  ultimately show ?thesis
    by linarith
qed

lemma offset_bytes_inj:
  assumes "offset_bytes z = Some r" and "offset_bytes w = Some r"
  shows "z = w"
proof -
  have be: "be_bytes 2 (nat (m mod 65536)) = be_bytes 2 (nat (n mod 65536)) \<longleftrightarrow> m mod 65536 = n mod 65536"
    for m n :: int
    using be_code.enc_eq_iff [of "nat (m mod 65536)" 2 "nat (n mod 65536)"] by (simp add: nat_less_iff eq_nat_nat_iff)
  have utc: "be_bytes 2 65535 \<noteq> be_bytes 2 (nat (m mod 65536))"
    if "- 32768 \<le> m" "m \<le> 32767" "m \<noteq> - 1" for m :: int
    using be [of "- 1" m] mod_65536_inj [of "-1" m] that by auto
  have sec: "byte_of (nat (a mod 256)) = byte_of (nat (b mod 256)) \<longleftrightarrow> a mod 256 = b mod 256" for a b :: int
  proof -
    have "byte_val (byte_of (nat (x mod 256))) = nat (x mod 256)" for x :: int
      by (simp add: nat_less_iff)
    then show ?thesis
      by (metis eq_nat_nat_iff pos_mod_sign zero_less_numeral)
  qed
  have ne: "be_bytes 2 x @ [c] \<noteq> be_bytes 2 y" for x y c
    by (metis append_Nil2 append_eq_append_conv length_be_bytes not_Cons_self2)
  have pair: "a = b" if "offset_bytes (Some a) = Some r" "offset_bytes (Some b) = Some r" for a b
  proof -
    have bounds: "- 32768 \<le> go_div x 60" "go_div x 60 \<le> 32767" if "offset_bytes (Some x) = Some r" for x
      using that by (auto simp: offset_bytes_def split: if_splits)
    define tail where "tail x = (if go_mod x 60 = 0 then [] else [byte_of (nat (go_mod x 60 mod 256))])" for x
    have r: "r = be_bytes 2 (nat (go_div x 60 mod 65536)) @ tail x" if "offset_bytes (Some x) = Some r" for x
      using that by (auto simp: offset_bytes_def tail_def split: if_splits)
    have less: "nat (x mod 65536) < 256 ^ 2" for x :: int
      by (simp add: nat_less_iff)
    have "nat (go_div a 60 mod 65536) = nat (go_div b 60 mod 65536) \<and> tail a = tail b"
      using r [OF that(1)] r [OF that(2)] by (intro be_code.prefix_free [OF less less]) simp
    then have "go_div a 60 mod 65536 = go_div b 60 mod 65536 \<and> go_mod a 60 mod 256 = go_mod b 60 mod 256"
      by (simp add: tail_def sec eq_nat_nat_iff split: if_splits)
    then have "go_div a 60 = go_div b 60 \<and> go_mod a 60 = go_mod b 60"
      using mod_65536_inj [OF bounds [OF that(1)] bounds [OF that(2)]]
        mod_256_inj [OF go_mod_60(1) [of a] go_mod_60(1) [of b]] by simp
    then show "a = b"
      using go_mod_60(2) by metis
  qed
  have mixed: "offset_bytes (Some a) \<noteq> offset_bytes None" for a
    using ne utc [of "go_div a 60"] by (auto simp: offset_bytes_def)
  show ?thesis
    using assms pair mixed by (metis not_None_eq)
qed

lemma offset_bytes_length: "offset_bytes z = Some r \<Longrightarrow> length r = 2 \<or> length r = 3"
  by (auto simp: offset_bytes_def split: option.splits if_splits)

theorem marshal_time_inj:
  assumes "marshal_time t = Some b" and "marshal_time u = Some b" and "time_in_range t" and "time_in_range u"
  shows "t = u"
proof -
  obtain r q where r: "offset_bytes (zt_offset t) = Some r" and q: "offset_bytes (zt_offset u) = Some q"
    and eq: "be_bytes 8 (time_secs t) @ be_bytes 4 (time_nsecs t) @ r =
      be_bytes 8 (time_secs u) @ be_bytes 4 (time_nsecs u) @ q"
    using assms(1,2) by (auto simp: marshal_time_parts)
  have secs: "time_secs t = time_secs u \<and>
      be_bytes 4 (time_nsecs t) @ r = be_bytes 4 (time_nsecs u) @ q"
    by (rule be_code.prefix_free [OF time_secs_less(1) time_secs_less(1) eq])
  then have "time_nsecs t = time_nsecs u \<and> r = q"
    by (intro be_code.prefix_free [OF time_secs_less(2) time_secs_less(2)]) simp
  then have "zt_instant t = zt_instant u" "zt_offset t = zt_offset u"
    using secs instant_from_parts assms(3,4) offset_bytes_inj r q by blast+
  then show "t = u"
    by simp
qed

end
