(* ===== verification/Notification_Queue.thy ===== *)
theory Notification_Queue
  imports Interfaces
begin

text \<open>
  The durable notification queue: the tables of migration 15, the SQL statements of
  \<open>src/pkg/db/queries/notification_queue.sql.go\<close> as functions on them, and the store of
  \<open>src/pkg/notificationqueue/queue.go\<close> on top.

  A statement runs at one instant of the database clock, its argument \<open>now\<close>. Every call of the
  database may fail, or take effect and still report an error (a lost acknowledgement); which of these
  happens is the argument \<open>db_outcome\<close>, so that the theorems cover all of them. New lease
  identifiers are arguments too. The lines \<open>Maintain\<close> writes to the log are not modelled.

  The lemmas: the table constraints and the admission quota hold in every run, an envelope is claimed
  at most twelve times, a decided recipient stays decided, a lost lease changes nothing, and an expired
  envelope is retired.
\<close>

section \<open>Tables\<close>

text \<open>A timestamp column: \<open>None\<close> is \<open>'-infinity'\<close>.\<close>

type_synonym timestamptz = "time option"

definition ts_before :: "timestamptz \<Rightarrow> time \<Rightarrow> bool" where
  "ts_before u now = (case u of None \<Rightarrow> True | Some t \<Rightarrow> t < now)"

definition ts_after :: "timestamptz \<Rightarrow> time \<Rightarrow> bool" where
  "ts_after u now = (case u of None \<Rightarrow> False | Some t \<Rightarrow> now < t)"

record env_row =
  er_id :: int64
  er_listener :: bytes
  er_message_key :: bytes
  er_payload :: bytes
  er_status :: bytes
  er_created_at :: time
  er_next_attempt_at :: time
  er_attempts :: int32
  er_lease_id :: bytes
  er_lease_until :: timestamptz
  er_failure_class :: bytes
  er_recipients_prepared :: bool

record receipt_row =
  rr_envelope_id :: int64
  rr_installation_id :: bytes
  rr_status :: bytes
  rr_lease_id :: bytes
  rr_lease_until :: timestamptz
  rr_failure_class :: bytes

text \<open>\<open>qd_next_id\<close> is the sequence behind the identifiers.\<close>

record queue_db =
  qd_envelopes :: "env_row list"
  qd_receipts :: "receipt_row list"
  qd_next_id :: nat

definition empty_queue :: queue_db where
  "empty_queue = \<lparr>qd_envelopes = [], qd_receipts = [], qd_next_id = 1\<rparr>"

definition update_where :: "('a \<Rightarrow> bool) \<Rightarrow> ('a \<Rightarrow> 'a) \<Rightarrow> 'a list \<Rightarrow> 'a list" where
  "update_where P f rows = map (\<lambda>r. if P r then f r else r) rows"

definition rows_where :: "('a \<Rightarrow> bool) \<Rightarrow> 'a list \<Rightarrow> nat" where
  "rows_where P rows = length (filter P rows)"

section \<open>Statements\<close>

definition day :: duration where "day = 24 * hour"

definition NotificationEnvelopeExists :: "bytes \<Rightarrow> bytes \<Rightarrow> queue_db \<Rightarrow> bool" where
  "NotificationEnvelopeExists listener key db =
     list_ex (\<lambda>e. er_listener e = listener \<and> er_message_key e = key) (qd_envelopes db)"

definition charged :: "env_row \<Rightarrow> bool" where
  "charged e \<longleftrightarrow> er_status e = ''pending'' \<or> er_failure_class e = ''oversized''"

definition charge :: "env_row \<Rightarrow> int" where
  "charge e = int (length (er_payload e)) + (if er_failure_class e = ''oversized'' then 512 else 0)"

definition NotificationPendingCapacity :: "queue_db \<Rightarrow> int \<times> int" where
  "NotificationPendingCapacity db =
     (int (rows_where charged (qd_envelopes db)), sum_list (map charge (filter charged (qd_envelopes db))))"

text \<open>
  An insert draws the next identifier; the sequence ends at the largest \<open>BIGINT\<close>. On a conflict of
  listener and key nothing is inserted.
\<close>

definition new_row :: "int64 \<Rightarrow> time \<Rightarrow> bytes \<Rightarrow> bytes \<Rightarrow> bytes \<Rightarrow> bytes \<Rightarrow> bytes \<Rightarrow> env_row" where
  "new_row i now listener key payload status failureClass =
     \<lparr>er_id = i, er_listener = listener, er_message_key = key, er_payload = payload, er_status = status,
      er_created_at = now, er_next_attempt_at = now, er_attempts = 0, er_lease_id = [], er_lease_until = None,
      er_failure_class = failureClass, er_recipients_prepared = False\<rparr>"

definition insert_envelope :: "time \<Rightarrow> bytes \<Rightarrow> bytes \<Rightarrow> bytes \<Rightarrow> bytes \<Rightarrow> bytes \<Rightarrow> queue_db \<Rightarrow> queue_db option" where
  "insert_envelope now listener key payload status failureClass db =
     (if \<not> qd_next_id db < 2 ^ 63 then None
      else if NotificationEnvelopeExists listener key db then Some (db\<lparr>qd_next_id := qd_next_id db + 1\<rparr>)
      else Some (db\<lparr>qd_next_id := qd_next_id db + 1,
        qd_envelopes := qd_envelopes db @
          [new_row (word_of_nat (qd_next_id db)) now listener key payload status failureClass]\<rparr>))"

definition EnqueueNotificationEnvelope :: "time \<Rightarrow> bytes \<Rightarrow> bytes \<Rightarrow> bytes \<Rightarrow> queue_db \<Rightarrow> queue_db option" where
  "EnqueueNotificationEnvelope now listener key payload = insert_envelope now listener key payload ''pending'' []"

definition RecordRejectedNotificationEnvelope :: "time \<Rightarrow> bytes \<Rightarrow> bytes \<Rightarrow> bytes \<Rightarrow> queue_db \<Rightarrow> queue_db option" where
  "RecordRejectedNotificationEnvelope now listener key failureClass = insert_envelope now listener key [] ''dead'' failureClass"

text \<open>
  The claim: the first claimable row that no other transaction has locked, in the order of next
  attempt and identifier.
\<close>

definition claimable :: "time \<Rightarrow> bytes \<Rightarrow> env_row \<Rightarrow> bool" where
  "claimable now listener e \<longleftrightarrow>
     er_listener e = listener \<and> er_status e = ''pending'' \<and> sint (er_attempts e) < 12 \<and>
     now - day \<le> er_created_at e \<and> er_next_attempt_at e \<le> now \<and> ts_before (er_lease_until e) now"

definition claimed_before :: "env_row \<Rightarrow> env_row \<Rightarrow> bool" where
  "claimed_before a b \<longleftrightarrow> er_next_attempt_at a < er_next_attempt_at b \<or>
     (er_next_attempt_at a = er_next_attempt_at b \<and> sint (er_id a) \<le> sint (er_id b))"

fun first_row :: "env_row list \<Rightarrow> env_row option" where
  "first_row [] = None"
| "first_row (e # es) = (case first_row es of
     None \<Rightarrow> Some e
   | Some f \<Rightarrow> if claimed_before e f then Some e else Some f)"

definition take_lease :: "time \<Rightarrow> bytes \<Rightarrow> env_row \<Rightarrow> env_row" where
  "take_lease now leaseID e =
     e\<lparr>er_attempts := er_attempts e + 1, er_lease_id := leaseID, er_lease_until := Some (now + 90 * second)\<rparr>"

definition ClaimNotificationEnvelope ::
    "time \<Rightarrow> (int64 \<Rightarrow> bool) \<Rightarrow> bytes \<Rightarrow> bytes \<Rightarrow> queue_db \<Rightarrow> queue_db \<times> env_row option" where
  "ClaimNotificationEnvelope now locked leaseID listener db =
     (case first_row (filter (\<lambda>e. claimable now listener e \<and> \<not> locked (er_id e)) (qd_envelopes db)) of
        None \<Rightarrow> (db, None)
      | Some candidate \<Rightarrow>
          (db\<lparr>qd_envelopes := update_where (\<lambda>e. er_id e = er_id candidate) (take_lease now leaseID) (qd_envelopes db)\<rparr>,
           Some (take_lease now leaseID candidate)))"

text \<open>The row an envelope lease is held on.\<close>

definition leased :: "time \<Rightarrow> int64 \<Rightarrow> bytes \<Rightarrow> env_row \<Rightarrow> bool" where
  "leased now i leaseID e \<longleftrightarrow>
     er_id e = i \<and> er_lease_id e = leaseID \<and> er_status e = ''pending'' \<and> ts_after (er_lease_until e) now"

definition RenewNotificationLease :: "time \<Rightarrow> int64 \<Rightarrow> bytes \<Rightarrow> queue_db \<Rightarrow> queue_db \<times> nat" where
  "RenewNotificationLease now i leaseID db =
     (db\<lparr>qd_envelopes := update_where (leased now i leaseID) (\<lambda>e. e\<lparr>er_lease_until := Some (now + 90 * second)\<rparr>)
        (qd_envelopes db)\<rparr>, rows_where (leased now i leaseID) (qd_envelopes db))"

definition finish_row :: "time \<Rightarrow> bytes \<Rightarrow> int \<Rightarrow> bytes \<Rightarrow> env_row \<Rightarrow> env_row" where
  "finish_row now status delaySeconds failureClass e =
     e\<lparr>er_status := status, er_payload := (if status = ''pending'' then er_payload e else []),
       er_next_attempt_at := now + delaySeconds * second, er_failure_class := failureClass,
       er_lease_id := [], er_lease_until := None\<rparr>"

definition FinishNotificationEnvelope ::
    "time \<Rightarrow> bytes \<Rightarrow> int \<Rightarrow> bytes \<Rightarrow> int64 \<Rightarrow> bytes \<Rightarrow> queue_db \<Rightarrow> queue_db \<times> nat" where
  "FinishNotificationEnvelope now status delaySeconds failureClass i leaseID db =
     (db\<lparr>qd_envelopes := update_where (leased now i leaseID) (finish_row now status delaySeconds failureClass)
        (qd_envelopes db)\<rparr>, rows_where (leased now i leaseID) (qd_envelopes db))"

definition holds_lease :: "time \<Rightarrow> int64 \<Rightarrow> bytes \<Rightarrow> queue_db \<Rightarrow> bool" where
  "holds_lease now i leaseID db = list_ex (leased now i leaseID) (qd_envelopes db)"

definition recipient :: "int64 \<Rightarrow> bytes \<Rightarrow> receipt_row \<Rightarrow> bool" where
  "recipient i installationID r \<longleftrightarrow> rr_envelope_id r = i \<and> rr_installation_id r = installationID"

definition ClaimNotificationRecipient ::
    "time \<Rightarrow> bytes \<Rightarrow> int64 \<Rightarrow> bytes \<Rightarrow> bytes \<Rightarrow> queue_db \<Rightarrow> queue_db \<times> bytes option" where
  "ClaimNotificationRecipient now leaseID i installationID envelopeLease db =
     (let free = (\<lambda>r. recipient i installationID r \<and> rr_status r = ''pending'' \<and> ts_before (rr_lease_until r) now) in
      if holds_lease now i envelopeLease db \<and> list_ex free (qd_receipts db) then
        (db\<lparr>qd_receipts := update_where free
           (\<lambda>r. r\<lparr>rr_lease_id := leaseID, rr_lease_until := Some (now + 30 * second)\<rparr>) (qd_receipts db)\<rparr>, Some leaseID)
      else (db, None))"

definition GetNotificationRecipientStatus :: "int64 \<Rightarrow> bytes \<Rightarrow> queue_db \<Rightarrow> bytes option" where
  "GetNotificationRecipientStatus i installationID db =
     map_option rr_status (find (recipient i installationID) (qd_receipts db))"

definition FinishNotificationRecipient ::
    "time \<Rightarrow> bytes \<Rightarrow> bytes \<Rightarrow> int64 \<Rightarrow> bytes \<Rightarrow> bytes \<Rightarrow> bytes \<Rightarrow> queue_db \<Rightarrow> queue_db \<times> nat" where
  "FinishNotificationRecipient now status failureClass i installationID ticket envelopeLease db =
     (let held = (\<lambda>r. recipient i installationID r \<and> rr_lease_id r = ticket \<and> rr_status r = ''pending'' \<and>
          ts_after (rr_lease_until r) now \<and> holds_lease now i envelopeLease db) in
      (db\<lparr>qd_receipts := update_where held
         (\<lambda>r. r\<lparr>rr_status := status, rr_failure_class := failureClass, rr_lease_until := None\<rparr>) (qd_receipts db)\<rparr>,
       rows_where held (qd_receipts db)))"

text \<open>
  The initial recipients: the envelope is marked prepared, at most once, and gets one receipt per
  distinct installation it has none for yet.
\<close>

definition new_receipt :: "int64 \<Rightarrow> bytes \<Rightarrow> receipt_row" where
  "new_receipt i installationID =
     \<lparr>rr_envelope_id = i, rr_installation_id = installationID, rr_status = ''pending'', rr_lease_id = [],
      rr_lease_until = None, rr_failure_class = []\<rparr>"

definition PrepareNotificationRecipients :: "time \<Rightarrow> bytes list \<Rightarrow> int64 \<Rightarrow> bytes \<Rightarrow> queue_db \<Rightarrow> queue_db" where
  "PrepareNotificationRecipients now ids i envelopeLease db =
     (let fresh = (\<lambda>e. leased now i envelopeLease e \<and> \<not> er_recipients_prepared e) in
      if list_ex fresh (qd_envelopes db) then
        db\<lparr>qd_envelopes := update_where fresh (\<lambda>e. e\<lparr>er_recipients_prepared := True\<rparr>) (qd_envelopes db),
           qd_receipts := qd_receipts db @
             map (new_receipt i) (filter (\<lambda>inst. \<not> list_ex (recipient i inst) (qd_receipts db)) (remdups ids))\<rparr>
      else db)"

definition ExpireNotificationEnvelopes :: "time \<Rightarrow> queue_db \<Rightarrow> queue_db" where
  "ExpireNotificationEnvelopes now db =
     db\<lparr>qd_envelopes := update_where
       (\<lambda>e. er_status e = ''pending'' \<and> ts_before (er_lease_until e) now \<and>
          (er_created_at e < now - day \<or> 12 \<le> sint (er_attempts e)))
       (\<lambda>e. e\<lparr>er_status := ''dead'', er_payload := [], er_failure_class := ''expired'', er_lease_id := [],
          er_lease_until := None\<rparr>) (qd_envelopes db)\<rparr>"

text \<open>Deleting an envelope deletes its receipts, by the foreign key.\<close>

definition PurgeNotificationReceipts :: "time \<Rightarrow> queue_db \<Rightarrow> queue_db" where
  "PurgeNotificationReceipts now db =
     (let kept = filter (\<lambda>e. \<not> (er_status e \<noteq> ''pending'' \<and> er_created_at e < now - 7 * day)) (qd_envelopes db) in
      db\<lparr>qd_envelopes := kept, qd_receipts := filter (\<lambda>r. rr_envelope_id r \<in> er_id ` set kept) (qd_receipts db)\<rparr>)"

section \<open>The store\<close>

text \<open>A call of the database succeeds, fails, or takes effect although an error is reported.\<close>

datatype db_outcome = DbOk | DbFailed | DbUncertain

datatype queue_error =
    ErrLeaseLost | ErrRecipientBusy | ErrInvalidNotificationEnvelope | ErrNotificationEnvelopeTooLarge
  | ErrNotificationRecipientLimit | ErrQueueAtCapacity | ErrInvalidOutcome | ErrInvalidFailureClass
  | ErrMissingInstallation | ErrInvalidReceiptStatus | ErrDatabase

text \<open>\<open>errors.Is(err, ErrInvalidNotificationEnvelope)\<close>: the size error wraps it.\<close>

definition is_invalid_envelope :: "queue_error \<Rightarrow> bool" where
  "is_invalid_envelope e \<longleftrightarrow> e = ErrInvalidNotificationEnvelope \<or> e = ErrNotificationEnvelopeTooLarge"

definition exec :: "db_outcome \<Rightarrow> (queue_db \<Rightarrow> queue_db \<times> 'a) \<Rightarrow> queue_db \<Rightarrow> queue_db \<times> (queue_error + 'a)" where
  "exec outcome stmt db = (case outcome of
     DbOk \<Rightarrow> (fst (stmt db), Inr (snd (stmt db)))
   | DbFailed \<Rightarrow> (db, Inl ErrDatabase)
   | DbUncertain \<Rightarrow> (fst (stmt db), Inl ErrDatabase))"

definition RunInTx :: "db_outcome \<Rightarrow> (queue_db \<Rightarrow> queue_error + queue_db) \<Rightarrow> queue_db \<Rightarrow> queue_db \<times> queue_error option" where
  "RunInTx outcome fn db =
     (if outcome = DbFailed then (db, Some ErrDatabase)
      else (case fn db of
          Inl e \<Rightarrow> (db, Some e)
        | Inr db' \<Rightarrow> (db', if outcome = DbUncertain then Some ErrDatabase else None)))"

definition MaxAttempts :: int32 where "MaxAttempts = 12"
definition MaxEnvelopeBytes :: nat where "MaxEnvelopeBytes = 2 * 1024 * 1024"
definition MaxRecipients :: nat where "MaxRecipients = 10000"
definition rejectedEnvelopeMetadataBytes :: int where "rejectedEnvelopeMetadataBytes = 512"

definition of_stmt :: "queue_db option \<Rightarrow> queue_error + queue_db" where
  "of_stmt r = (case r of None \<Rightarrow> Inl ErrDatabase | Some db \<Rightarrow> Inr db)"

definition enqueue_tx :: "time \<Rightarrow> bytes \<Rightarrow> bytes \<Rightarrow> bytes \<Rightarrow> queue_db \<Rightarrow> queue_error + queue_db" where
  "enqueue_tx now listener key payload db =
     (let oversized = MaxEnvelopeBytes < length payload;
          (pending_count, pending_bytes) = NotificationPendingCapacity db;
          chargedBytes = (if oversized then rejectedEnvelopeMetadataBytes else int (length payload))
      in if NotificationEnvelopeExists listener key db then Inr db
         else if 100000 \<le> pending_count \<or> 512 * 1024 * 1024 < pending_bytes + chargedBytes then Inl ErrQueueAtCapacity
         else if oversized then of_stmt (RecordRejectedNotificationEnvelope now listener key ''oversized'' db)
         else of_stmt (EnqueueNotificationEnvelope now listener key payload db))"

definition Enqueue :: "db_outcome \<Rightarrow> time \<Rightarrow> bytes \<Rightarrow> bytes \<Rightarrow> bytes \<Rightarrow> queue_db \<Rightarrow> queue_db \<times> queue_error option" where
  "Enqueue outcome now listener key payload db =
     (if (listener \<noteq> ''v3'' \<and> listener \<noteq> ''v4'') \<or> key = [] \<or> 128 < length key \<or> payload = [] then
        (db, Some ErrInvalidNotificationEnvelope)
      else (case RunInTx outcome (enqueue_tx now listener key payload) db of
          (db', Some e) \<Rightarrow> (db', Some e)
        | (db', None) \<Rightarrow> (db', if MaxEnvelopeBytes < length payload then Some ErrNotificationEnvelopeTooLarge else None)))"

definition envelope_of :: "env_row \<Rightarrow> NotificationEnvelope" where
  "envelope_of e = \<lparr>ne_ID = er_id e, ne_Listener = er_listener e, ne_MessageKey = er_message_key e,
     ne_Payload = er_payload e, ne_Attempts = er_attempts e, ne_LeaseID = er_lease_id e,
     ne_RecipientsPrepared = er_recipients_prepared e\<rparr>"

definition Claim :: "db_outcome \<Rightarrow> time \<Rightarrow> (int64 \<Rightarrow> bool) \<Rightarrow> bytes \<Rightarrow> bytes \<Rightarrow> queue_db \<Rightarrow>
    queue_db \<times> (queue_error + NotificationEnvelope option)" where
  "Claim outcome now locked leaseID listener db =
     (case exec outcome (ClaimNotificationEnvelope now locked leaseID listener) db of
        (db', Inl e) \<Rightarrow> (db', Inl e)
      | (db', Inr row) \<Rightarrow> (db', Inr (map_option envelope_of row)))"

definition checkLease :: "queue_db \<times> (queue_error + nat) \<Rightarrow> queue_db \<times> queue_error option" where
  "checkLease r = (fst r, (case snd r of Inl e \<Rightarrow> Some e | Inr n \<Rightarrow> if n \<noteq> 1 then Some ErrLeaseLost else None))"

definition Renew :: "db_outcome \<Rightarrow> time \<Rightarrow> NotificationEnvelope \<Rightarrow> queue_db \<Rightarrow> queue_db \<times> queue_error option" where
  "Renew outcome now env db = checkLease (exec outcome (RenewNotificationLease now (ne_ID env) (ne_LeaseID env)) db)"

definition retryDelay :: "int32 \<Rightarrow> int32" where
  "retryDelay attempt =
     (let low = (if sint attempt < 1 then 1 else attempt);
          capped = (if sint MaxAttempts < sint low then MaxAttempts else low);
          delay = push_bit (unat (capped - 1)) 5
      in if 3600 < sint delay then 3600 else delay)"

definition validFailureClass :: "bytes \<Rightarrow> bool" where
  "validFailureClass v \<longleftrightarrow> v \<in> {[], ''provider_transient'', ''provider_permanent'', ''token_cleanup'', ''processing'',
     ''invalid_envelope'', ''suppressed'', ''no_provider'', ''recipient_limit'', ''processing_panic''}"

definition Finish :: "db_outcome \<Rightarrow> time \<Rightarrow> NotificationEnvelope \<Rightarrow> bytes \<Rightarrow> bytes \<Rightarrow> queue_db \<Rightarrow> queue_db \<times> queue_error option" where
  "Finish outcome now env result failureClass db =
     (if result \<noteq> ''pending'' \<and> result \<noteq> ''complete'' \<and> result \<noteq> ''dead'' then (db, Some ErrInvalidOutcome)
      else let status = (if result = ''complete'' then ''complete''
                 else if result = ''dead'' \<or> sint MaxAttempts \<le> sint (ne_Attempts env) then ''dead'' else ''pending'');
               class = (if result = ''complete'' then [] else failureClass)
           in if \<not> validFailureClass class then (db, Some ErrInvalidFailureClass)
              else checkLease (exec outcome (FinishNotificationEnvelope now status (sint (retryDelay (ne_Attempts env))) class
                (ne_ID env) (ne_LeaseID env)) db))"

definition PrepareRecipients :: "db_outcome \<Rightarrow> time \<Rightarrow> NotificationEnvelope \<Rightarrow> bytes list \<Rightarrow> queue_db \<Rightarrow> queue_db \<times> queue_error option" where
  "PrepareRecipients outcome now env ids db =
     (if ne_RecipientsPrepared env then (db, None)
      else if MaxRecipients < length ids then (db, Some ErrNotificationRecipientLimit)
      else (case exec outcome (\<lambda>db. (PrepareNotificationRecipients now ids (ne_ID env) (ne_LeaseID env) db, ())) db of
          (db', Inl e) \<Rightarrow> (db', Some e)
        | (db', Inr _) \<Rightarrow> (db', None)))"

definition ClaimRecipient :: "db_outcome \<Rightarrow> db_outcome \<Rightarrow> time \<Rightarrow> bytes \<Rightarrow> NotificationEnvelope \<Rightarrow> bytes \<Rightarrow> queue_db \<Rightarrow>
    queue_db \<times> (queue_error + bytes \<times> bool)" where
  "ClaimRecipient outcome outcome2 now ticket env installationID db =
     (if installationID = [] then (db, Inl ErrMissingInstallation)
      else (case exec outcome (ClaimNotificationRecipient now ticket (ne_ID env) installationID (ne_LeaseID env)) db of
          (db', Inl e) \<Rightarrow> (db', Inl e)
        | (db', Inr (Some _)) \<Rightarrow> (db', Inr (ticket, False))
        | (db', Inr None) \<Rightarrow>
            (case exec outcome2 (\<lambda>db. (db, GetNotificationRecipientStatus (ne_ID env) installationID db)) db' of
               (db'', Inl e) \<Rightarrow> (db'', Inl e)
             | (db'', Inr None) \<Rightarrow> (db'', Inr ([], True))
             | (db'', Inr (Some status)) \<Rightarrow>
                 if status = ''accepted'' \<or> status = ''rejected'' then (db'', Inr ([], True))
                 else (db'', Inl ErrRecipientBusy))))"

definition FinishRecipient :: "db_outcome \<Rightarrow> time \<Rightarrow> NotificationEnvelope \<Rightarrow> bytes \<Rightarrow> bytes \<Rightarrow> bytes \<Rightarrow> bytes \<Rightarrow> queue_db \<Rightarrow>
    queue_db \<times> queue_error option" where
  "FinishRecipient outcome now env installationID ticket status failureClass db =
     (if status \<noteq> ''pending'' \<and> status \<noteq> ''accepted'' \<and> status \<noteq> ''rejected'' then (db, Some ErrInvalidReceiptStatus)
      else if \<not> validFailureClass failureClass then (db, Some ErrInvalidFailureClass)
      else checkLease (exec outcome (FinishNotificationRecipient now status failureClass (ne_ID env) installationID ticket
        (ne_LeaseID env)) db))"

definition Maintain :: "db_outcome \<Rightarrow> db_outcome \<Rightarrow> db_outcome \<Rightarrow> time \<Rightarrow> queue_db \<Rightarrow> queue_db \<times> queue_error option" where
  "Maintain outcome outcome2 outcome3 now db =
     (case exec outcome (\<lambda>db. (ExpireNotificationEnvelopes now db, ())) db of
        (db', Inl e) \<Rightarrow> (db', Some e)
      | (db', Inr _) \<Rightarrow>
          (case exec outcome2 (\<lambda>db. (PurgeNotificationReceipts now db, ())) db' of
             (db'', Inl e) \<Rightarrow> (db'', Some e)
           | (db'', Inr _) \<Rightarrow> (db'', if outcome3 = DbOk then None else Some ErrDatabase)))"

section \<open>Runs\<close>

text \<open>The calls of any number of workers, in the order they reach the database.\<close>

datatype queue_op =
    OpEnqueue db_outcome time bytes bytes bytes
  | OpClaim db_outcome time "int64 \<Rightarrow> bool" bytes bytes
  | OpRenew db_outcome time NotificationEnvelope
  | OpFinish db_outcome time NotificationEnvelope bytes bytes
  | OpPrepare db_outcome time NotificationEnvelope "bytes list"
  | OpClaimRecipient db_outcome db_outcome time bytes NotificationEnvelope bytes
  | OpFinishRecipient db_outcome time NotificationEnvelope bytes bytes bytes bytes
  | OpMaintain db_outcome db_outcome db_outcome time

fun queue_step :: "queue_op \<Rightarrow> queue_db \<Rightarrow> queue_db" where
  "queue_step (OpEnqueue out now listener key payload) db = fst (Enqueue out now listener key payload db)"
| "queue_step (OpClaim out now locked leaseID listener) db = fst (Claim out now locked leaseID listener db)"
| "queue_step (OpRenew out now env) db = fst (Renew out now env db)"
| "queue_step (OpFinish out now env result class) db = fst (Finish out now env result class db)"
| "queue_step (OpPrepare out now env ids) db = fst (PrepareRecipients out now env ids db)"
| "queue_step (OpClaimRecipient out out2 now ticket env inst) db = fst (ClaimRecipient out out2 now ticket env inst db)"
| "queue_step (OpFinishRecipient out now env inst ticket status class) db =
     fst (FinishRecipient out now env inst ticket status class db)"
| "queue_step (OpMaintain out out2 out3 now) db = fst (Maintain out out2 out3 now db)"

definition queue_run :: "queue_op list \<Rightarrow> queue_db \<Rightarrow> queue_db" where
  "queue_run ops db = fold queue_step ops db"

lemma queue_run_simps [simp]: "queue_run [] db = db" "queue_run (x # ops) db = queue_run ops (queue_step x db)"
  by (simp_all add: queue_run_def)

text \<open>
  The effects the calls can have on the tables, when the new lease identifiers are drawn from a given
  set.
\<close>

inductive db_step :: "(bytes \<Rightarrow> bool) \<Rightarrow> queue_db \<Rightarrow> queue_db \<Rightarrow> bool" for drawn where
  idle: "db_step drawn db db"
| admit: "enqueue_tx now listener key payload db = Inr db' \<Longrightarrow> listener = ''v3'' \<or> listener = ''v4'' \<Longrightarrow>
    key \<noteq> [] \<Longrightarrow> length key \<le> 128 \<Longrightarrow> db_step drawn db db'"
| claim: "drawn leaseID \<Longrightarrow> db_step drawn db (fst (ClaimNotificationEnvelope now locked leaseID listener db))"
| renew: "db_step drawn db (fst (RenewNotificationLease now i leaseID db))"
| finish: "status \<in> {''pending'', ''complete'', ''dead''} \<Longrightarrow> validFailureClass class \<Longrightarrow>
    db_step drawn db (fst (FinishNotificationEnvelope now status delay class i leaseID db))"
| prepare: "db_step drawn db (PrepareNotificationRecipients now ids i leaseID db)"
| claim_recipient: "db_step drawn db (fst (ClaimNotificationRecipient now ticket i inst leaseID db))"
| finish_recipient: "status \<in> {''pending'', ''accepted'', ''rejected''} \<Longrightarrow>
    db_step drawn db (fst (FinishNotificationRecipient now status class i inst ticket leaseID db))"
| expire: "db_step drawn db (ExpireNotificationEnvelopes now db)"
| purge: "db_step drawn db (PurgeNotificationReceipts now db)"

lemma exec_effect: "db_step drawn db (fst (stmt db)) \<Longrightarrow> db_step drawn db (fst (exec out stmt db))"
  by (cases out) (simp_all add: exec_def idle)

lemma Enqueue_effect: "db_step drawn db (fst (Enqueue out now listener key payload db))"
proof (cases "(listener \<noteq> ''v3'' \<and> listener \<noteq> ''v4'') \<or> key = [] \<or> 128 < length key \<or> payload = []")
  case False
  then show ?thesis
    by (cases "enqueue_tx now listener key payload db") (auto simp: Enqueue_def RunInTx_def idle intro: admit)
qed (auto simp: Enqueue_def idle)

lemma Claim_fst: "fst (Claim out now locked leaseID listener db) = fst (exec out (ClaimNotificationEnvelope now locked leaseID listener) db)"
  by (simp add: Claim_def split: prod.split sum.split)

lemma Finish_effect: "db_step drawn db (fst (Finish out now env result class db))"
  by (auto simp: Finish_def Let_def checkLease_def idle intro!: exec_effect finish)

lemma PrepareRecipients_effect: "db_step drawn db (fst (PrepareRecipients out now env ids db))"
proof -
  have "db_step drawn db (fst (exec out (\<lambda>db. (PrepareNotificationRecipients now ids i l db, ())) db))" for i l
    by (rule exec_effect) (simp add: prepare)
  then show ?thesis
    by (auto simp: PrepareRecipients_def idle split: prod.split sum.split) (metis fst_conv)+
qed

lemma ClaimRecipient_fst:
  "fst (ClaimRecipient out out2 now ticket env inst db) =
   (if inst = [] then db else fst (exec out (ClaimNotificationRecipient now ticket (ne_ID env) inst (ne_LeaseID env)) db))"
  by (cases out2) (auto simp: ClaimRecipient_def exec_def split: prod.split sum.split option.split db_outcome.split)

lemma ClaimRecipient_effect: "db_step drawn db (fst (ClaimRecipient out out2 now ticket env inst db))"
  by (simp add: ClaimRecipient_fst idle exec_effect claim_recipient)

lemma FinishRecipient_effect: "db_step drawn db (fst (FinishRecipient out now env inst ticket status class db))"
  by (auto simp: FinishRecipient_def checkLease_def idle intro!: exec_effect finish_recipient)

lemma Maintain_effect: "(db_step drawn)\<^sup>*\<^sup>* db (fst (Maintain out out2 out3 now db))"
  by (cases out; cases out2)
    (auto simp: Maintain_def exec_def intro: r_into_rtranclp rtranclp_trans [OF r_into_rtranclp r_into_rtranclp] expire purge)

fun draws_from :: "(bytes \<Rightarrow> bool) \<Rightarrow> queue_op \<Rightarrow> bool" where
  "draws_from drawn (OpClaim out now locked leaseID listener) = drawn leaseID"
| "draws_from drawn _ = True"

lemma queue_step_effect: "draws_from drawn op \<Longrightarrow> (db_step drawn)\<^sup>*\<^sup>* db (queue_step op db)"
  by (cases op)
    (simp_all add: Maintain_effect r_into_rtranclp Enqueue_effect Claim_fst exec_effect claim renew Renew_def checkLease_def
      Finish_effect PrepareRecipients_effect ClaimRecipient_effect FinishRecipient_effect)

lemma queue_run_effect: "list_all (draws_from drawn) ops \<Longrightarrow> (db_step drawn)\<^sup>*\<^sup>* db (queue_run ops db)"
  by (induction ops arbitrary: db) (simp_all, metis queue_step_effect rtranclp_trans)

text \<open>An invariant of the effects is an invariant of every run.\<close>

lemma queue_run_invariant_drawn:
  assumes "P db" and "list_all (draws_from drawn) ops" and "\<And>db db'. P db \<Longrightarrow> db_step drawn db db' \<Longrightarrow> P db'"
  shows "P (queue_run ops db)"
  using queue_run_effect [OF assms(2), of db] assms(1,3) by (induction rule: rtranclp_induct) auto

lemma draws_from_any: "draws_from (\<lambda>_. True) op"
  by (cases op) simp_all

lemma queue_run_invariant:
  assumes "P db" and "\<And>db db'. P db \<Longrightarrow> db_step (\<lambda>_. True) db db' \<Longrightarrow> P db'"
  shows "P (queue_run ops db)"
  using queue_run_invariant_drawn [where P = P and drawn = "\<lambda>_. True"] assms by (simp add: list_all_iff draws_from_any)

section \<open>The table constraints and the admission quota\<close>

text \<open>
  What the tables promise: the checks of the migration, and that only a pending row carries a payload or
  a lease, and that an oversized frame is dead.
\<close>

definition row_ok :: "env_row \<Rightarrow> bool" where
  "row_ok e \<longleftrightarrow> er_listener e \<in> {''v3'', ''v4''} \<and> er_message_key e \<noteq> [] \<and> length (er_message_key e) \<le> 128 \<and>
     length (er_payload e) \<le> 2097152 \<and> er_status e \<in> {''pending'', ''complete'', ''dead''} \<and> unat (er_attempts e) \<le> 12 \<and>
     (er_status e \<noteq> ''pending'' \<longrightarrow> er_payload e = [] \<and> er_lease_id e = [] \<and> er_lease_until e = None) \<and>
     (er_failure_class e = ''oversized'' \<longrightarrow> er_status e = ''dead'')"

definition envelopes_ok :: "queue_db \<Rightarrow> bool" where
  "envelopes_ok db \<longleftrightarrow> list_all row_ok (qd_envelopes db) \<and> qd_next_id db \<le> 2 ^ 63 \<and>
     list_all (\<lambda>e. unat (er_id e) < qd_next_id db) (qd_envelopes db) \<and> distinct (map er_id (qd_envelopes db)) \<and>
     distinct (map (\<lambda>e. (er_listener e, er_message_key e)) (qd_envelopes db))"

definition receipts_ok :: "queue_db \<Rightarrow> bool" where
  "receipts_ok db \<longleftrightarrow> distinct (map (\<lambda>r. (rr_envelope_id r, rr_installation_id r)) (qd_receipts db)) \<and>
     list_all (\<lambda>r. rr_envelope_id r \<in> er_id ` set (qd_envelopes db) \<and>
       rr_status r \<in> {''pending'', ''accepted'', ''rejected''}) (qd_receipts db)"

definition quota_ok :: "queue_db \<Rightarrow> bool" where
  "quota_ok db \<longleftrightarrow> fst (NotificationPendingCapacity db) \<le> 100000 \<and> snd (NotificationPendingCapacity db) \<le> 512 * 1024 * 1024"

definition queue_ok :: "queue_db \<Rightarrow> bool" where
  "queue_ok db \<longleftrightarrow> envelopes_ok db \<and> receipts_ok db \<and> quota_ok db"

lemma map_update_where: "(\<And>r. P r \<Longrightarrow> g (f r) = g r) \<Longrightarrow> map g (update_where P f rows) = map g rows"
  by (simp add: update_where_def)

lemma image_update_where: "(\<And>r. P r \<Longrightarrow> g (f r) = g r) \<Longrightarrow> g ` set (update_where P f rows) = g ` set rows"
  using map_update_where [of P g f rows] by (metis list.set_map)

lemma list_all_update_where:
  "list_all Q rows \<Longrightarrow> (\<And>r. r \<in> set rows \<Longrightarrow> Q r \<Longrightarrow> P r \<Longrightarrow> Q (f r)) \<Longrightarrow> list_all Q (update_where P f rows)"
  by (auto simp: update_where_def list_all_iff)

lemma sum_update_where:
  "(\<And>r. r \<in> set rows \<Longrightarrow> P r \<Longrightarrow> h (f r) \<le> h r) \<Longrightarrow> sum_list (map h (update_where P f rows)) \<le> (sum_list (map h rows) :: int)"
  by (induction rows) (auto simp: update_where_def add_mono)

lemma sum_filter_le: "(\<And>r. 0 \<le> h r) \<Longrightarrow> sum_list (map h (filter P rows)) \<le> (sum_list (map h rows) :: int)"
  by (induction rows) (auto simp: add_increasing)

lemma rows_where_0: "rows_where P rows \<noteq> 0 \<longleftrightarrow> list_ex P rows"
  by (simp add: rows_where_def list_ex_iff filter_empty_conv)

text \<open>The quota as two sums over all rows.\<close>

lemma capacity_sums:
  "fst (NotificationPendingCapacity db) = sum_list (map (\<lambda>e. if charged e then 1 else 0) (qd_envelopes db))"
  "snd (NotificationPendingCapacity db) = sum_list (map (\<lambda>e. if charged e then charge e else 0) (qd_envelopes db))"
proof -
  have count: "int (length (filter charged es)) = sum_list (map (\<lambda>e. if charged e then 1 else 0) es)" for es
    by (induction es) auto
  show "fst (NotificationPendingCapacity db) = sum_list (map (\<lambda>e. if charged e then 1 else 0) (qd_envelopes db))"
    using count by (simp add: NotificationPendingCapacity_def rows_where_def)
  show "snd (NotificationPendingCapacity db) = sum_list (map (\<lambda>e. if charged e then charge e else 0) (qd_envelopes db))"
    unfolding NotificationPendingCapacity_def by (simp add: sum_list_map_filter')
qed

text \<open>An update of rows keeps the envelope constraints and the quota when it keeps them row by row.\<close>

lemma update_envelopes_ok:
  assumes "envelopes_ok db" and "\<And>r. r \<in> set (qd_envelopes db) \<Longrightarrow> row_ok r \<Longrightarrow> P r \<Longrightarrow> row_ok (f r)"
    and "\<And>r. er_id (f r) = er_id r \<and> er_listener (f r) = er_listener r \<and> er_message_key (f r) = er_message_key r"
  shows "envelopes_ok (db\<lparr>qd_envelopes := update_where P f (qd_envelopes db)\<rparr>)"
proof -
  have "list_all row_ok (update_where P f (qd_envelopes db))"
    using assms by (intro list_all_update_where) (auto simp: envelopes_ok_def)
  moreover have "list_all (\<lambda>e. unat (er_id e) < qd_next_id db) (update_where P f (qd_envelopes db))"
    using assms by (intro list_all_update_where) (auto simp: envelopes_ok_def)
  ultimately show ?thesis
    using assms(1,3) by (simp add: envelopes_ok_def map_update_where)
qed

lemma update_quota_ok:
  assumes "envelopes_ok db" and "quota_ok db"
    and "\<And>r. r \<in> set (qd_envelopes db) \<Longrightarrow> row_ok r \<Longrightarrow> P r \<Longrightarrow> (charged (f r) \<longrightarrow> charged r) \<and> (charged (f r) \<longrightarrow> charge (f r) \<le> charge r)"
  shows "quota_ok (db\<lparr>qd_envelopes := update_where P f (qd_envelopes db)\<rparr>)"
proof -
  have ok: "row_ok r" if "r \<in> set (qd_envelopes db)" for r
    using assms(1) that by (auto simp: envelopes_ok_def list_all_iff)
  have "0 \<le> charge r" for r
    by (simp add: charge_def)
  then have "sum_list (map (\<lambda>e. if charged e then 1 else 0) (update_where P f (qd_envelopes db))) \<le>
      sum_list (map (\<lambda>e. if charged e then 1 else (0::int)) (qd_envelopes db))"
    "sum_list (map (\<lambda>e. if charged e then charge e else 0) (update_where P f (qd_envelopes db))) \<le>
      sum_list (map (\<lambda>e. if charged e then charge e else 0) (qd_envelopes db))"
    using assms(3) ok by (intro sum_update_where; simp)+
  then show ?thesis
    using assms(2) by (simp add: quota_ok_def capacity_sums)
qed

lemma receipts_ok_cong:
  "er_id ` set (qd_envelopes db') = er_id ` set (qd_envelopes db) \<Longrightarrow> qd_receipts db' = qd_receipts db \<Longrightarrow>
   receipts_ok db' = receipts_ok db"
  by (simp add: receipts_ok_def)

lemma update_queue_ok:
  assumes "queue_ok db" and "\<And>r. r \<in> set (qd_envelopes db) \<Longrightarrow> row_ok r \<Longrightarrow> P r \<Longrightarrow> row_ok (f r)"
    and "\<And>r. er_id (f r) = er_id r \<and> er_listener (f r) = er_listener r \<and> er_message_key (f r) = er_message_key r"
    and "\<And>r. r \<in> set (qd_envelopes db) \<Longrightarrow> row_ok r \<Longrightarrow> P r \<Longrightarrow> (charged (f r) \<longrightarrow> charged r) \<and> (charged (f r) \<longrightarrow> charge (f r) \<le> charge r)"
  shows "queue_ok (db\<lparr>qd_envelopes := update_where P f (qd_envelopes db)\<rparr>)"
proof -
  have "receipts_ok (db\<lparr>qd_envelopes := update_where P f (qd_envelopes db)\<rparr>)"
    using assms(1,3) by (subst receipts_ok_cong [of _ db]) (simp_all add: queue_ok_def image_update_where)
  then show ?thesis
    using assms update_envelopes_ok [of db P f] update_quota_ok [of db P f] by (simp add: queue_ok_def)
qed

text \<open>The rows the statements leave behind are well formed.\<close>

lemma sint_less_12: "unat (w :: int32) \<le> 12 \<Longrightarrow> sint w < 12 \<longleftrightarrow> unat w < 12"
  using sint_small_less [of w 13 12] by simp

lemma take_lease_ok: "row_ok e \<Longrightarrow> claimable now listener e \<Longrightarrow> row_ok (take_lease now' leaseID e)"
proof -
  assume ok: "row_ok e" and claim: "claimable now listener e"
  then have "unat (er_attempts e) \<le> 12" "sint (er_attempts e) < 12"
    by (simp_all add: row_ok_def claimable_def)
  then have "unat (er_attempts e) < 12"
    using sint_less_12 by blast
  then have "unat (er_attempts e + 1) \<le> 12"
    by (simp add: unat_word_ariths)
  then show ?thesis
    using ok claim by (simp add: row_ok_def take_lease_def claimable_def)
qed

lemma valid_class_not_oversized: "validFailureClass class \<Longrightarrow> class \<noteq> ''oversized''"
  by (auto simp: validFailureClass_def)

lemma finish_row_ok:
  "row_ok e \<Longrightarrow> er_status e = ''pending'' \<Longrightarrow> status \<in> {''pending'', ''complete'', ''dead''} \<Longrightarrow> class \<noteq> ''oversized'' \<Longrightarrow>
   row_ok (finish_row now status delay class e)"
  by (auto simp: row_ok_def finish_row_def)

lemma finish_row_charge:
  "er_status e = ''pending'' \<Longrightarrow> class \<noteq> ''oversized'' \<Longrightarrow>
   (charged (finish_row now status delay class e) \<longrightarrow> charged e) \<and> charge (finish_row now status delay class e) \<le> charge e"
  by (simp add: finish_row_def charge_def charged_def)

lemma first_row_member: "first_row es = Some e \<Longrightarrow> e \<in> set es"
  by (induction es arbitrary: e) (auto split: option.splits if_splits)

lemma claim_ok:
  assumes "queue_ok db"
  shows "queue_ok (fst (ClaimNotificationEnvelope now locked leaseID listener db))"
proof (cases "first_row (filter (\<lambda>e. claimable now listener e \<and> \<not> locked (er_id e)) (qd_envelopes db))")
  case (Some c)
  then have c: "c \<in> set (qd_envelopes db)" "claimable now listener c"
    using first_row_member by fastforce+
  have same: "r = c" if "r \<in> set (qd_envelopes db)" "er_id r = er_id c" for r
    using assms that c(1) by (auto simp: queue_ok_def envelopes_ok_def distinct_map dest: inj_onD)
  have "queue_ok (db\<lparr>qd_envelopes := update_where (\<lambda>e. er_id e = er_id c) (take_lease now leaseID) (qd_envelopes db)\<rparr>)"
  proof (rule update_queue_ok [OF assms])
    fix r
    assume "r \<in> set (qd_envelopes db)" and "row_ok r" and "er_id r = er_id c"
    then show "row_ok (take_lease now leaseID r)"
      using same take_lease_ok [OF _ c(2)] by metis
  qed (simp_all add: take_lease_def charged_def charge_def)
  then show ?thesis
    using Some by (simp add: ClaimNotificationEnvelope_def)
qed (simp add: ClaimNotificationEnvelope_def assms)

lemma renew_ok:
  assumes "queue_ok db"
  shows "queue_ok (fst (RenewNotificationLease now i leaseID db))"
  unfolding RenewNotificationLease_def fst_conv
proof (rule update_queue_ok [OF assms])
  fix r
  assume "row_ok r" and "leased now i leaseID r"
  then show "row_ok (r\<lparr>er_lease_until := Some (now + 90 * second)\<rparr>)"
    by (simp add: row_ok_def leased_def)
qed (simp_all add: charged_def charge_def)

lemma finish_ok:
  assumes "queue_ok db" and "status \<in> {''pending'', ''complete'', ''dead''}" and "validFailureClass class"
  shows "queue_ok (fst (FinishNotificationEnvelope now status delay class i leaseID db))"
  unfolding FinishNotificationEnvelope_def fst_conv
proof (rule update_queue_ok [OF assms(1)])
  fix r
  assume "row_ok r" and "leased now i leaseID r"
  then show "row_ok (finish_row now status delay class r)"
    "(charged (finish_row now status delay class r) \<longrightarrow> charged r) \<and>
     (charged (finish_row now status delay class r) \<longrightarrow> charge (finish_row now status delay class r) \<le> charge r)"
    using finish_row_ok [OF _ _ assms(2) valid_class_not_oversized [OF assms(3)]]
      finish_row_charge [OF _ valid_class_not_oversized [OF assms(3)]]
    by (simp_all add: leased_def)
qed (simp add: finish_row_def)

lemma expire_ok:
  assumes "queue_ok db"
  shows "queue_ok (ExpireNotificationEnvelopes now db)"
  unfolding ExpireNotificationEnvelopes_def
proof (rule update_queue_ok [OF assms])
  fix r
  assume "row_ok r"
  then show "row_ok (r\<lparr>er_status := ''dead'', er_payload := [], er_failure_class := ''expired'', er_lease_id := [],
      er_lease_until := None\<rparr>)"
    by (simp add: row_ok_def)
qed (simp_all add: charged_def charge_def)

text \<open>Receipts only: the envelopes, and so the quota, are untouched.\<close>

lemma receipts_update_ok:
  assumes "queue_ok db" and "\<And>r. recipient i inst (f r) = recipient i inst r \<and> rr_envelope_id (f r) = rr_envelope_id r \<and>
      rr_installation_id (f r) = rr_installation_id r"
    and "\<And>r. P r \<Longrightarrow> rr_status r \<in> {''pending'', ''accepted'', ''rejected''} \<Longrightarrow>
      rr_status (f r) \<in> {''pending'', ''accepted'', ''rejected''}"
  shows "queue_ok (db\<lparr>qd_receipts := update_where P f (qd_receipts db)\<rparr>)"
proof -
  have "list_all (\<lambda>r. rr_envelope_id r \<in> er_id ` set (qd_envelopes db) \<and> rr_status r \<in> {''pending'', ''accepted'', ''rejected''})
      (update_where P f (qd_receipts db))"
    using assms by (intro list_all_update_where) (simp_all add: queue_ok_def receipts_ok_def)
  then show ?thesis
    using assms by (simp add: queue_ok_def receipts_ok_def envelopes_ok_def quota_ok_def NotificationPendingCapacity_def
        map_update_where)
qed

lemma claim_recipient_ok:
  assumes "queue_ok db"
  shows "queue_ok (fst (ClaimNotificationRecipient now ticket i inst leaseID db))"
proof -
  have "queue_ok (db\<lparr>qd_receipts := update_where P (\<lambda>r. r\<lparr>rr_lease_id := ticket, rr_lease_until := u\<rparr>) (qd_receipts db)\<rparr>)" for P u
    by (rule receipts_update_ok [OF assms, of i inst]) (simp_all add: recipient_def)
  then show ?thesis
    using assms by (simp add: ClaimNotificationRecipient_def Let_def)
qed

lemma finish_recipient_ok:
  assumes "queue_ok db" and "status \<in> {''pending'', ''accepted'', ''rejected''}"
  shows "queue_ok (fst (FinishNotificationRecipient now status class i inst ticket leaseID db))"
  unfolding FinishNotificationRecipient_def Let_def fst_conv
  using assms(2) by (intro receipts_update_ok [OF assms(1), of i inst]) (simp_all add: recipient_def)

lemma prepare_ok:
  assumes "queue_ok db"
  shows "queue_ok (PrepareNotificationRecipients now ids i leaseID db)"
proof (cases "list_ex (\<lambda>e. leased now i leaseID e \<and> \<not> er_recipients_prepared e) (qd_envelopes db)")
  case True
  let ?envs = "update_where (\<lambda>e. leased now i leaseID e \<and> \<not> er_recipients_prepared e) (\<lambda>e. e\<lparr>er_recipients_prepared := True\<rparr>)
    (qd_envelopes db)"
  let ?new = "filter (\<lambda>inst. \<not> list_ex (recipient i inst) (qd_receipts db)) (remdups ids)"
  have marked: "queue_ok (db\<lparr>qd_envelopes := ?envs\<rparr>)"
    by (rule update_queue_ok [OF assms]) (simp_all add: row_ok_def charged_def charge_def)
  have "i \<in> er_id ` set (qd_envelopes db)"
    using True by (force simp: list_ex_iff leased_def)
  then have "i \<in> er_id ` set ?envs"
    by (subst image_update_where) simp_all
  moreover have "distinct (map (\<lambda>r. (rr_envelope_id r, rr_installation_id r)) (qd_receipts db @ map (new_receipt i) ?new))"
    using assms by (auto simp: queue_ok_def receipts_ok_def new_receipt_def o_def distinct_map inj_on_def list_ex_iff recipient_def)
  ultimately have "receipts_ok (db\<lparr>qd_envelopes := ?envs, qd_receipts := qd_receipts db @ map (new_receipt i) ?new\<rparr>)"
    using marked by (auto simp: queue_ok_def receipts_ok_def list_all_iff new_receipt_def)
  then show ?thesis
    using marked True
    by (simp add: PrepareNotificationRecipients_def Let_def queue_ok_def envelopes_ok_def quota_ok_def NotificationPendingCapacity_def)
qed (simp add: PrepareNotificationRecipients_def Let_def assms)

lemma purge_ok:
  assumes "queue_ok db"
  shows "queue_ok (PurgeNotificationReceipts now db)"
proof -
  let ?gone = "\<lambda>e. er_status e \<noteq> ''pending'' \<and> er_created_at e < now - 7 * day"
  have env: "envelopes_ok (PurgeNotificationReceipts now db)"
    using assms by (auto simp: PurgeNotificationReceipts_def queue_ok_def envelopes_ok_def list_all_iff distinct_map_filter)
  have rec: "receipts_ok (PurgeNotificationReceipts now db)"
    using assms by (auto simp: PurgeNotificationReceipts_def Let_def queue_ok_def receipts_ok_def list_all_iff distinct_map_filter)
  have "sum_list (map (\<lambda>e. if charged e then 1 else 0) (filter (\<lambda>e. \<not> ?gone e) (qd_envelopes db))) \<le>
      sum_list (map (\<lambda>e. if charged e then 1 else (0::int)) (qd_envelopes db))"
    "sum_list (map (\<lambda>e. if charged e then charge e else 0) (filter (\<lambda>e. \<not> ?gone e) (qd_envelopes db))) \<le>
      sum_list (map (\<lambda>e. if charged e then charge e else 0) (qd_envelopes db))"
    by (intro sum_filter_le; simp add: charge_def)+
  then have "quota_ok (PurgeNotificationReceipts now db)"
    using assms by (simp add: PurgeNotificationReceipts_def Let_def queue_ok_def quota_ok_def capacity_sums)
  then show ?thesis
    using env rec by (simp add: queue_ok_def)
qed

text \<open>Admission: the new row fits the quota that was checked for it.\<close>

lemma new_id: "unat (word_of_nat (n :: nat) :: int64) = n" if "n < 2 ^ 63"
  using that by (simp add: unat_of_nat)

lemma insert_ok:
  assumes "queue_ok db" and "insert_envelope now listener key payload status class db = Some db'"
    and "row_ok (new_row 0 now listener key payload status class)"
    and "charged (new_row 0 now listener key payload status class) \<longrightarrow>
      fst (NotificationPendingCapacity db) < 100000 \<and>
      snd (NotificationPendingCapacity db) + charge (new_row 0 now listener key payload status class) \<le> 512 * 1024 * 1024"
  shows "queue_ok db'"
proof (cases "NotificationEnvelopeExists listener key db")
  case True
  with assms show ?thesis
    by (auto simp: insert_envelope_def queue_ok_def envelopes_ok_def receipts_ok_def quota_ok_def
        NotificationPendingCapacity_def list_all_iff less_SucI split: if_split_asm)
next
  case False
  let ?i = "word_of_nat (qd_next_id db) :: int64"
  let ?row = "new_row ?i now listener key payload status class"
  have room: "qd_next_id db < 2 ^ 63"
    and db': "db' = db\<lparr>qd_next_id := qd_next_id db + 1, qd_envelopes := qd_envelopes db @ [?row]\<rparr>"
    using assms(2) False by (simp_all add: insert_envelope_def split: if_split_asm)
  have same: "row_ok ?row = row_ok (new_row 0 now listener key payload status class)"
    "charged ?row = charged (new_row 0 now listener key payload status class)"
    "charge ?row = charge (new_row 0 now listener key payload status class)"
    by (simp_all add: row_ok_def new_row_def charged_def charge_def)
  have "?i \<notin> er_id ` set (qd_envelopes db)"
    using assms(1) new_id [OF room] by (auto simp: queue_ok_def envelopes_ok_def list_all_iff)
  moreover have "(listener, key) \<notin> (\<lambda>e. (er_listener e, er_message_key e)) ` set (qd_envelopes db)"
    using False by (auto simp: NotificationEnvelopeExists_def list_ex_iff)
  ultimately have "envelopes_ok db'"
    using assms(1,3) same(1) room new_id [OF room]
    by (auto simp: db' queue_ok_def envelopes_ok_def list_all_iff new_row_def)
  moreover have "receipts_ok db'"
    using assms(1) by (auto simp: db' queue_ok_def receipts_ok_def list_all_iff)
  moreover have "quota_ok db'"
    using assms(1,4) same(2,3) by (auto simp: db' queue_ok_def quota_ok_def capacity_sums)
  ultimately show ?thesis
    by (simp add: queue_ok_def)
qed

lemma admit_ok:
  assumes "queue_ok db" and "enqueue_tx now listener key payload db = Inr db'"
    and "listener = ''v3'' \<or> listener = ''v4''" and "key \<noteq> []" and "length key \<le> 128"
  shows "queue_ok db'"
proof -
  let ?pending = "new_row 0 now listener key payload ''pending'' []"
  let ?rejected = "new_row 0 now listener key [] ''dead'' ''oversized''"
  consider "db' = db"
    | "insert_envelope now listener key payload ''pending'' [] db = Some db'" "length payload \<le> MaxEnvelopeBytes"
      "fst (NotificationPendingCapacity db) < 100000"
      "snd (NotificationPendingCapacity db) + int (length payload) \<le> 512 * 1024 * 1024"
    | "insert_envelope now listener key [] ''dead'' ''oversized'' db = Some db'"
      "fst (NotificationPendingCapacity db) < 100000"
      "snd (NotificationPendingCapacity db) + 512 \<le> 512 * 1024 * 1024"
    using assms(2)
    by (auto simp: enqueue_tx_def Let_def of_stmt_def RecordRejectedNotificationEnvelope_def EnqueueNotificationEnvelope_def
        rejectedEnvelopeMetadataBytes_def not_le not_less split: if_split_asm option.split_asm prod.split_asm)
  then show ?thesis
  proof cases
    case 2
    moreover have "row_ok ?pending"
      using assms(3-5) 2(2) by (simp add: row_ok_def new_row_def MaxEnvelopeBytes_def)
    ultimately show ?thesis
      by (intro insert_ok [OF assms(1) 2(1)]) (simp_all add: charge_def new_row_def)
  next
    case 3
    moreover have "row_ok ?rejected"
      using assms(3-5) by (simp add: row_ok_def new_row_def)
    ultimately show ?thesis
      by (intro insert_ok [OF assms(1) 3(1)]) (simp_all add: charge_def new_row_def)
  qed (simp add: assms(1))
qed

lemma db_step_ok: "db_step drawn db db' \<Longrightarrow> queue_ok db \<Longrightarrow> queue_ok db'"
proof (induction rule: db_step.induct)
  case (admit now listener key payload db db')
  then show ?case
    using admit_ok by blast
qed (simp_all add: claim_ok renew_ok finish_ok prepare_ok claim_recipient_ok finish_recipient_ok expire_ok purge_ok)

lemma empty_queue_ok: "queue_ok empty_queue"
  by (simp add: queue_ok_def empty_queue_def envelopes_ok_def receipts_ok_def quota_ok_def NotificationPendingCapacity_def
      rows_where_def)

lemma queue_run_ok: "queue_ok db \<Longrightarrow> queue_ok (queue_run ops db)"
  by (rule queue_run_invariant [where P = queue_ok]) (auto intro: db_step_ok)

text \<open>
  C18. Whatever the workers do, in whatever order and with whatever database failures, the tables keep
  their constraints: identifiers and message keys are unique, at most twelve attempts, only pending rows
  hold a payload or a lease, every receipt belongs to an envelope, and the charged rows stay within
  100000 rows and 512 MiB.
\<close>

theorem queue_constraints_kept: "queue_ok (queue_run ops empty_queue)"
  by (rule queue_run_ok [OF empty_queue_ok])

section \<open>A decided recipient stays decided\<close>

text \<open>The envelope has a receipt of the installation that is no longer pending, or is gone for good.\<close>

definition settled :: "int64 \<Rightarrow> bytes \<Rightarrow> queue_db \<Rightarrow> bool" where
  "settled i inst db \<longleftrightarrow> unat i < qd_next_id db \<and>
     (i \<in> er_id ` set (qd_envelopes db) \<longrightarrow> (\<exists>r \<in> set (qd_receipts db). recipient i inst r \<and> rr_status r \<noteq> ''pending''))"

lemma settled_cong:
  "qd_next_id db' = qd_next_id db \<Longrightarrow> er_id ` set (qd_envelopes db') = er_id ` set (qd_envelopes db) \<Longrightarrow>
   qd_receipts db' = qd_receipts db \<Longrightarrow> settled i inst db' = settled i inst db"
  by (simp add: settled_def)

lemma settled_receipts:
  "settled i inst db \<Longrightarrow> (\<And>r. P r \<Longrightarrow> rr_status r = ''pending'') \<Longrightarrow>
   settled i inst (db\<lparr>qd_receipts := update_where P f (qd_receipts db)\<rparr>)"
  by (auto simp: settled_def update_where_def)

lemma settled_insert:
  assumes "settled i inst db" and "insert_envelope now listener key payload status class db = Some db'"
  shows "settled i inst db'"
proof -
  have "qd_next_id db < 2 ^ 63"
    using assms(2) by (simp add: insert_envelope_def split: if_split_asm)
  then have "i \<noteq> word_of_nat (qd_next_id db)"
    using assms(1) new_id by (auto simp: settled_def)
  then show ?thesis
    using assms by (auto simp: insert_envelope_def settled_def new_row_def split: if_split_asm)
qed

lemma db_step_settled: "db_step drawn db db' \<Longrightarrow> settled i inst db \<Longrightarrow> settled i inst db'"
proof (induction rule: db_step.induct)
  case (admit now listener key payload db db')
  then have "db' = db \<or> (\<exists>p status class. insert_envelope now listener key p status class db = Some db')"
    by (auto simp: enqueue_tx_def Let_def of_stmt_def RecordRejectedNotificationEnvelope_def EnqueueNotificationEnvelope_def
        split: if_split_asm option.split_asm prod.split_asm)
  then show ?case
    using admit settled_insert by blast
next
  case (claim leaseID db now locked listener)
  then show ?case
    by (subst settled_cong [of _ db])
      (auto simp: ClaimNotificationEnvelope_def image_update_where take_lease_def split: option.split)
next
  case (prepare db now ids i' leaseID)
  have "er_id ` set (qd_envelopes (PrepareNotificationRecipients now ids i' leaseID db)) = er_id ` set (qd_envelopes db)"
    by (simp add: PrepareNotificationRecipients_def Let_def image_update_where)
  then show ?case
    using prepare by (auto simp: settled_def PrepareNotificationRecipients_def Let_def)
next
  case (claim_recipient db now ticket i' inst' leaseID)
  then show ?case
    by (auto simp: ClaimNotificationRecipient_def Let_def intro!: settled_receipts)
next
  case (finish_recipient status db now cls i' inst' ticket leaseID)
  then show ?case
    unfolding FinishNotificationRecipient_def Let_def fst_conv by (intro settled_receipts) simp_all
next
  case (purge db now)
  then show ?case
    by (auto simp: PurgeNotificationReceipts_def Let_def settled_def recipient_def)
qed (simp_all add: settled_cong [of _ db for db] RenewNotificationLease_def FinishNotificationEnvelope_def finish_row_def
    ExpireNotificationEnvelopes_def settled_def image_update_where)

lemma settled_run: "settled i inst db \<Longrightarrow> settled i inst (queue_run ops db)"
  by (rule queue_run_invariant [where P = "settled i inst"]) (auto intro: db_step_settled)

text \<open>A settled recipient gets no ticket.\<close>

lemma settled_no_ticket:
  assumes "queue_ok db" and "settled i inst db"
  shows "snd (ClaimNotificationRecipient now ticket i inst leaseID db) = None"
proof (rule ccontr)
  assume "snd (ClaimNotificationRecipient now ticket i inst leaseID db) \<noteq> None"
  then obtain e r where "e \<in> set (qd_envelopes db)" "er_id e = i"
      and r: "r \<in> set (qd_receipts db)" "recipient i inst r" "rr_status r = ''pending''"
    by (auto simp: ClaimNotificationRecipient_def Let_def holds_lease_def leased_def list_ex_iff split: if_split_asm)
  with assms(2) obtain r' where r': "r' \<in> set (qd_receipts db)" "recipient i inst r'" "rr_status r' \<noteq> ''pending''"
    by (auto simp: settled_def)
  have "r' = r"
    using assms(1) r r' by (auto simp: queue_ok_def receipts_ok_def distinct_map recipient_def dest: inj_onD)
  with r r' show False
    by simp
qed

lemma ClaimRecipient_ticket:
  "snd (ClaimRecipient out out2 now ticket env inst db) = Inr (t, False) \<Longrightarrow>
   snd (ClaimNotificationRecipient now ticket (ne_ID env) inst (ne_LeaseID env) db) \<noteq> None"
  by (cases out; cases out2)
    (auto simp: ClaimRecipient_def exec_def split: if_split_asm prod.split_asm sum.split_asm option.split_asm)

lemma finished_settled:
  assumes "queue_ok db" and "FinishRecipient out now env inst ticket status class db = (db', None)" and "status \<noteq> ''pending''"
  shows "settled (ne_ID env) inst db'"
proof -
  let ?held = "\<lambda>r. recipient (ne_ID env) inst r \<and> rr_lease_id r = ticket \<and> rr_status r = ''pending'' \<and>
    ts_after (rr_lease_until r) now \<and> holds_lease now (ne_ID env) (ne_LeaseID env) db"
  let ?done = "\<lambda>r. r\<lparr>rr_status := status, rr_failure_class := class, rr_lease_until := None\<rparr>"
  have db': "db' = db\<lparr>qd_receipts := update_where ?held ?done (qd_receipts db)\<rparr>" and "rows_where ?held (qd_receipts db) = 1"
    using assms(2) by (auto simp: FinishRecipient_def checkLease_def exec_def FinishNotificationRecipient_def Let_def
        split: if_split_asm db_outcome.split_asm)
  then have "list_ex ?held (qd_receipts db)"
    unfolding rows_where_0 [symmetric] by simp
  then obtain r where r: "r \<in> set (qd_receipts db)" "?held r"
    by (auto simp: list_ex_iff)
  then have "?done r \<in> set (qd_receipts db')"
    by (force simp: db' update_where_def)
  moreover have "unat (ne_ID env) < qd_next_id db"
    using assms(1) r(2) by (auto simp: queue_ok_def envelopes_ok_def holds_lease_def leased_def list_ex_iff list_all_iff)
  ultimately show ?thesis
    using r(2) assms(3) by (auto simp: settled_def db' recipient_def intro!: bexI [of _ "?done r"])
qed

section \<open>The ledger of outcomes\<close>

text \<open>
  What a dispatcher relies on: outcomes are recorded once. A recipient with a recorded outcome is never
  handed out again, however the store evolves.
\<close>

locale recipient_ledger =
  fixes inv :: "'s \<Rightarrow> bool" and evolves :: "'s \<Rightarrow> 's \<Rightarrow> bool" and decided :: "'k \<Rightarrow> 's \<Rightarrow> bool"
    and grants :: "'k \<Rightarrow> 's \<Rightarrow> bool" and records :: "'k \<Rightarrow> 's \<Rightarrow> 's \<Rightarrow> bool"
  assumes inv_evolves: "inv s \<Longrightarrow> evolves s s' \<Longrightarrow> inv s'"
    and decided_evolves: "decided k s \<Longrightarrow> evolves s s' \<Longrightarrow> decided k s'"
    and records_decides: "inv s \<Longrightarrow> records k s s' \<Longrightarrow> decided k s' \<and> inv s'"
    and decided_no_grant: "inv s \<Longrightarrow> decided k s \<Longrightarrow> \<not> grants k s"
begin

lemma recorded_once: "inv s \<Longrightarrow> records k s s1 \<Longrightarrow> evolves s1 s2 \<Longrightarrow> \<not> grants k s2"
  using records_decides decided_evolves decided_no_grant inv_evolves by blast

end

definition queue_grants :: "int64 \<times> bytes \<Rightarrow> queue_db \<Rightarrow> bool" where
  "queue_grants k db \<longleftrightarrow> (\<exists>out out2 now ticket env t. ne_ID env = fst k \<and>
     snd (ClaimRecipient out out2 now ticket env (snd k) db) = Inr (t, False))"

definition queue_records :: "int64 \<times> bytes \<Rightarrow> queue_db \<Rightarrow> queue_db \<Rightarrow> bool" where
  "queue_records k db db' \<longleftrightarrow> (\<exists>out now env ticket status class. ne_ID env = fst k \<and> status \<noteq> ''pending'' \<and>
     FinishRecipient out now env (snd k) ticket status class db = (db', None))"

interpretation queue_ledger: recipient_ledger queue_ok "\<lambda>db db'. \<exists>ops. db' = queue_run ops db"
  "\<lambda>k. settled (fst k) (snd k)" queue_grants queue_records
proof
  fix k :: "int64 \<times> bytes" and db db'
  show "queue_ok db \<Longrightarrow> queue_records k db db' \<Longrightarrow> settled (fst k) (snd k) db' \<and> queue_ok db'"
    using finished_settled db_step_ok [OF FinishRecipient_effect] unfolding queue_records_def by (metis fst_conv)
  show "queue_ok db \<Longrightarrow> settled (fst k) (snd k) db \<Longrightarrow> \<not> queue_grants k db"
    using ClaimRecipient_ticket settled_no_ticket unfolding queue_grants_def by metis
qed (auto intro: queue_run_ok settled_run)

section \<open>A run of one envelope\<close>

text \<open>One frame admitted, claimed, prepared for one device and accepted for it.\<close>

definition example_claimed :: NotificationEnvelope where
  "example_claimed = \<lparr>ne_ID = 1, ne_Listener = ''v3'', ne_MessageKey = ''k'', ne_Payload = ''p'', ne_Attempts = 1,
     ne_LeaseID = ''L1'', ne_RecipientsPrepared = False\<rparr>"

definition example_ops :: "queue_op list" where
  "example_ops = [OpEnqueue DbOk 0 ''v3'' ''k'' ''p'', OpClaim DbOk 1 (\<lambda>_. False) ''L1'' ''v3'',
     OpPrepare DbOk 2 example_claimed [''d''], OpClaimRecipient DbOk DbOk 3 ''T1'' example_claimed ''d'']"

lemmas queue_eval = queue_run_def example_ops_def example_claimed_def empty_queue_def Enqueue_def RunInTx_def enqueue_tx_def
  NotificationPendingCapacity_def NotificationEnvelopeExists_def insert_envelope_def EnqueueNotificationEnvelope_def of_stmt_def
  new_row_def rows_where_def MaxEnvelopeBytes_def Claim_def exec_def ClaimNotificationEnvelope_def claimable_def update_where_def
  take_lease_def envelope_of_def PrepareRecipients_def PrepareNotificationRecipients_def MaxRecipients_def leased_def
  new_receipt_def ClaimRecipient_def ClaimNotificationRecipient_def holds_lease_def recipient_def FinishRecipient_def
  FinishNotificationRecipient_def checkLease_def validFailureClass_def ts_before_def ts_after_def day_def duration_defs

lemma example_accepted:
  "\<exists>db'. FinishRecipient DbOk 4 example_claimed ''d'' ''T1'' ''accepted'' [] (queue_run example_ops empty_queue) = (db', None)"
  by (simp add: queue_eval)

text \<open>
  C21. Once a recipient's outcome is recorded as accepted or rejected, no worker is ever given a ticket to
  deliver that envelope to that recipient again, whatever the workers and the database do afterwards.
\<close>

theorem recipient_decided_once:
  assumes "FinishRecipient out now env inst ticket status class (queue_run ops empty_queue) = (db, None)"
    and "status \<noteq> ''pending''" and "ne_ID env' = ne_ID env"
  shows "snd (ClaimRecipient out' out2 now' ticket' env' inst (queue_run ops' db)) \<noteq> Inr (t, False)"
proof -
  have "queue_records (ne_ID env, inst) (queue_run ops empty_queue) db"
    using assms(1,2) unfolding queue_records_def fst_conv snd_conv by blast
  then have "\<not> queue_grants (ne_ID env, inst) (queue_run ops' db)"
    using queue_ledger.recorded_once [OF queue_run_ok [OF empty_queue_ok]] by blast
  then show ?thesis
    using assms(3) unfolding queue_grants_def by auto
qed

theorem recipient_decided_once_witness:
  "\<exists>db. FinishRecipient DbOk 4 example_claimed ''d'' ''T1'' ''accepted'' [] (queue_run example_ops empty_queue) = (db, None) \<and>
     snd (ClaimRecipient DbOk DbOk 5 ''T2'' example_claimed ''d'' db) \<noteq> Inr (''T2'', False)"
proof -
  obtain db where db: "FinishRecipient DbOk 4 example_claimed ''d'' ''T1'' ''accepted'' [] (queue_run example_ops empty_queue) = (db, None)"
    using example_accepted by blast
  then show ?thesis
    using recipient_decided_once [OF db, of example_claimed DbOk DbOk 5 "''T2''" "[]" "''T2''"] by auto
qed

section \<open>At most twelve attempts\<close>

fun claims :: "int64 \<Rightarrow> queue_op list \<Rightarrow> queue_db \<Rightarrow> nat" where
  "claims i [] db = 0"
| "claims i (op # ops) db =
     (case op of
        OpClaim out now locked leaseID listener \<Rightarrow>
          (case snd (Claim out now locked leaseID listener db) of
             Inr (Some env) \<Rightarrow> if ne_ID env = i then 1 else 0
           | _ \<Rightarrow> 0)
      | _ \<Rightarrow> 0) + claims i ops (queue_step op db)"

definition attempts_left :: "int64 \<Rightarrow> queue_db \<Rightarrow> nat" where
  "attempts_left i db = (case find (\<lambda>e. er_id e = i) (qd_envelopes db) of
     Some e \<Rightarrow> 12 - unat (er_attempts e)
   | None \<Rightarrow> if unat i < qd_next_id db then 0 else 12)"

lemma find_update_where:
  "(\<And>r. er_id (f r) = er_id r) \<Longrightarrow>
   find (\<lambda>e. er_id e = i) (update_where P f rows) = map_option (\<lambda>e. if P e then f e else e) (find (\<lambda>e. er_id e = i) rows)"
  by (induction rows) (auto simp: update_where_def)

lemma attempts_left_update:
  "(\<And>r. er_id (f r) = er_id r) \<Longrightarrow> (\<And>r. er_attempts (f r) = er_attempts r) \<Longrightarrow>
   attempts_left i (db\<lparr>qd_envelopes := update_where P f (qd_envelopes db)\<rparr>) = attempts_left i db"
  by (simp add: attempts_left_def find_update_where split: option.split)

lemma attempts_left_cong:
  "qd_envelopes db' = qd_envelopes db \<Longrightarrow> qd_next_id db' = qd_next_id db \<Longrightarrow> attempts_left i db' = attempts_left i db"
  by (simp add: attempts_left_def)

lemma find_member: "find P xs = Some x \<Longrightarrow> x \<in> set xs \<and> P x"
  by (induction xs) (auto split: if_split_asm)

lemma same_id: "envelopes_ok db \<Longrightarrow> e \<in> set (qd_envelopes db) \<Longrightarrow> f \<in> set (qd_envelopes db) \<Longrightarrow> er_id f = er_id e \<Longrightarrow> f = e"
  by (auto simp: envelopes_ok_def distinct_map dest: inj_onD)

lemma find_id:
  assumes "envelopes_ok db" and "e \<in> set (qd_envelopes db)"
  shows "find (\<lambda>f. er_id f = er_id e) (qd_envelopes db) = Some e"
proof (cases "find (\<lambda>f. er_id f = er_id e) (qd_envelopes db)")
  case None
  then show ?thesis
    using assms(2) by (auto simp: find_None_iff)
next
  case (Some f)
  then show ?thesis
    using find_member [OF Some] same_id [OF assms] by simp
qed

lemma find_id_known: "envelopes_ok db \<Longrightarrow> find (\<lambda>e. er_id e = i) (qd_envelopes db) = Some e \<Longrightarrow> unat i < qd_next_id db"
  by (auto simp: envelopes_ok_def list_all_iff dest!: find_member)

lemma attempts_left_insert:
  assumes "envelopes_ok db" and "insert_envelope now listener key payload status class db = Some db'"
  shows "attempts_left i db' \<le> attempts_left i db"
proof -
  have room: "qd_next_id db < 2 ^ 63"
    using assms(2) by (simp add: insert_envelope_def split: if_split_asm)
  have append: "find P (xs @ [x]) = (case find P xs of Some y \<Rightarrow> Some y | None \<Rightarrow> if P x then Some x else None)"
    for P xs and x :: env_row
    by (induction xs) auto
  show ?thesis
    using assms find_id_known [OF assms(1), of i] new_id [OF room]
    by (auto simp: insert_envelope_def attempts_left_def append new_row_def split: option.split if_split_asm)
qed

lemma attempts_left_purge:
  assumes "envelopes_ok db"
  shows "attempts_left i (PurgeNotificationReceipts now db) \<le> attempts_left i db"
proof (cases "find (\<lambda>e. er_id e = i) (qd_envelopes (PurgeNotificationReceipts now db))")
  case None
  then show ?thesis
    using find_id_known [OF assms, of i]
    by (auto simp: attempts_left_def PurgeNotificationReceipts_def Let_def split: option.split)
next
  case (Some e)
  then have "e \<in> set (qd_envelopes db)" "er_id e = i"
    using find_member by (fastforce simp: PurgeNotificationReceipts_def Let_def)+
  then show ?thesis
    using Some find_id [OF assms] by (auto simp: attempts_left_def)
qed

lemma claim_candidate:
  assumes "first_row (filter (\<lambda>e. claimable now listener e \<and> \<not> locked (er_id e)) (qd_envelopes db)) = Some c"
  shows "c \<in> set (qd_envelopes db)" and "claimable now listener c"
  using first_row_member [OF assms] by auto

lemma attempts_left_claim:
  assumes "envelopes_ok db"
  shows "attempts_left i (fst (ClaimNotificationEnvelope now locked leaseID listener db)) +
    (case snd (ClaimNotificationEnvelope now locked leaseID listener db) of Some e \<Rightarrow> if er_id e = i then 1 else 0 | None \<Rightarrow> 0) =
    attempts_left i db"
proof (cases "first_row (filter (\<lambda>e. claimable now listener e \<and> \<not> locked (er_id e)) (qd_envelopes db))")
  case (Some c)
  note c = claim_candidate [OF Some]
  have "row_ok c"
    using assms c(1) by (simp add: envelopes_ok_def list_all_iff)
  then have "unat (er_attempts c) < 12"
    using c(2) sint_less_12 [of "er_attempts c"] by (simp add: row_ok_def claimable_def)
  then have next_attempt: "12 - unat (er_attempts c + 1) + 1 = 12 - unat (er_attempts c)"
    by (simp add: unat_word_ariths)
  have found: "find (\<lambda>e. er_id e = i) (update_where (\<lambda>e. er_id e = er_id c) (take_lease now leaseID) (qd_envelopes db)) =
      map_option (\<lambda>e. if er_id e = er_id c then take_lease now leaseID e else e) (find (\<lambda>e. er_id e = i) (qd_envelopes db))"
    by (rule find_update_where) (simp add: take_lease_def)
  have claimed: "ClaimNotificationEnvelope now locked leaseID listener db =
      (db\<lparr>qd_envelopes := update_where (\<lambda>e. er_id e = er_id c) (take_lease now leaseID) (qd_envelopes db)\<rparr>, Some (take_lease now leaseID c))"
    by (simp add: ClaimNotificationEnvelope_def Some)
  show ?thesis
  proof (cases "i = er_id c")
    case True
    then show ?thesis
      using next_attempt found find_id [OF assms c(1)] by (simp add: claimed attempts_left_def take_lease_def)
  next
    case False
    then have "attempts_left i (fst (ClaimNotificationEnvelope now locked leaseID listener db)) = attempts_left i db"
      using found by (auto simp: claimed attempts_left_def split: option.split dest: find_member)
    then show ?thesis
      using False by (simp add: claimed take_lease_def)
  qed
qed (simp add: ClaimNotificationEnvelope_def)

lemma db_step_attempts: "db_step drawn db db' \<Longrightarrow> queue_ok db \<Longrightarrow> attempts_left i db' \<le> attempts_left i db"
proof (induction rule: db_step.induct)
  case (admit now listener key payload db db')
  then have "db' = db \<or> (\<exists>p status class. insert_envelope now listener key p status class db = Some db')"
    by (auto simp: enqueue_tx_def Let_def of_stmt_def RecordRejectedNotificationEnvelope_def EnqueueNotificationEnvelope_def
        split: if_split_asm option.split_asm prod.split_asm)
  then show ?case
    using admit attempts_left_insert by (auto simp: queue_ok_def)
next
  case (claim leaseID db now locked listener)
  then show ?case
    using attempts_left_claim [of db i now locked leaseID listener] by (simp add: queue_ok_def)
next
  case (prepare db now ids i' leaseID)
  have "attempts_left i (PrepareNotificationRecipients now ids i' leaseID db) =
      attempts_left i (db\<lparr>qd_envelopes := update_where (\<lambda>e. leased now i' leaseID e \<and> \<not> er_recipients_prepared e)
        (\<lambda>e. e\<lparr>er_recipients_prepared := True\<rparr>) (qd_envelopes db)\<rparr>)
      \<or> PrepareNotificationRecipients now ids i' leaseID db = db"
    by (auto simp: PrepareNotificationRecipients_def Let_def intro: attempts_left_cong)
  then show ?case
    by (auto simp: attempts_left_update)
next
  case (claim_recipient db now ticket i' inst' leaseID)
  then show ?case
    by (subst attempts_left_cong [of _ db]) (simp_all add: ClaimNotificationRecipient_def Let_def)
next
  case (finish_recipient status db now cls i' inst' ticket leaseID)
  then show ?case
    by (subst attempts_left_cong [of _ db]) (simp_all add: FinishNotificationRecipient_def Let_def)
next
  case (purge db now)
  then show ?case
    by (simp add: attempts_left_purge queue_ok_def)
qed (simp_all add: RenewNotificationLease_def FinishNotificationEnvelope_def finish_row_def ExpireNotificationEnvelopes_def
    attempts_left_update)

lemma attempts_left_step: "queue_ok db \<Longrightarrow> attempts_left i (queue_step op db) \<le> attempts_left i db"
proof -
  assume "queue_ok db"
  have "(db_step (\<lambda>_. True))\<^sup>*\<^sup>* db db' \<Longrightarrow> attempts_left i db' \<le> attempts_left i db \<and> queue_ok db'" for db'
    by (induction rule: rtranclp_induct) (auto simp: \<open>queue_ok db\<close> intro: db_step_ok order_trans db_step_attempts)
  then show ?thesis
    using queue_step_effect [OF draws_from_any] by blast
qed

lemma claim_uses_attempt:
  assumes "queue_ok db" and "snd (Claim out now locked leaseID listener db) = Inr (Some env)"
  shows "attempts_left i (queue_step (OpClaim out now locked leaseID listener) db) + (if ne_ID env = i then 1 else 0) = attempts_left i db"
proof -
  obtain e where "out = DbOk" "snd (ClaimNotificationEnvelope now locked leaseID listener db) = Some e" "ne_ID env = er_id e"
    using assms(2) by (cases out) (auto simp: Claim_def exec_def envelope_of_def)
  then show ?thesis
    using attempts_left_claim [of db i now locked leaseID listener] assms(1) by (simp add: Claim_fst exec_def queue_ok_def)
qed

lemma claims_left: "queue_ok db \<Longrightarrow> claims i ops db + attempts_left i (queue_run ops db) \<le> attempts_left i db"
proof (induction ops arbitrary: db)
  case (Cons op ops)
  have IH: "claims i ops (queue_step op db) + attempts_left i (queue_run ops (queue_step op db)) \<le> attempts_left i (queue_step op db)"
    using Cons.IH queue_run_ok [OF Cons.prems, of "[op]"] by simp
  show ?case
    using IH attempts_left_step [OF Cons.prems, of i op] claim_uses_attempt [OF Cons.prems, where i = i]
    by (cases op) (fastforce split: sum.split option.split)+
qed simp

text \<open>
  C22. No envelope is ever claimed more than twelve times, in any run: also when leases expire, workers
  crash or the database loses acknowledgements.
\<close>

theorem claims_bounded: "claims i ops empty_queue \<le> 12"
  using claims_left [OF empty_queue_ok, of i ops] by (simp add: attempts_left_def empty_queue_def split: if_split_asm)

section \<open>A lost lease changes nothing\<close>

lemma update_where_none: "\<not> list_ex P rows \<Longrightarrow> update_where P f rows = rows"
  by (induction rows) (auto simp: update_where_def)

lemma rows_where_none: "\<not> list_ex P rows \<Longrightarrow> rows_where P rows = 0"
  using rows_where_0 [of P rows] by blast

lemma update_where_False [simp]: "update_where (\<lambda>r. False) f rows = rows" "rows_where (\<lambda>r. False) rows = 0"
  by (simp_all add: update_where_def rows_where_def)

lemma checkLease_lost: "snd (stmt db) = 0 \<Longrightarrow> fst (stmt db) = db \<Longrightarrow> fst (checkLease (exec out stmt db)) = db \<and> snd (checkLease (exec out stmt db)) \<noteq> None"
  by (cases out) (simp_all add: checkLease_def exec_def)

definition fenced :: "NotificationEnvelope \<Rightarrow> queue_db \<Rightarrow> bool" where
  "fenced env db \<longleftrightarrow> (\<forall>out now. fst (Renew out now env db) = db \<and> snd (Renew out now env db) \<noteq> None) \<and>
     (\<forall>out now result class. fst (Finish out now env result class db) = db \<and> snd (Finish out now env result class db) \<noteq> None) \<and>
     (\<forall>out now ids. fst (PrepareRecipients out now env ids db) = db) \<and>
     (\<forall>out out2 now ticket inst t. fst (ClaimRecipient out out2 now ticket env inst db) = db \<and>
        snd (ClaimRecipient out out2 now ticket env inst db) \<noteq> Inr (t, False)) \<and>
     (\<forall>out now inst ticket status class. fst (FinishRecipient out now env inst ticket status class db) = db \<and>
        snd (FinishRecipient out now env inst ticket status class db) \<noteq> None)"

text \<open>The identifier is not the current lease of the envelope's row.\<close>

definition lease_lost :: "int64 \<Rightarrow> bytes \<Rightarrow> queue_db \<Rightarrow> bool" where
  "lease_lost i leaseID db \<longleftrightarrow> list_all (\<lambda>e. er_id e = i \<longrightarrow> er_lease_id e \<noteq> leaseID) (qd_envelopes db)"

lemma lost_not_leased: "lease_lost i leaseID db \<Longrightarrow> \<not> list_ex (\<lambda>e. leased now i leaseID e \<and> Q e) (qd_envelopes db)"
  by (auto simp: lease_lost_def list_all_iff list_ex_iff leased_def)

lemma lost_no_lease: "lease_lost i leaseID db \<Longrightarrow> \<not> holds_lease now i leaseID db"
  using lost_not_leased [of i leaseID db now "\<lambda>_. True"] by (simp add: holds_lease_def)

lemma lost_statements:
  assumes "lease_lost i leaseID db"
  shows "RenewNotificationLease now i leaseID db = (db, 0)"
    and "FinishNotificationEnvelope now status delay class i leaseID db = (db, 0)"
    and "PrepareNotificationRecipients now ids i leaseID db = db"
    and "ClaimNotificationRecipient now ticket i inst leaseID db = (db, None)"
    and "FinishNotificationRecipient now status class i inst ticket leaseID db = (db, 0)"
  using lost_not_leased [OF assms, of now "\<lambda>_. True"] lost_not_leased [OF assms, of now "\<lambda>e. \<not> er_recipients_prepared e"]
    lost_no_lease [OF assms, of now]
  by (simp_all add: RenewNotificationLease_def FinishNotificationEnvelope_def PrepareNotificationRecipients_def
      ClaimNotificationRecipient_def FinishNotificationRecipient_def update_where_none rows_where_none Let_def)

lemma lost_fenced:
  assumes "lease_lost (ne_ID env) (ne_LeaseID env) db"
  shows "fenced env db"
proof -
  note stmts = lost_statements [OF assms]
  have "fst (Renew out now env db) = db \<and> snd (Renew out now env db) \<noteq> None" for out now
    unfolding Renew_def by (rule checkLease_lost) (simp_all add: stmts)
  moreover have "fst (Finish out now env result cls db) = db \<and> snd (Finish out now env result cls db) \<noteq> None" for out now result cls
    using checkLease_lost [of "FinishNotificationEnvelope now _ _ _ (ne_ID env) (ne_LeaseID env)" db] by (simp add: Finish_def Let_def stmts)
  moreover have "fst (PrepareRecipients out now env ids db) = db" for out now ids
    by (cases out) (simp_all add: PrepareRecipients_def exec_def stmts)
  moreover have "fst (ClaimRecipient out out2 now ticket env inst db) = db" for out out2 now ticket inst
    by (cases out) (simp_all add: ClaimRecipient_fst exec_def stmts)
  moreover have "snd (ClaimRecipient out out2 now ticket env inst db) \<noteq> Inr (t, False)" for out out2 now ticket inst t
    using ClaimRecipient_ticket [of out out2 now ticket env inst db t] by (auto simp: stmts)
  moreover have "fst (FinishRecipient out now env inst ticket status cls db) = db \<and>
      snd (FinishRecipient out now env inst ticket status cls db) \<noteq> None" for out now inst ticket status cls
    using checkLease_lost [of "FinishNotificationRecipient now status cls (ne_ID env) inst ticket (ne_LeaseID env)" db out]
    by (auto simp: FinishRecipient_def stmts)
  ultimately show ?thesis
    unfolding fenced_def by blast
qed

lemma lost_update:
  "lease_lost i leaseID db \<Longrightarrow> (\<And>r. P r \<Longrightarrow> er_id (f r) = er_id r \<and> (er_lease_id (f r) = er_lease_id r \<or> er_lease_id (f r) \<noteq> leaseID)) \<Longrightarrow>
   lease_lost i leaseID (db\<lparr>qd_envelopes := update_where P f (qd_envelopes db)\<rparr>)"
  by (auto simp: lease_lost_def update_where_def list_all_iff) metis

lemma lost_cong: "qd_envelopes db' = qd_envelopes db \<Longrightarrow> lease_lost i leaseID db' = lease_lost i leaseID db"
  by (simp add: lease_lost_def)

text \<open>A lease that is lost stays lost when its identifier is not drawn again.\<close>

lemma db_step_lost:
  assumes "db_step (\<lambda>l. l \<noteq> leaseID) db db'" and "leaseID \<noteq> []" and "lease_lost i leaseID db"
  shows "lease_lost i leaseID db'"
  using assms
proof (induction rule: db_step.induct)
  case (admit now listener key payload db db')
  then have "db' = db \<or> (\<exists>p status class. insert_envelope now listener key p status class db = Some db')"
    by (auto simp: enqueue_tx_def Let_def of_stmt_def RecordRejectedNotificationEnvelope_def EnqueueNotificationEnvelope_def
        split: if_split_asm option.split_asm prod.split_asm)
  then show ?case
    using admit by (auto simp: insert_envelope_def lease_lost_def new_row_def split: if_split_asm)
next
  case (claim l db now locked listener)
  then show ?case
    by (auto simp: ClaimNotificationEnvelope_def take_lease_def split: option.split intro!: lost_update)
next
  case (prepare db now ids i' l)
  then have "lease_lost i leaseID (db\<lparr>qd_envelopes := update_where (\<lambda>e. leased now i' l e \<and> \<not> er_recipients_prepared e)
      (\<lambda>e. e\<lparr>er_recipients_prepared := True\<rparr>) (qd_envelopes db)\<rparr>)"
    by (intro lost_update) simp_all
  then show ?case
    using prepare by (auto simp: PrepareNotificationRecipients_def Let_def lease_lost_def)
next
  case (claim_recipient db now ticket i' inst' l)
  then show ?case
    by (subst lost_cong [of _ db]) (simp_all add: ClaimNotificationRecipient_def Let_def)
next
  case (finish_recipient status db now cls i' inst' ticket l)
  then show ?case
    by (subst lost_cong [of _ db]) (simp_all add: FinishNotificationRecipient_def Let_def)
next
  case (purge db now)
  then show ?case
    by (auto simp: PurgeNotificationReceipts_def Let_def lease_lost_def list_all_iff)
qed (auto simp: RenewNotificationLease_def FinishNotificationEnvelope_def finish_row_def ExpireNotificationEnvelopes_def
    intro!: lost_update)

lemma claim_supersedes:
  assumes "queue_ok db" and "Claim out now locked l listener db = (db', Inr (Some env'))" and "leaseID \<noteq> l"
  shows "lease_lost (ne_ID env') leaseID db'"
proof -
  obtain c where c: "first_row (filter (\<lambda>e. claimable now listener e \<and> \<not> locked (er_id e)) (qd_envelopes db)) = Some c"
      "ne_ID env' = er_id c"
      "db' = db\<lparr>qd_envelopes := update_where (\<lambda>e. er_id e = er_id c) (take_lease now l) (qd_envelopes db)\<rparr>"
    using assms(2)
    by (cases out) (auto simp: Claim_def exec_def ClaimNotificationEnvelope_def envelope_of_def take_lease_def split: option.split_asm)
  then show ?thesis
    using assms(3) by (auto simp: lease_lost_def list_all_iff update_where_def take_lease_def)
qed



section \<open>Admission, retries and expiry\<close>

text \<open>
  Admission is durable and idempotent: when \<open>Enqueue\<close> reports success the frame is stored under its
  listener and key, either the row that was there before, which is left alone, or a new pending row
  with exactly this payload.
\<close>

theorem enqueue_durable:
  assumes "Enqueue out now listener key payload db = (db', None)"
  shows "(NotificationEnvelopeExists listener key db \<and> db' = db) \<or>
    (\<exists>e \<in> set (qd_envelopes db'). er_listener e = listener \<and> er_message_key e = key \<and> er_payload e = payload \<and>
       er_status e = ''pending'' \<and> er_attempts e = 0)"
proof -
  have "enqueue_tx now listener key payload db = Inr db'" "length payload \<le> MaxEnvelopeBytes"
    using assms
    by (auto simp: Enqueue_def RunInTx_def split: if_split_asm prod.split_asm option.split_asm sum.split_asm)
  then have "NotificationEnvelopeExists listener key db \<and> db' = db \<or>
      \<not> NotificationEnvelopeExists listener key db \<and> insert_envelope now listener key payload ''pending'' [] db = Some db'"
    by (auto simp: enqueue_tx_def Let_def of_stmt_def EnqueueNotificationEnvelope_def
        split: if_split_asm option.split_asm prod.split_asm)
  then show ?thesis
    by (auto simp: insert_envelope_def new_row_def split: if_split_asm)
qed

theorem enqueue_durable_witness:
  "\<exists>db'. Enqueue DbOk 0 ''v3'' ''k'' ''p'' empty_queue = (db', None) \<and>
    list_ex (\<lambda>e. er_payload e = ''p'' \<and> er_status e = ''pending'') (qd_envelopes db')"
proof -
  obtain db' where db': "Enqueue DbOk 0 ''v3'' ''k'' ''p'' empty_queue = (db', None)"
    by (simp add: queue_eval)
  then show ?thesis
    using enqueue_durable [OF db'] by (auto simp: empty_queue_def NotificationEnvelopeExists_def list_ex_iff)
qed

lemma int32_range: "1 \<le> sint a \<Longrightarrow> sint a \<le> 12 \<Longrightarrow> a \<in> {1, 2, 3, 4, 5, 6, 7, 8, 9, 10, 11, 12}" for a :: int32
proof -
  assume "1 \<le> sint a" "sint a \<le> 12"
  then have "sint a \<in> {1, 2, 3, 4, 5, 6, 7, 8, 9, 10, 11, 12}"
    unfolding insert_iff empty_iff by presburger
  then have "word_of_int (sint a) \<in> (word_of_int :: int \<Rightarrow> int32) ` {1, 2, 3, 4, 5, 6, 7, 8, 9, 10, 11, 12}"
    by (rule imageI)
  then show ?thesis
    by simp
qed

text \<open>
  The retry delay is five seconds doubled per attempt and capped at an hour: the 32-bit shift never
  overflows, for any attempt number, also a negative one.
\<close>

theorem retryDelay_exponential:
  "sint (retryDelay attempt) = min 3600 (5 * 2 ^ nat (max 1 (min 12 (sint attempt)) - 1))"
proof -
  have steps: "sint (let d = push_bit (unat (c - 1)) (5 :: int32) in if 3600 < sint d then 3600 else d) =
      min 3600 (5 * 2 ^ nat (sint c - 1))" if "c \<in> {1, 2, 3, 4, 5, 6, 7, 8, 9, 10, 11, 12}" for c :: int32
    using that by (elim insertE emptyE) (simp_all add: push_bit_eq_mult)
  consider "sint attempt < 1" | "12 < sint attempt" | "1 \<le> sint attempt" "sint attempt \<le> 12"
    by linarith
  then show ?thesis
  proof cases
    case 1
    then show ?thesis
      using steps [of 1] by (simp add: retryDelay_def Let_def MaxAttempts_def)
  next
    case 2
    then show ?thesis
      using steps [of 12] by (simp add: retryDelay_def Let_def MaxAttempts_def)
  next
    case 3
    then have "max 1 (min 12 (sint attempt)) = sint attempt"
      by simp
    with 3 show ?thesis
      using steps [OF int32_range [OF 3]] by (simp add: retryDelay_def Let_def MaxAttempts_def split: if_split_asm)
  qed
qed

text \<open>
  C27. Nothing waits forever: after one maintenance pass no pending envelope without a live lease is older
  than a day or out of attempts; such an envelope is dead and its payload erased.
\<close>

theorem maintain_retires_expired:
  assumes "Maintain DbOk DbOk out3 now db = (db', err)" and "e \<in> set (qd_envelopes db')"
    and "er_created_at e < now - day \<or> 12 \<le> sint (er_attempts e)" and "ts_before (er_lease_until e) now"
    and "queue_ok db"
  shows "er_status e \<in> {''complete'', ''dead''} \<and> er_payload e = []"
proof -
  have db': "db' = PurgeNotificationReceipts now (ExpireNotificationEnvelopes now db)"
    using assms(1) by (simp add: Maintain_def exec_def)
  have "queue_ok db'"
    unfolding db' by (intro purge_ok expire_ok assms(5))
  then have ok: "row_ok e"
    using assms(2) by (simp add: queue_ok_def envelopes_ok_def list_all_iff)
  have "e \<in> set (qd_envelopes (ExpireNotificationEnvelopes now db))"
    using assms(2) by (auto simp: db' PurgeNotificationReceipts_def Let_def)
  then have "er_status e \<noteq> ''pending''"
    using assms(3,4) by (auto simp: ExpireNotificationEnvelopes_def update_where_def split: if_split_asm)
  then show ?thesis
    using ok by (auto simp: row_ok_def)
qed

theorem maintain_retires_expired_witness:
  "\<exists>db' e. Maintain DbOk DbOk DbOk (25 * hour) (queue_run [OpEnqueue DbOk 0 ''v3'' ''k'' ''p''] empty_queue) = (db', None) \<and>
     e \<in> set (qd_envelopes db') \<and> er_status e \<in> {''complete'', ''dead''} \<and> er_payload e = []"
proof -
  let ?db = "queue_run [OpEnqueue DbOk 0 ''v3'' ''k'' ''p''] empty_queue"
  obtain db' e where run: "Maintain DbOk DbOk DbOk (25 * hour) ?db = (db', None)" and "e \<in> set (qd_envelopes db')"
      "er_created_at e = 0" "er_lease_until e = None"
    by (simp add: queue_eval Maintain_def ExpireNotificationEnvelopes_def PurgeNotificationReceipts_def)
  moreover from this have "er_status e \<in> {''complete'', ''dead''} \<and> er_payload e = []"
    by (intro maintain_retires_expired [OF run, of e] queue_run_ok [OF empty_queue_ok])
      (simp_all add: ts_before_def day_def duration_defs)
  ultimately show ?thesis
    by blast
qed

end
