(* ===== verification/Delivery.thy ===== *)
theory Delivery
  imports Notification_Queue
begin

text \<open>
  How provider failures are classified: \<open>src/pkg/delivery/failure.go\<close>, the outcome part of
  \<open>src/pkg/delivery/apns_reliable.go\<close> and the error part of \<open>src/pkg/delivery/fcm.go\<close>.

  The APNs library's response is a parameter: its fields, what its \<open>Sent\<close> method answers and the two
  reason constants are arguments. Errors form a tree, as Go's wrapped and joined errors do;
  \<open>errors.As\<close> searches it in pre-order.
\<close>

section \<open>Errors\<close>

datatype apns_sentinel = ErrAPNSBackpressure | ErrAPNSUnavailable | ErrAPNSRejected

record ApnsRejection =
  ar_StatusCode :: int
  ar_Reason :: bytes
  ar_InvalidToken :: bool
  ar_Permanent :: bool
  ar_UnregisteredAt :: time
  ar_sentinel :: apns_sentinel

text \<open>
  The errors a dispatcher sees: a fixed sentinel, the two rejections, the failed cleanup of a token, a
  join of several errors, an error of the queue, the refusal of the push policy, and any other error.
\<close>

datatype go_error =
    Sentinel apns_sentinel
  | Apns ApnsRejection
  | FcmRejection go_error
  | tokenCleanupError go_error
  | Joined "go_error list"
  | Queue queue_error
  | ErrUnauthorized
  | OtherError bytes

text \<open>\<open>errors.Join\<close>: nil when every argument is.\<close>

definition errors_join :: "go_error option list \<Rightarrow> go_error option" where
  "errors_join es = (case List.map_filter (\<lambda>e. e) es of [] \<Rightarrow> None | xs \<Rightarrow> Some (Joined xs))"

fun first_some :: "'a option list \<Rightarrow> 'a option" where
  "first_some [] = None"
| "first_some (x # xs) = (case x of Some a \<Rightarrow> Some a | None \<Rightarrow> first_some xs)"

fun as_apns :: "go_error \<Rightarrow> ApnsRejection option" where
  "as_apns (Apns r) = Some r"
| "as_apns (FcmRejection e) = as_apns e"
| "as_apns (tokenCleanupError e) = as_apns e"
| "as_apns (Joined es) = first_some (map as_apns es)"
| "as_apns _ = None"

fun has_fcm :: "go_error \<Rightarrow> bool" where
  "has_fcm (FcmRejection e) = True"
| "has_fcm (tokenCleanupError e) = has_fcm e"
| "has_fcm (Joined es) = list_ex id (map has_fcm es)"
| "has_fcm _ = False"

fun has_cleanup :: "go_error \<Rightarrow> bool" where
  "has_cleanup (tokenCleanupError e) = True"
| "has_cleanup (FcmRejection e) = has_cleanup e"
| "has_cleanup (Joined es) = list_ex id (map has_cleanup es)"
| "has_cleanup _ = False"

definition IsPermanentFailure :: "go_error \<Rightarrow> bool" where
  "IsPermanentFailure err = (case as_apns err of Some r \<Rightarrow> ar_Permanent r | None \<Rightarrow> has_fcm err)"

section \<open>Outcomes of an APNs push\<close>

datatype apnsOutcome =
    apnsOutcomeSent | apnsOutcomeTransientNetwork | apnsOutcomeTransientThrottle | apnsOutcomeTransientServer
  | apnsOutcomeInvalidToken | apnsOutcomeRejected

definition transient :: "apnsOutcome \<Rightarrow> bool" where
  "transient o' \<longleftrightarrow> o' = apnsOutcomeTransientNetwork \<or> o' = apnsOutcomeTransientThrottle \<or> o' = apnsOutcomeTransientServer"

text \<open>The provider's response, and the two reasons of the library that prove a token dead.\<close>

record apns_response =
  re_StatusCode :: int
  re_Reason :: bytes
  re_Timestamp :: time

record apns_library =
  lib_Sent :: "apns_response \<Rightarrow> bool"
  lib_ReasonExpiredToken :: bytes
  lib_ReasonUnregistered :: bytes

definition classifyAPNSResponse :: "apns_library \<Rightarrow> apns_response option \<Rightarrow> apnsOutcome" where
  "classifyAPNSResponse lib res = (case res of
     None \<Rightarrow> apnsOutcomeTransientNetwork
   | Some r \<Rightarrow>
       if lib_Sent lib r then apnsOutcomeSent
       else if re_Reason r = lib_ReasonExpiredToken lib \<or> re_Reason r = lib_ReasonUnregistered lib then apnsOutcomeInvalidToken
       else if re_StatusCode r = 429 then apnsOutcomeTransientThrottle
       else if 500 \<le> re_StatusCode r \<and> re_StatusCode r \<le> 599 then apnsOutcomeTransientServer
       else apnsOutcomeRejected)"

definition apnsOutcomeError :: "apnsOutcome \<Rightarrow> apns_sentinel option" where
  "apnsOutcomeError outcome =
     (if outcome = apnsOutcomeSent then None else if transient outcome then Some ErrAPNSUnavailable else Some ErrAPNSRejected)"

definition ApnsRejection_Unwrap :: "ApnsRejection \<Rightarrow> apns_sentinel" where
  "ApnsRejection_Unwrap e = ar_sentinel e"

definition apnsRejectionError :: "apns_library \<Rightarrow> apns_response option \<Rightarrow> go_error option" where
  "apnsRejectionError lib res =
     (let outcome = classifyAPNSResponse lib res in
      if outcome = apnsOutcomeSent then None
      else (case res of
          None \<Rightarrow> map_option Sentinel (apnsOutcomeError outcome)
        | Some r \<Rightarrow> Some (Apns \<lparr>ar_StatusCode = re_StatusCode r, ar_Reason = re_Reason r,
            ar_InvalidToken = (outcome = apnsOutcomeInvalidToken),
            ar_Permanent = (400 \<le> re_StatusCode r \<and> re_StatusCode r < 500 \<and> re_StatusCode r \<noteq> 429 \<and> re_StatusCode r \<noteq> 403),
            ar_UnregisteredAt = re_Timestamp r, ar_sentinel = the (apnsOutcomeError outcome)\<rparr>)))"

text \<open>FCM: three predicates of the library mark an error permanent.\<close>

definition classifyFcmError :: "(go_error \<Rightarrow> bool) \<Rightarrow> (go_error \<Rightarrow> bool) \<Rightarrow> (go_error \<Rightarrow> bool) \<Rightarrow> go_error option \<Rightarrow> go_error option" where
  "classifyFcmError isUnregistered isInvalidArgument isSenderIDMismatch err = (case err of
     None \<Rightarrow> None
   | Some e \<Rightarrow> if isUnregistered e \<or> isInvalidArgument e \<or> isSenderIDMismatch e then Some (FcmRejection e) else Some e)"

section \<open>What the classification means\<close>

lemma apnsRejectionError_None: "apnsRejectionError lib res = None \<longleftrightarrow> (\<exists>r. res = Some r \<and> lib_Sent lib r)"
  by (auto simp: apnsRejectionError_def classifyAPNSResponse_def apnsOutcomeError_def transient_def Let_def split: option.split)

lemma apnsRejectionError_Some:
  assumes "apnsRejectionError lib res = Some err"
  shows "IsPermanentFailure err \<longleftrightarrow> (\<exists>r. res = Some r \<and> re_StatusCode r \<in> {400..<500} - {403, 429})"
    and "\<not> has_cleanup err"
    and "(\<exists>r. as_apns err = Some r \<and> ar_InvalidToken r) \<longleftrightarrow>
      (\<exists>r. res = Some r \<and> re_Reason r \<in> {lib_ReasonExpiredToken lib, lib_ReasonUnregistered lib})"
  using assms
  by (auto simp: apnsRejectionError_def classifyAPNSResponse_def IsPermanentFailure_def Let_def split: option.split_asm if_split_asm)

text \<open>
  Only a provider acknowledgement counts as delivered, and only an answer in the 400 range other than
  403 and 429 is a permanent failure: a missing answer, throttling, bad credentials and server errors
  stay retryable. A token is called dead only for the two reasons that prove it.
\<close>

theorem apns_classification:
  "(case apnsRejectionError lib res of
      None \<Rightarrow> \<exists>r. res = Some r \<and> lib_Sent lib r
    | Some err \<Rightarrow>
        (IsPermanentFailure err \<longleftrightarrow> (\<exists>r. res = Some r \<and> re_StatusCode r \<in> {400..<500} - {403, 429})) \<and>
        ((\<exists>r. as_apns err = Some r \<and> ar_InvalidToken r) \<longleftrightarrow>
           (\<exists>r. res = Some r \<and> re_Reason r \<in> {lib_ReasonExpiredToken lib, lib_ReasonUnregistered lib})))"
  using apnsRejectionError_None [of lib res] apnsRejectionError_Some [of lib res]
  by (simp split: option.split)

end
