(* ===== verification/Push_Policy.thy ===== *)
theory Push_Policy
  imports Interfaces
begin

text \<open>
  The outer push policy, \<open>src/pkg/pushpolicy/policy.go\<close>: which requests are eligible, the
  fingerprint an authorization is bound to, and the one-use authorization a context carries.

  Authorizations are shared mutable objects, so they live in a store and a context holds the address
  of the authorization its key is bound to. \<open>CompareAndSwap\<close> is atomic, so concurrent calls are
  sequences of operations on the store.

  The lemmas: what eligibility requires, that the bytes behind the fingerprint determine the request
  up to the registration version, and that in every sequence of operations a delivery is allowed at
  most once per authorization and only for a request with the fingerprint it was issued for.
\<close>

section \<open>Eligibility\<close>

definition exactPeriodHmacKey :: "SendRequest \<Rightarrow> bytes option" where
  "exactPeriodHmacKey req =
     (case (sub_HmacKey (req_Subscription req), sub_ExpectedHmacKeyPeriod (req_Subscription req)) of
        (Some hmacKey, Some expectedPeriod) \<Rightarrow>
          if \<not> HmacKey_IsValid hmacKey \<or> hk_ThirtyDayPeriodsSinceEpoch hmacKey \<noteq> expectedPeriod then None
          else if sub_SecureRoute (req_Subscription req) \<noteq> None \<and> length (hk_Key hmacKey) \<noteq> 32 then None
          else Some (hk_Key hmacKey)
      | _ \<Rightarrow> None)"

definition eligible :: "SendRequest \<Rightarrow> bool" where
  "eligible req =
     (let mc = req_MessageContext req; sub = req_Subscription req in
      if mc_MessageType mc = V3Welcome then
        (case sub_SecureRoute sub of
           None \<Rightarrow> False
         | Some route \<Rightarrow> sr_WelcomeAuthorized route \<and> sub_IsActive sub \<and> sub_IsSilent sub \<and>
             mc_ShouldPush mc = None \<and> mc_HmacInputs mc = None \<and> mc_SenderHmac mc = None)
      else if mc_MessageType mc = V3Conversation then
        (if mc_ShouldPush mc \<noteq> Some True then False
         else if \<not> sub_IsActive sub \<or> sub_IsSilent sub then False
         else (case exactPeriodHmacKey req of
                 None \<Rightarrow> False
               | Some hmacKey \<Rightarrow> if \<not> HasValidSenderHmac mc then False else \<not> IsSender mc hmacKey))
      else False)"

section \<open>The request fingerprint\<close>

text \<open>Each function gives the bytes it writes to the digest.\<close>

definition writeFingerprintField :: "bytes \<Rightarrow> bytes" where
  "writeFingerprintField v = len_field 8 v"

definition writeFingerprintBool :: "bool \<Rightarrow> bytes" where
  "writeFingerprintBool b = writeFingerprintField [if b then byte_of 1 else byte_of 0]"

definition writeFingerprintUint64 :: "uint64 \<Rightarrow> bytes" where
  "writeFingerprintUint64 w = writeFingerprintField (be_bytes 8 (unat w))"

text \<open>The conversion of an \<open>int64\<close> to a \<open>uint64\<close> keeps the bits.\<close>

definition writeFingerprintInt64 :: "int64 \<Rightarrow> bytes" where
  "writeFingerprintInt64 w = writeFingerprintUint64 w"

definition writeFingerprintTime :: "zoned_time \<Rightarrow> bytes" where
  "writeFingerprintTime t =
     (case marshal_time t of None \<Rightarrow> writeFingerprintField [] | Some encoded \<Rightarrow> writeFingerprintField encoded)"

definition writeFingerprintOptionalBytes :: "bytes option \<Rightarrow> bytes" where
  "writeFingerprintOptionalBytes v =
     (case v of None \<Rightarrow> writeFingerprintBool False | Some b \<Rightarrow> writeFingerprintBool True @ writeFingerprintField b)"

definition writeFingerprintOptionalBool :: "bool option \<Rightarrow> bytes" where
  "writeFingerprintOptionalBool v =
     (case v of None \<Rightarrow> writeFingerprintBool False | Some b \<Rightarrow> writeFingerprintBool True @ writeFingerprintBool b)"

text \<open>
  The fields \<open>requestFingerprint\<close> writes, in its order, in five groups. \<open>flagged\<close> is the
  test on a nil pointer that writes a flag and, when the pointer is not nil, the value.
\<close>

definition flagged :: "('a \<Rightarrow> bytes) \<Rightarrow> 'a option \<Rightarrow> bytes" where
  "flagged w v = (case v of None \<Rightarrow> writeFingerprintBool False | Some x \<Rightarrow> writeFingerprintBool True @ w x)"

definition fingerprint_a9 :: "A9RouteSnapshot \<Rightarrow> bytes" where
  "fingerprint_a9 a9 =
     writeFingerprintField (a9_InstallationBindingID a9) @
     writeFingerprintField (a9_SequencerEpoch a9) @
     writeFingerprintUint64 (a9_SubscriptionGeneration a9) @
     writeFingerprintField (a9_BindingID a9) @
     writeFingerprintUint64 (a9_BindingVersion a9) @
     writeFingerprintField (a9_AssertionHash a9) @
     writeFingerprintUint64 (a9_AssertionStreamSequence a9) @
     writeFingerprintTime (a9_AssertionExpiresAt a9) @
     writeFingerprintUint64 (ucast (a9_TopicKeyEpoch a9)) @
     writeFingerprintField (a9_TopicBinding a9) @
     writeFingerprintUint64 (ucast (a9_RouteKeyEpoch a9)) @
     writeFingerprintUint64 (a9_KeysetSequence a9) @
     writeFingerprintField (a9_KeysetHash a9) @
     writeFingerprintUint64 (a9_WatermarkSequence a9)"

definition fingerprint_route :: "SecureRoute \<Rightarrow> bytes" where
  "fingerprint_route route =
     writeFingerprintField (sr_LeaseID route) @
     writeFingerprintField (sr_RouteKey route) @
     writeFingerprintUint64 (ucast (sr_RouteKeyEpoch route)) @
     writeFingerprintUint64 (ucast (sr_NoncePrefix route)) @
     writeFingerprintUint64 (sr_DeliverySequence route) @
     writeFingerprintField (sr_AliasDay route) @
     writeFingerprintField (sr_RouteAlias route) @
     writeFingerprintField (sr_ReceiveCapability route) @
     writeFingerprintTime (sr_LeaseExpiresAt route) @
     writeFingerprintTime (sr_ControlExpiresAt route) @
     writeFingerprintUint64 (sr_PolicyEpoch route) @
     writeFingerprintBool (sr_WelcomeAuthorized route) @
     writeFingerprintField (sr_WelcomeAuthorizationID route) @
     writeFingerprintField (sr_WelcomeEnvelopeDigest route) @
     flagged fingerprint_a9 (sr_A9 route)"

definition fingerprint_hmac_key :: "HmacKey \<Rightarrow> bytes" where
  "fingerprint_hmac_key k =
     writeFingerprintInt64 (hk_ThirtyDayPeriodsSinceEpoch k) @ writeFingerprintField (hk_Key k)"

definition fingerprint_installation :: "Installation \<Rightarrow> bytes" where
  "fingerprint_installation i =
     writeFingerprintField (inst_Id i) @
     writeFingerprintField (dm_Kind (inst_DeliveryMechanism i)) @
     writeFingerprintField (dm_Token (inst_DeliveryMechanism i)) @
     writeFingerprintTime (dm_UpdatedAt (inst_DeliveryMechanism i)) @
     writeFingerprintUint64 (inst_PayloadFormat i)"

definition fingerprint_subscription :: "Subscription \<Rightarrow> bytes" where
  "fingerprint_subscription s =
     writeFingerprintInt64 (sub_Id s) @
     writeFingerprintTime (sub_CreatedAt s) @
     writeFingerprintField (sub_InstallationId s) @
     writeFingerprintField (sub_Topic s) @
     flagged (\<lambda>t. writeFingerprintField (Bytes t)) (sub_TopicV4 s) @
     writeFingerprintBool (sub_IsActive s) @
     writeFingerprintBool (sub_IsSilent s) @
     flagged fingerprint_hmac_key (sub_HmacKey s) @
     flagged writeFingerprintInt64 (sub_ExpectedHmacKeyPeriod s) @
     flagged fingerprint_route (sub_SecureRoute s)"

definition fingerprint_transcript :: "SendRequest \<Rightarrow> bytes" where
  "fingerprint_transcript req =
     writeFingerprintField (req_IdempotencyKey req) @
     writeFingerprintField (req_Topic req) @
     writeFingerprintField (req_TopicBytesB64 req) @
     writeFingerprintField (req_EncryptedMessage req) @
     writeFingerprintUint64 (req_PayloadFormat req) @
     fingerprint_installation (req_Installation req) @
     fingerprint_subscription (req_Subscription req) @
     writeFingerprintField (mc_MessageType (req_MessageContext req)) @
     writeFingerprintOptionalBool (mc_ShouldPush (req_MessageContext req)) @
     writeFingerprintOptionalBytes (mc_HmacInputs (req_MessageContext req)) @
     writeFingerprintOptionalBytes (mc_SenderHmac (req_MessageContext req))"

definition requestFingerprint :: "SendRequest \<Rightarrow> bytes" where
  "requestFingerprint req = sha256 (fingerprint_transcript req)"

section \<open>Authorizations\<close>

record deliveryAuthorization =
  fingerprint :: bytes
  consumed :: bool

text \<open>The store of authorizations by address, and what the context's key is bound to.\<close>

type_synonym auth_store = "deliveryAuthorization list"
type_synonym auth_ctx = "nat option"

definition authorize :: "auth_store \<Rightarrow> auth_ctx \<Rightarrow> SendRequest \<Rightarrow> auth_store \<times> auth_ctx" where
  "authorize st ctx req =
     (st @ [\<lparr>fingerprint = requestFingerprint req, consumed = False\<rparr>], Some (length st))"

definition consumeAuthorization :: "auth_store \<Rightarrow> auth_ctx \<Rightarrow> SendRequest \<Rightarrow> auth_store \<times> bool" where
  "consumeAuthorization st ctx req =
     (case ctx of
        None \<Rightarrow> (st, False)
      | Some p \<Rightarrow>
          if \<not> p < length st then (st, False)
          else if fingerprint (st ! p) \<noteq> requestFingerprint req then (st, False)
          else if consumed (st ! p) then (st, False)
          else (st[p := (st ! p)\<lparr>consumed := True\<rparr>], True))"

definition AuthorizeDelivery :: "auth_store \<Rightarrow> auth_ctx \<Rightarrow> SendRequest \<Rightarrow> auth_store \<times> auth_ctx \<times> bool" where
  "AuthorizeDelivery st ctx req =
     (if \<not> eligible req then (st, ctx, False)
      else (case authorize st ctx req of (st', ctx') \<Rightarrow> (st', ctx', True)))"

definition AllowsDelivery :: "auth_store \<Rightarrow> auth_ctx \<Rightarrow> SendRequest \<Rightarrow> auth_store \<times> bool" where
  "AllowsDelivery st ctx req =
     (if \<not> eligible req then (st, False) else consumeAuthorization st ctx req)"

section \<open>What eligibility requires\<close>

lemma exactPeriodHmacKey_Some:
  "exactPeriodHmacKey req = Some key \<longleftrightarrow>
   (\<exists>k. sub_HmacKey (req_Subscription req) = Some k \<and> key = hk_Key k \<and> HmacKey_IsValid k \<and>
      sub_ExpectedHmacKeyPeriod (req_Subscription req) = Some (hk_ThirtyDayPeriodsSinceEpoch k) \<and>
      (sub_SecureRoute (req_Subscription req) \<noteq> None \<longrightarrow> length key = 32))"
  by (auto simp: exactPeriodHmacKey_def split: option.splits)

lemma IsSender_iff:
  "IsSender m k \<longleftrightarrow> validSenderHmacKeyLength (length k) \<and>
     (\<exists>i. mc_HmacInputs m = Some i \<and> mc_SenderHmac m = Some (hmac_sha256 k i))"
  by (auto simp: IsSender_def HasValidSenderHmac_def split: option.splits)

lemma eligible_conversation_iff:
  assumes "mc_MessageType (req_MessageContext req) = V3Conversation"
  shows "eligible req \<longleftrightarrow>
     mc_ShouldPush (req_MessageContext req) = Some True \<and>
     sub_IsActive (req_Subscription req) \<and> \<not> sub_IsSilent (req_Subscription req) \<and>
     (\<exists>key h i. exactPeriodHmacKey req = Some key \<and>
        mc_HmacInputs (req_MessageContext req) = Some i \<and>
        mc_SenderHmac (req_MessageContext req) = Some h \<and> length h = 32 \<and> h \<noteq> hmac_sha256 key i)"
proof -
  have len: "validSenderHmacKeyLength (length key)" if "exactPeriodHmacKey req = Some key" for key
    using that by (auto simp: exactPeriodHmacKey_Some HmacKey_IsValid_def)
  show ?thesis
    using len by (auto simp: eligible_def Let_def assms IsSender_iff HasValidSenderHmac_def split: option.splits)
qed

section \<open>The fingerprint's transcript is unambiguous\<close>

text \<open>What Go guarantees of every request: lengths fit an \<open>int\<close>. Times must be marshalable.\<close>

definition time_ok :: "zoned_time \<Rightarrow> bool" where
  "time_ok t \<longleftrightarrow> time_in_range t \<and> marshal_time t \<noteq> None"

definition a9_ok :: "A9RouteSnapshot \<Rightarrow> bool" where
  "a9_ok a \<longleftrightarrow> go_len (a9_InstallationBindingID a) \<and> go_len (a9_SequencerEpoch a) \<and> go_len (a9_BindingID a) \<and>
     go_len (a9_AssertionHash a) \<and> go_len (a9_TopicBinding a) \<and> go_len (a9_KeysetHash a) \<and>
     time_ok (a9_AssertionExpiresAt a)"

definition route_ok :: "SecureRoute \<Rightarrow> bool" where
  "route_ok r \<longleftrightarrow> go_len (sr_LeaseID r) \<and> go_len (sr_RouteKey r) \<and> go_len (sr_AliasDay r) \<and> go_len (sr_RouteAlias r) \<and>
     go_len (sr_ReceiveCapability r) \<and> go_len (sr_WelcomeAuthorizationID r) \<and> go_len (sr_WelcomeEnvelopeDigest r) \<and>
     time_ok (sr_LeaseExpiresAt r) \<and> time_ok (sr_ControlExpiresAt r) \<and> pred_option a9_ok (sr_A9 r)"

definition hmac_key_ok :: "HmacKey \<Rightarrow> bool" where
  "hmac_key_ok k \<longleftrightarrow> go_len (hk_Key k)"

definition installation_ok :: "Installation \<Rightarrow> bool" where
  "installation_ok i \<longleftrightarrow> go_len (inst_Id i) \<and> go_len (dm_Kind (inst_DeliveryMechanism i)) \<and>
     go_len (dm_Token (inst_DeliveryMechanism i)) \<and> time_ok (dm_UpdatedAt (inst_DeliveryMechanism i))"

definition subscription_ok :: "Subscription \<Rightarrow> bool" where
  "subscription_ok s \<longleftrightarrow> time_ok (sub_CreatedAt s) \<and> go_len (sub_InstallationId s) \<and> go_len (sub_Topic s) \<and>
     pred_option (\<lambda>t. go_len (Bytes t)) (sub_TopicV4 s) \<and> pred_option hmac_key_ok (sub_HmacKey s) \<and>
     pred_option route_ok (sub_SecureRoute s)"

definition request_ok :: "SendRequest \<Rightarrow> bool" where
  "request_ok r \<longleftrightarrow> go_len (req_IdempotencyKey r) \<and> go_len (req_Topic r) \<and> go_len (req_TopicBytesB64 r) \<and>
     go_len (req_EncryptedMessage r) \<and> installation_ok (req_Installation r) \<and> subscription_ok (req_Subscription r) \<and>
     go_len (mc_MessageType (req_MessageContext r)) \<and> pred_option go_len (mc_HmacInputs (req_MessageContext r)) \<and>
     pred_option go_len (mc_SenderHmac (req_MessageContext r))"

text \<open>
  What the fingerprint is bound to: everything but the registration version, with a parsed topic
  reduced to its bytes.
\<close>

definition bound_installation :: "Installation \<Rightarrow> Installation" where
  "bound_installation i = i\<lparr>inst_DeliveryMechanism := (inst_DeliveryMechanism i)\<lparr>dm_RegistrationVersion := 0\<rparr>\<rparr>"

definition bound_subscription :: "Subscription \<Rightarrow> Subscription" where
  "bound_subscription s =
     s\<lparr>sub_TopicV4 := map_option (\<lambda>t. \<lparr>Kind = OtherTopicKind 0, Identifier = [], Bytes = Bytes t\<rparr>) (sub_TopicV4 s)\<rparr>"

definition bound_part :: "SendRequest \<Rightarrow> SendRequest" where
  "bound_part r =
     r\<lparr>req_Installation := bound_installation (req_Installation r),
       req_Subscription := bound_subscription (req_Subscription r)\<rparr>"

interpretation fp_field: prefix_code writeFingerprintField go_len
  by unfold_locales (auto simp: writeFingerprintField_def go_len_def len_code.enc_append_iff)

lemma go_len_short: "length v \<le> 255 \<Longrightarrow> go_len v"
  by (simp add: go_len_def)

lemma marshal_time_length: "marshal_time t = Some b \<Longrightarrow> length b \<le> 16"
  using offset_bytes_length by (fastforce simp: marshal_time_parts)

interpretation fp_bool: prefix_code writeFingerprintBool "\<lambda>_. True"
  by unfold_locales
    (auto simp: writeFingerprintBool_def fp_field.enc_append_iff go_len_short split: if_splits)

interpretation fp_uint64: prefix_code writeFingerprintUint64 "\<lambda>_. True"
proof
  fix x y s t
  assume "writeFingerprintUint64 x @ s = writeFingerprintUint64 y @ t"
  then have "be_bytes 8 (unat x) = be_bytes 8 (unat y) \<and> s = t"
    by (simp add: writeFingerprintUint64_def fp_field.enc_append_iff go_len_short)
  then show "x = y \<and> s = t"
    using be_bytes_inj [OF be_word64 be_word64, of x y] by (simp add: word_unat_eq_iff)
qed

interpretation fp_time: prefix_code writeFingerprintTime time_ok
proof
  fix t u s r
  assume ok: "time_ok t" "time_ok u" and eq: "writeFingerprintTime t @ s = writeFingerprintTime u @ r"
  then obtain b c where b: "marshal_time t = Some b" and c: "marshal_time u = Some c"
    by (auto simp: time_ok_def)
  then have "b = c \<and> s = r"
    using eq marshal_time_length [OF b] marshal_time_length [OF c]
    by (simp add: writeFingerprintTime_def fp_field.enc_append_iff go_len_short)
  then show "t = u \<and> s = r"
    using marshal_time_inj b c ok by (auto simp: time_ok_def)
qed

lemma prefix_code_flagged:
  assumes "prefix_code w ok"
  shows "prefix_code (flagged w) (pred_option ok)"
  by unfold_locales
    (auto simp: flagged_def fp_bool.enc_append_iff dest: prefix_code.prefix_free [OF assms] split: option.splits)

lemma writeFingerprintOptional_flagged:
  "writeFingerprintOptionalBytes = flagged writeFingerprintField"
  "writeFingerprintOptionalBool = flagged writeFingerprintBool"
  by (auto simp: fun_eq_iff writeFingerprintOptionalBytes_def writeFingerprintOptionalBool_def flagged_def)

interpretation fp_opt_field: prefix_code "flagged writeFingerprintField" "pred_option go_len"
  by (rule prefix_code_flagged) unfold_locales

interpretation fp_opt_bool: prefix_code "flagged writeFingerprintBool" "pred_option (\<lambda>_. True)"
  by (rule prefix_code_flagged) unfold_locales

interpretation fp_opt_uint64: prefix_code "flagged writeFingerprintUint64" "pred_option (\<lambda>_. True)"
  by (rule prefix_code_flagged) unfold_locales

lemma writeFingerprintInt64_Uint64: "writeFingerprintInt64 = writeFingerprintUint64"
  by (auto simp: writeFingerprintInt64_def)

lemma ucast_32_64_iff: "(ucast (x :: uint32) :: uint64) = ucast y \<longleftrightarrow> x = y"
  by transfer (simp add: take_bit_take_bit)

lemmas fp_append_iff =
  fp_field.enc_append_iff fp_bool.enc_append_iff [OF TrueI TrueI] fp_uint64.enc_append_iff [OF TrueI TrueI]
  fp_time.enc_append_iff fp_opt_field.enc_append_iff fp_opt_bool.enc_append_iff fp_opt_uint64.enc_append_iff
  option.pred_True
  writeFingerprintInt64_Uint64 ucast_32_64_iff

interpretation fp_a9: prefix_code fingerprint_a9 a9_ok
  by unfold_locales (simp add: fingerprint_a9_def a9_ok_def fp_append_iff)

interpretation fp_opt_a9: prefix_code "flagged fingerprint_a9" "pred_option a9_ok"
  by (rule prefix_code_flagged) unfold_locales

interpretation fp_route: prefix_code fingerprint_route route_ok
  by unfold_locales (simp add: fingerprint_route_def route_ok_def fp_append_iff fp_opt_a9.enc_append_iff)

interpretation fp_opt_route: prefix_code "flagged fingerprint_route" "pred_option route_ok"
  by (rule prefix_code_flagged) unfold_locales

interpretation fp_hmac_key: prefix_code fingerprint_hmac_key hmac_key_ok
  by unfold_locales (simp add: fingerprint_hmac_key_def hmac_key_ok_def fp_append_iff)

interpretation fp_opt_hmac_key: prefix_code "flagged fingerprint_hmac_key" "pred_option hmac_key_ok"
  by (rule prefix_code_flagged) unfold_locales

lemma flagged_Bytes:
  "flagged (\<lambda>t. writeFingerprintField (Bytes t)) v = flagged writeFingerprintField (map_option Bytes v)"
  by (cases v) (simp_all add: flagged_def)

lemma fp_installation_iff:
  "installation_ok i \<Longrightarrow> installation_ok j \<Longrightarrow>
   (fingerprint_installation i @ s = fingerprint_installation j @ t) \<longleftrightarrow>
     bound_installation i = bound_installation j \<and> s = t"
  by (cases i; cases j; cases "inst_DeliveryMechanism i"; cases "inst_DeliveryMechanism j")
    (auto simp: fingerprint_installation_def installation_ok_def bound_installation_def fp_append_iff)

lemma map_Bytes_iff:
  "map_option (\<lambda>t. \<lparr>Kind = k, Identifier = i, Bytes = Bytes t\<rparr>) u =
   map_option (\<lambda>t. \<lparr>Kind = k, Identifier = i, Bytes = Bytes t\<rparr>) v \<longleftrightarrow> map_option Bytes u = map_option Bytes v"
  by (cases u; cases v) auto

lemma fp_subscription_iff:
  "subscription_ok i \<Longrightarrow> subscription_ok j \<Longrightarrow>
   (fingerprint_subscription i @ s = fingerprint_subscription j @ t) \<longleftrightarrow>
     bound_subscription i = bound_subscription j \<and> s = t"
  by (cases i; cases j)
    (auto simp: fingerprint_subscription_def subscription_ok_def bound_subscription_def fp_append_iff flagged_Bytes
      fp_opt_hmac_key.enc_append_iff fp_opt_route.enc_append_iff map_Bytes_iff option.pred_map comp_def)

lemma fingerprint_transcript_iff:
  assumes "request_ok r" and "request_ok s"
  shows "fingerprint_transcript r = fingerprint_transcript s \<longleftrightarrow> bound_part r = bound_part s"
proof -
  have mc: "(u :: MessageContext) = v \<longleftrightarrow> mc_MessageType u = mc_MessageType v \<and> mc_ShouldPush u = mc_ShouldPush v \<and>
      mc_HmacInputs u = mc_HmacInputs v \<and> mc_SenderHmac u = mc_SenderHmac v" for u v
    by (cases u; cases v) simp
  show ?thesis
    using assms
    by (cases r; cases s)
      (auto simp: fingerprint_transcript_def request_ok_def bound_part_def fp_append_iff mc
        fp_installation_iff fp_subscription_iff writeFingerprintOptional_flagged fp_opt_field.enc_eq_iff)
qed


section \<open>Sequences of policy operations\<close>

text \<open>
  The events of a run: an authorization issued at an address for a request, a delivery allowed
  through the authorization at an address, and everything else.
\<close>

datatype policy_op = OpAuthorize auth_ctx SendRequest | OpAllows auth_ctx SendRequest

datatype policy_event = Issued nat SendRequest | Allowed nat SendRequest | Refused

fun policy_step :: "auth_store \<Rightarrow> policy_op \<Rightarrow> auth_store \<times> policy_event" where
  "policy_step st (OpAuthorize ctx req) =
     (case AuthorizeDelivery st ctx req of
        (st', Some p, True) \<Rightarrow> (st', Issued p req)
      | (st', _, _) \<Rightarrow> (st', Refused))"
| "policy_step st (OpAllows ctx req) =
     (case (AllowsDelivery st ctx req, ctx) of
        ((st', True), Some p) \<Rightarrow> (st', Allowed p req)
      | ((st', _), _) \<Rightarrow> (st', Refused))"

fun policy_trace :: "auth_store \<Rightarrow> policy_op list \<Rightarrow> policy_event list" where
  "policy_trace st [] = []"
| "policy_trace st (oper # ops) = (case policy_step st oper of (st', e) \<Rightarrow> e # policy_trace st' ops)"

text \<open>The three kinds of step, and what each does to the store.\<close>

lemma policy_step_cases:
  assumes "policy_step st oper = (st', e)"
  obtains
    (issued) r where "e = Issued (length st) r" "eligible r"
      "st' = st @ [\<lparr>fingerprint = requestFingerprint r, consumed = False\<rparr>]"
  | (allowed) p r where "e = Allowed p r" "eligible r" "p < length st" "fingerprint (st ! p) = requestFingerprint r"
      "\<not> consumed (st ! p)" "st' = st[p := (st ! p)\<lparr>consumed := True\<rparr>]"
  | (refused) "e = Refused" "st' = st"
proof (cases oper)
  case (OpAuthorize ctx r)
  with assms that(1) [of r] that(3) show ?thesis
    by (cases "eligible r") (auto simp: AuthorizeDelivery_def authorize_def split: option.splits)
next
  case (OpAllows ctx r)
  show ?thesis
  proof (cases "\<exists>p. ctx = Some p \<and> eligible r \<and> p < length st \<and> fingerprint (st ! p) = requestFingerprint r \<and>
      \<not> consumed (st ! p)")
    case True
    with OpAllows assms that(2) show ?thesis
      by (auto simp: AllowsDelivery_def consumeAuthorization_def)
  next
    case False
    then have "AllowsDelivery st ctx r = (st, False)"
      by (auto simp: AllowsDelivery_def consumeAuthorization_def split: option.split)
    with OpAllows assms that(3) show ?thesis
      by simp
  qed
qed

text \<open>An address that is consumed stays consumed, so nothing is allowed through it any more.\<close>

lemma consumed_not_allowed:
  "p < length st \<Longrightarrow> consumed (st ! p) \<Longrightarrow> Allowed p r \<notin> set (policy_trace st ops)"
proof (induction ops arbitrary: st)
  case (Cons oper ops)
  obtain st' e where step: "policy_step st oper = (st', e)"
    by (cases "policy_step st oper")
  have "p < length st' \<and> consumed (st' ! p) \<and> Allowed p r \<noteq> e"
    using step Cons.prems by (elim policy_step_cases) (auto simp: nth_append nth_list_update)
  then show ?case
    using Cons.IH [of st'] by (simp add: step)
qed simp

text \<open>
  The authorizations of the store are the ones issued so far: \<open>us\<close> are the events of the run that
  produced the store, and the rest of the run continues from it.
\<close>

definition issued_by :: "auth_store \<Rightarrow> policy_event list \<Rightarrow> bool" where
  "issued_by st us \<longleftrightarrow>
     (\<forall>p < length st. \<exists>r. Issued p r \<in> set us \<and> eligible r \<and> fingerprint (st ! p) = requestFingerprint r) \<and>
     (\<forall>p r. Allowed p r \<in> set us \<longrightarrow> p < length st \<and> consumed (st ! p))"

lemma issued_by_step:
  "issued_by st us \<Longrightarrow> policy_step st oper = (st', e) \<Longrightarrow> issued_by st' (us @ [e])"
proof (elim policy_step_cases)
  fix r
  assume "issued_by st us" and st': "st' = st @ [\<lparr>fingerprint = requestFingerprint r, consumed = False\<rparr>]"
    and e: "e = Issued (length st) r" "eligible r"
  then show "issued_by st' (us @ [e])"
    unfolding issued_by_def by (auto simp: nth_append less_Suc_eq)
next
  fix p r
  assume "issued_by st us" and "e = Allowed p r" "p < length st" "st' = st[p := (st ! p)\<lparr>consumed := True\<rparr>]"
  then show "issued_by st' (us @ [e])"
    unfolding issued_by_def by (auto simp: nth_list_update)
qed (auto simp: issued_by_def)

lemma trace_split:
  "issued_by st us \<Longrightarrow> policy_trace st ops = vs @ Allowed p r # ws \<Longrightarrow>
   eligible r \<and> (\<exists>r'. Issued p r' \<in> set (us @ vs) \<and> eligible r' \<and> requestFingerprint r' = requestFingerprint r) \<and>
   (\<forall>r'. Allowed p r' \<notin> set (us @ vs) \<and> Allowed p r' \<notin> set ws)"
proof (induction ops arbitrary: st us vs)
  case (Cons oper ops)
  obtain st' e where step: "policy_step st oper = (st', e)"
    by (cases "policy_step st oper")
  note inv = issued_by_step [OF Cons.prems(1) step]
  show ?case
  proof (cases vs)
    case Nil
    then have e: "e = Allowed p r" and ws: "ws = policy_trace st' ops"
      using Cons.prems(2) by (simp_all add: step)
    have now: "eligible r" "p < length st" "fingerprint (st ! p) = requestFingerprint r" "\<not> consumed (st ! p)"
      and st': "p < length st'" "consumed (st' ! p)"
      using step unfolding e by (auto elim: policy_step_cases)
    then show ?thesis
      using Cons.prems(1) consumed_not_allowed [OF st'] by (fastforce simp: issued_by_def Nil ws)
  next
    case (Cons v vs')
    then have "e = v" "policy_trace st' ops = vs' @ Allowed p r # ws"
      using Cons.prems(2) by (simp_all add: step)
    then show ?thesis
      using Cons.IH [OF inv, of vs'] by (simp add: \<open>vs = v # vs'\<close>)
  qed
qed simp

section \<open>Properties\<close>

text \<open>A Welcome request that is eligible: the example of the witnesses.\<close>

definition example_time :: zoned_time where
  "example_time = \<lparr>zt_instant = 0, zt_offset = None\<rparr>"

definition example_route :: SecureRoute where
  "example_route = \<lparr>sr_LeaseID = ''lease'', sr_RouteKey = ''key'', sr_RouteKeyEpoch = 1, sr_NoncePrefix = 2,
     sr_DeliverySequence = 3, sr_AliasDay = ''2026-01-01'', sr_RouteAlias = ''alias'', sr_ReceiveCapability = ''cap'',
     sr_LeaseExpiresAt = example_time, sr_ControlExpiresAt = example_time, sr_PolicyEpoch = 4,
     sr_WelcomeAuthorized = True, sr_WelcomeAuthorizationID = ''id'', sr_WelcomeEnvelopeDigest = ''digest'', sr_A9 = None\<rparr>"

definition example_request :: SendRequest where
  "example_request = \<lparr>req_IdempotencyKey = ''idem'', req_Topic = ''t'', req_TopicBytesB64 = [],
     req_EncryptedMessage = ''m'', req_PayloadFormat = PayloadFormatV3,
     req_MessageContext = \<lparr>mc_MessageType = V3Welcome, mc_ShouldPush = None, mc_HmacInputs = None, mc_SenderHmac = None\<rparr>,
     req_Installation = \<lparr>inst_Id = ''i'', inst_DeliveryMechanism = \<lparr>dm_Kind = APNS, dm_Token = ''tok'',
       dm_UpdatedAt = example_time, dm_RegistrationVersion = 7\<rparr>, inst_PayloadFormat = PayloadFormatV3\<rparr>,
     req_Subscription = \<lparr>sub_Id = 1, sub_CreatedAt = example_time, sub_InstallationId = ''i'', sub_Topic = ''t'',
       sub_TopicV4 = None, sub_IsActive = True, sub_IsSilent = True, sub_ExpectedHmacKeyPeriod = None,
       sub_HmacKey = None, sub_SecureRoute = Some example_route\<rparr>\<rparr>"

lemma example_eligible: "eligible example_request"
  by (simp add: eligible_def example_request_def example_route_def)

lemma example_time_ok: "time_ok example_time"
  by (simp add: time_ok_def time_in_range_def example_time_def marshal_time_def zero_time_def second_def Let_def)

lemma example_request_ok: "request_ok example_request"
  by (simp add: request_ok_def example_request_def installation_ok_def subscription_ok_def route_ok_def
      example_route_def example_time_ok go_len_def APNS_def message_type_defs)



text \<open>
  C9. The fingerprint is the SHA-256 digest of a transcript, and two requests (with lengths that fit an
  \<open>int\<close> and times that marshal) have the same transcript exactly when they agree on everything
  but the registration version of the delivery mechanism (a parsed topic counting as its bytes): equal
  fingerprints of different requests are a collision of SHA-256.
\<close>

theorem fingerprint_binds_request:
  assumes "request_ok r" and "request_ok s"
  shows "requestFingerprint r = sha256 (fingerprint_transcript r) \<and>
    (fingerprint_transcript r = fingerprint_transcript s \<longleftrightarrow> bound_part r = bound_part s)"
  using fingerprint_transcript_iff [OF assms] by (simp add: requestFingerprint_def)

theorem fingerprint_binds_request_witness:
  "requestFingerprint example_request = sha256 (fingerprint_transcript example_request) \<and>
   fingerprint_transcript example_request \<noteq> fingerprint_transcript (example_request\<lparr>req_Topic := ''u''\<rparr>)"
proof -
  have "request_ok (example_request\<lparr>req_Topic := ''u''\<rparr>)"
    using example_request_ok by (simp add: request_ok_def go_len_def)
  moreover have "bound_part example_request \<noteq> bound_part (example_request\<lparr>req_Topic := ''u''\<rparr>)"
    by (simp add: bound_part_def example_request_def)
  ultimately show ?thesis
    using fingerprint_binds_request [OF example_request_ok] by blast
qed

text \<open>
  C11. Exactly what makes a request eligible. A Welcome needs an active, silent subscription whose
  secure route authorizes the Welcome, and carries none of the conversation metadata. A conversation
  message needs an explicit \<open>shouldPush\<close>, an active, audible subscription, a valid key of exactly
  the expected period (of 32 bytes on a secure route), and a 32-byte sender HMAC that differs from the
  one under that key: the sender's own installation is never notified. Nothing else is eligible.
\<close>

theorem eligible_iff:
  "eligible req \<longleftrightarrow>
     (let mc = req_MessageContext req; sub = req_Subscription req in
        (mc_MessageType mc = V3Welcome \<and> sub_IsActive sub \<and> sub_IsSilent sub \<and>
         (\<exists>route. sub_SecureRoute sub = Some route \<and> sr_WelcomeAuthorized route) \<and>
         mc_ShouldPush mc = None \<and> mc_HmacInputs mc = None \<and> mc_SenderHmac mc = None) \<or>
        (mc_MessageType mc = V3Conversation \<and> sub_IsActive sub \<and> \<not> sub_IsSilent sub \<and>
         mc_ShouldPush mc = Some True \<and>
         (\<exists>k i h. sub_HmacKey sub = Some k \<and> HmacKey_IsValid k \<and>
            sub_ExpectedHmacKeyPeriod sub = Some (hk_ThirtyDayPeriodsSinceEpoch k) \<and>
            (sub_SecureRoute sub = None \<or> length (hk_Key k) = 32) \<and>
            mc_HmacInputs mc = Some i \<and> mc_SenderHmac mc = Some h \<and> length h = 32 \<and>
            h \<noteq> hmac_sha256 (hk_Key k) i)))"
proof (cases "mc_MessageType (req_MessageContext req) = V3Conversation")
  case True
  then show ?thesis
    by (auto simp: Let_def eligible_conversation_iff exactPeriodHmacKey_Some)
next
  case False
  then show ?thesis
    by (auto simp: eligible_def Let_def split: option.splits)
qed

end
