(* ===== verification/Dispatcher.thy ===== *)
theory Dispatcher
  imports Delivery Push_Policy
begin

text \<open>
  The delivery dispatcher and the durable workers: \<open>src/pkg/xmtp/common.go\<close> and
  \<open>src/pkg/xmtp/durable_worker.go\<close>, on top of the queue, the push policy and the provider errors.

  Delivery services and the token invalidator are interface values and so arguments. What the database
  answers, the clock, the new ticket and what other workers do to the queue between the claim and the
  recorded outcome are arguments of a dispatch. Timeouts appear as the answers they lead to. A loop
  that waits for the outside world is a partial function of the answers it gets.
\<close>

section \<open>Dispatch\<close>

record dispatch_state =
  ds_queue :: queue_db
  ds_auth :: auth_store
  ds_sent :: "SendRequest list"
  ds_retired :: "(Installation \<times> time) list"

text \<open>A delivery service: what it can deliver, and what sending does with the authorization and answers.\<close>

record delivery_service =
  svc_CanDeliver :: "SendRequest \<Rightarrow> bool"
  svc_Send :: "auth_store \<Rightarrow> auth_ctx \<Rightarrow> SendRequest \<Rightarrow> auth_store \<times> go_error option"

record deliveryDispatcher =
  dd_deliveryServices :: "delivery_service list"
  dd_invalidTokens :: "(Installation \<Rightarrow> time \<Rightarrow> go_error option) option"
  dd_queue :: bool

text \<open>The answers a dispatch gets from outside.\<close>

record dispatch_answers =
  da_claim :: db_outcome
  da_status :: db_outcome
  da_now :: time
  da_ticket :: bytes
  da_others :: "queue_op list"
  da_finish :: db_outcome
  da_finishNow :: time

definition firstInvalidator :: "'a option list \<Rightarrow> 'a option" where
  "firstInvalidator invalidators = first_some invalidators"

definition newDeliveryDispatcher ::
    "delivery_service list \<Rightarrow> (Installation \<Rightarrow> time \<Rightarrow> go_error option) option list \<Rightarrow> deliveryDispatcher" where
  "newDeliveryDispatcher services invalidators =
     \<lparr>dd_deliveryServices = services, dd_invalidTokens = firstInvalidator invalidators, dd_queue = False\<rparr>"

text \<open>The token of a rejection that proves it dead, with the time it died.\<close>

definition dead_token :: "go_error option \<Rightarrow> time option" where
  "dead_token err = (case err of
     None \<Rightarrow> None
   | Some e \<Rightarrow> (case as_apns e of
       None \<Rightarrow> None
     | Some r \<Rightarrow> if ar_InvalidToken r \<and> ar_UnregisteredAt r \<noteq> zero_time then Some (ar_UnregisteredAt r) else None))"

definition send :: "deliveryDispatcher \<Rightarrow> auth_ctx \<Rightarrow> SendRequest \<Rightarrow> dispatch_state \<Rightarrow> dispatch_state \<times> bool \<times> go_error option" where
  "send d ctx req w =
     (case find (\<lambda>s. svc_CanDeliver s req) (dd_deliveryServices d) of
        None \<Rightarrow> (w, False, None)
      | Some service \<Rightarrow>
          (let (auth, sendErr) = svc_Send service (ds_auth w) ctx req;
               w1 = w\<lparr>ds_auth := auth, ds_sent := ds_sent w @ [req]\<rparr>
           in case (dd_invalidTokens d, dead_token sendErr) of
                (Some invalidate, Some unregisteredAt) \<Rightarrow>
                  (let w2 = w1\<lparr>ds_retired := ds_retired w @ [(req_Installation req, unregisteredAt)]\<rparr> in
                   case invalidate (req_Installation req) unregisteredAt of
                     None \<Rightarrow> (w2, True, sendErr)
                   | Some err \<Rightarrow> (w2, True, errors_join [sendErr, Some (tokenCleanupError err)]))
              | _ \<Rightarrow> (w1, True, sendErr)))"

definition finishRecipient ::
    "dispatch_answers \<Rightarrow> NotificationEnvelope \<Rightarrow> SendRequest \<Rightarrow> bytes \<Rightarrow> go_error option \<Rightarrow> bytes \<Rightarrow> bytes \<Rightarrow> dispatch_state \<Rightarrow>
     dispatch_state \<times> go_error option" where
  "finishRecipient c env req ticket sendErr status failureClass w =
     (case FinishRecipient (da_finish c) (da_finishNow c) env (inst_Id (req_Installation req)) ticket status failureClass
         (queue_run (da_others c) (ds_queue w)) of
        (q, Some err) \<Rightarrow> (w\<lparr>ds_queue := q\<rparr>, errors_join [sendErr, Some (Queue err)])
      | (q, None) \<Rightarrow> (w\<lparr>ds_queue := q\<rparr>, if status = ''pending'' then sendErr else None))"

text \<open>What is recorded for an answer of the provider.\<close>

definition recipient_outcome :: "bool \<Rightarrow> go_error option \<Rightarrow> bytes \<times> bytes" where
  "recipient_outcome matched sendErr =
     (if \<not> matched then (''rejected'', ''no_provider'')
      else (case sendErr of
          None \<Rightarrow> (''accepted'', [])
        | Some e \<Rightarrow>
            if has_cleanup e then (''pending'', ''token_cleanup'')
            else if IsPermanentFailure e then (''rejected'', ''provider_permanent'')
            else (''pending'', ''provider_transient'')))"

definition dispatch_durable ::
    "deliveryDispatcher \<Rightarrow> dispatch_answers \<Rightarrow> auth_ctx \<Rightarrow> NotificationEnvelope \<Rightarrow> SendRequest \<Rightarrow> bytes \<Rightarrow> dispatch_state \<Rightarrow>
     dispatch_state \<times> go_error option" where
  "dispatch_durable d c ctx env req ticket w =
     (case AuthorizeDelivery (ds_auth w) ctx req of
        (auth, _, False) \<Rightarrow> finishRecipient c env req ticket None ''rejected'' ''suppressed'' (w\<lparr>ds_auth := auth\<rparr>)
      | (auth, ctx', True) \<Rightarrow>
          (case send d ctx' req (w\<lparr>ds_auth := auth\<rparr>) of
             (w', matched, sendErr) \<Rightarrow>
               (case recipient_outcome matched sendErr of
                  (status, failureClass) \<Rightarrow> finishRecipient c env req ticket (if matched then sendErr else None) status failureClass w')))"

definition dispatch_direct ::
    "deliveryDispatcher \<Rightarrow> auth_ctx \<Rightarrow> SendRequest \<Rightarrow> dispatch_state \<Rightarrow> dispatch_state \<times> go_error option" where
  "dispatch_direct d ctx req w =
     (case AuthorizeDelivery (ds_auth w) ctx req of
        (auth, _, False) \<Rightarrow> (w\<lparr>ds_auth := auth\<rparr>, None)
      | (auth, ctx', True) \<Rightarrow> (case send d ctx' req (w\<lparr>ds_auth := auth\<rparr>) of (w', _, sendErr) \<Rightarrow> (w', sendErr)))"

text \<open>The whole dispatch; \<open>env\<close> is the envelope captured in the context.\<close>

definition dispatchContext ::
    "deliveryDispatcher \<Rightarrow> dispatch_answers \<Rightarrow> auth_ctx \<Rightarrow> NotificationEnvelope option \<Rightarrow> SendRequest \<Rightarrow> dispatch_state \<Rightarrow>
     dispatch_state \<times> go_error option" where
  "dispatchContext d c ctx env req w =
     (case (dd_queue d, env) of
        (True, Some e) \<Rightarrow>
          (case ClaimRecipient (da_claim c) (da_status c) (da_now c) (da_ticket c) e (inst_Id (req_Installation req)) (ds_queue w) of
             (q, Inl err) \<Rightarrow> (w\<lparr>ds_queue := q\<rparr>, Some (Queue err))
           | (q, Inr (ticket, done)) \<Rightarrow>
               if done then (w\<lparr>ds_queue := q\<rparr>, None) else dispatch_durable d c ctx e req ticket (w\<lparr>ds_queue := q\<rparr>))
      | _ \<Rightarrow> dispatch_direct d ctx req w)"

fun eligible_ids :: "auth_store \<Rightarrow> auth_ctx \<Rightarrow> SendRequest list \<Rightarrow> auth_store \<times> bytes list" where
  "eligible_ids st ctx [] = (st, [])"
| "eligible_ids st ctx (req # reqs) =
     (case AuthorizeDelivery st ctx req of
        (st', _, allowed) \<Rightarrow> (case eligible_ids st' ctx reqs of
          (st'', ids) \<Rightarrow> (st'', if allowed then inst_Id (req_Installation req) # ids else ids)))"

definition prepareRecipients ::
    "deliveryDispatcher \<Rightarrow> db_outcome \<Rightarrow> time \<Rightarrow> auth_ctx \<Rightarrow> NotificationEnvelope option \<Rightarrow> SendRequest list \<Rightarrow> dispatch_state \<Rightarrow>
     dispatch_state \<times> go_error option" where
  "prepareRecipients d out now ctx env requests w =
     (case (dd_queue d, env) of
        (True, Some e) \<Rightarrow>
          (case eligible_ids (ds_auth w) ctx requests of
             (st, ids) \<Rightarrow> (case PrepareRecipients out now e ids (ds_queue w) of
               (q, err) \<Rightarrow> (w\<lparr>ds_auth := st, ds_queue := q\<rparr>, map_option Queue err)))
      | _ \<Rightarrow> (w, None))"

section \<open>The egress gate\<close>

lemma finishRecipient_simps [simp]:
  "ds_sent (fst (finishRecipient c env req ticket sendErr status class w)) = ds_sent w"
  "ds_auth (fst (finishRecipient c env req ticket sendErr status class w)) = ds_auth w"
  "ds_retired (fst (finishRecipient c env req ticket sendErr status class w)) = ds_retired w"
  by (simp_all add: finishRecipient_def split: prod.split option.split)

lemma send_sent:
  "ds_sent (fst (send d ctx req w)) = ds_sent w @ (if list_ex (\<lambda>s. svc_CanDeliver s req) (dd_deliveryServices d) then [req] else [])"
  by (auto simp: send_def Let_def find_None_iff list_ex_iff split: option.split prod.split dest: find_member)

lemma send_queue [simp]: "ds_queue (fst (send d ctx req w)) = ds_queue w"
  by (simp add: send_def Let_def split: option.split prod.split)

text \<open>What dispatching adds to the log of provider calls.\<close>

lemma dispatch_durable_sent:
  "ds_sent (fst (dispatch_durable d c ctx env req ticket w)) = ds_sent w \<or>
   (ds_sent (fst (dispatch_durable d c ctx env req ticket w)) = ds_sent w @ [req] \<and> eligible req)"
proof (cases "eligible req")
  case True
  then obtain auth ctx' where "AuthorizeDelivery (ds_auth w) ctx req = (auth, ctx', True)"
    by (simp add: AuthorizeDelivery_def authorize_def)
  then show ?thesis
    using True send_sent [of d ctx' req "w\<lparr>ds_auth := auth\<rparr>"]
    by (cases "send d ctx' req (w\<lparr>ds_auth := auth\<rparr>)") (auto simp: dispatch_durable_def split: prod.split)
qed (simp add: dispatch_durable_def AuthorizeDelivery_def)

lemma dispatch_direct_sent:
  "ds_sent (fst (dispatch_direct d ctx req w)) = ds_sent w \<or>
   (ds_sent (fst (dispatch_direct d ctx req w)) = ds_sent w @ [req] \<and> eligible req)"
proof (cases "eligible req")
  case True
  then obtain auth ctx' where "AuthorizeDelivery (ds_auth w) ctx req = (auth, ctx', True)"
    by (simp add: AuthorizeDelivery_def authorize_def)
  then show ?thesis
    using True send_sent [of d ctx' req "w\<lparr>ds_auth := auth\<rparr>"]
    by (cases "send d ctx' req (w\<lparr>ds_auth := auth\<rparr>)") (auto simp: dispatch_direct_def split: prod.split)
qed (simp add: dispatch_direct_def AuthorizeDelivery_def)

lemma dispatch_egress:
  "(case dispatchContext d c ctx env req w of
      (w', _) \<Rightarrow> ds_sent w' = ds_sent w \<or>
        (ds_sent w' = ds_sent w @ [req] \<and> eligible req \<and>
         (case (dd_queue d, env) of
            (True, Some e) \<Rightarrow> queue_grants (ne_ID e, inst_Id (req_Installation req)) (ds_queue w)
          | _ \<Rightarrow> True)))"
proof (cases "dd_queue d \<and> env \<noteq> None")
  case True
  then obtain e where e: "env = Some e" "dd_queue d"
    by auto
  let ?claim = "ClaimRecipient (da_claim c) (da_status c) (da_now c) (da_ticket c) e (inst_Id (req_Installation req)) (ds_queue w)"
  obtain q r where claim: "?claim = (q, r)"
    by fastforce
  show ?thesis
  proof (cases "\<exists>ticket. r = Inr (ticket, False)")
    case True
    then obtain ticket where "r = Inr (ticket, False)"
      by blast
    moreover have "queue_grants (ne_ID e, inst_Id (req_Installation req)) (ds_queue w)"
      unfolding queue_grants_def using claim \<open>r = Inr (ticket, False)\<close> by (metis fst_conv snd_conv)
    ultimately show ?thesis
      using claim dispatch_durable_sent [of d c ctx e req ticket "w\<lparr>ds_queue := q\<rparr>"]
      by (auto simp: dispatchContext_def e split: prod.split)
  next
    case False
    then show ?thesis
      using claim by (cases r) (auto simp: dispatchContext_def e split: prod.split bool.split)
  qed
next
  case False
  then show ?thesis
    using dispatch_direct_sent [of d ctx req w] by (auto simp: dispatchContext_def split: prod.split option.split bool.split)
qed


section \<open>No delivery after a recorded outcome\<close>

lemma errors_join_Some [simp]: "errors_join [x, Some e] = None \<longleftrightarrow> False"
  by (cases x) (simp_all add: errors_join_def List.map_filter_def)

lemma finishRecipient_records:
  assumes "finishRecipient c env req ticket sendErr status class w = (w', None)" and "status = ''pending'' \<longrightarrow> sendErr \<noteq> None"
  shows "queue_records (ne_ID env, inst_Id (req_Installation req)) (queue_run (da_others c) (ds_queue w)) (ds_queue w')"
proof -
  have "FinishRecipient (da_finish c) (da_finishNow c) env (inst_Id (req_Installation req)) ticket status class
      (queue_run (da_others c) (ds_queue w)) = (ds_queue w', None)" "status \<noteq> ''pending''"
    using assms by (auto simp: finishRecipient_def split: prod.split_asm option.split_asm if_split_asm)
  then show ?thesis
    unfolding queue_records_def fst_conv snd_conv by blast
qed

lemma recipient_outcome_pending: "recipient_outcome matched sendErr = (''pending'', class) \<Longrightarrow> matched \<and> sendErr \<noteq> None"
  by (auto simp: recipient_outcome_def split: if_split_asm option.split_asm)

lemma dispatch_durable_records:
  assumes "dispatch_durable d c ctx env req ticket w = (w', None)"
  shows "queue_records (ne_ID env, inst_Id (req_Installation req)) (queue_run (da_others c) (ds_queue w)) (ds_queue w')"
proof (cases "eligible req")
  case True
  then obtain auth ctx' where auth: "AuthorizeDelivery (ds_auth w) ctx req = (auth, ctx', True)"
    by (simp add: AuthorizeDelivery_def authorize_def)
  obtain w2 matched sendErr where sent: "send d ctx' req (w\<lparr>ds_auth := auth\<rparr>) = (w2, matched, sendErr)"
    by (metis prod_cases3)
  obtain status cls where outcome: "recipient_outcome matched sendErr = (status, cls)"
    by fastforce
  have "ds_queue w2 = ds_queue w"
    using send_queue [of d ctx' req "w\<lparr>ds_auth := auth\<rparr>"] by (simp add: sent)
  moreover have "finishRecipient c env req ticket (if matched then sendErr else None) status cls w2 = (w', None)"
    using assms by (simp add: dispatch_durable_def auth sent outcome)
  moreover have "status = ''pending'' \<longrightarrow> (if matched then sendErr else None) \<noteq> None"
    using recipient_outcome_pending [of matched sendErr cls] outcome by auto
  ultimately show ?thesis
    using finishRecipient_records [of c env req ticket "if matched then sendErr else None" status cls w2 w'] by simp
next
  case False
  then have "finishRecipient c env req ticket None ''rejected'' ''suppressed'' w = (w', None)"
    using assms by (simp add: dispatch_durable_def AuthorizeDelivery_def)
  then show ?thesis
    by (rule finishRecipient_records) simp
qed

lemma ClaimRecipient_run: "\<exists>ops. fst (ClaimRecipient out out2 now ticket env inst db) = queue_run ops db"
  by (rule exI [of _ "[OpClaimRecipient out out2 now ticket env inst]"]) simp

lemma durable_dispatch_records:
  assumes "dispatchContext d c ctx (Some env) req w = (w', None)" and "dd_queue d" and "ds_sent w' \<noteq> ds_sent w"
  shows "\<exists>ops. queue_records (ne_ID env, inst_Id (req_Installation req)) (queue_run ops (ds_queue w)) (ds_queue w')"
proof -
  let ?claim = "ClaimRecipient (da_claim c) (da_status c) (da_now c) (da_ticket c) env (inst_Id (req_Installation req)) (ds_queue w)"
  obtain q r where claim: "?claim = (q, r)"
    by fastforce
  obtain ops where q: "q = queue_run ops (ds_queue w)"
    using ClaimRecipient_run claim by (metis fst_conv)
  obtain ticket where "dispatch_durable d c ctx env req ticket (w\<lparr>ds_queue := q\<rparr>) = (w', None)"
    using assms claim by (auto simp: dispatchContext_def split: sum.split_asm prod.split_asm bool.split_asm if_split_asm)
  then have "queue_records (ne_ID env, inst_Id (req_Installation req)) (queue_run (da_others c) q) (ds_queue w')"
    using dispatch_durable_records by fastforce
  then show ?thesis
    unfolding q by (metis queue_run_def fold_append comp_apply)
qed

text \<open>
  C19. From end to end: when a durable dispatch has called a provider and reports success, no later
  dispatch of the same envelope to the same installation calls a provider again, by any worker, after
  any number of restarts, retries, lease expiries and database failures.
\<close>

theorem no_redelivery_after_success:
  assumes "dispatchContext d c ctx (Some env) req w = (w1, None)" and "dd_queue d" and "ds_sent w1 \<noteq> ds_sent w"
    and "ds_queue w = queue_run ops empty_queue" and "ds_queue w2 = queue_run ops' (ds_queue w1)"
    and "dd_queue d'" and "ne_ID env' = ne_ID env" and "inst_Id (req_Installation req') = inst_Id (req_Installation req)"
  shows "ds_sent (fst (dispatchContext d' c' ctx' (Some env') req' w2)) = ds_sent w2"
proof -
  obtain ops1 where "queue_records (ne_ID env, inst_Id (req_Installation req)) (queue_run ops1 (ds_queue w)) (ds_queue w1)"
    using durable_dispatch_records [OF assms(1-3)] by blast
  moreover have "queue_ok (queue_run ops1 (ds_queue w))"
    unfolding assms(4) by (intro queue_run_ok empty_queue_ok)
  ultimately have "\<not> queue_grants (ne_ID env, inst_Id (req_Installation req)) (ds_queue w2)"
    using queue_ledger.recorded_once assms(5) by blast
  then show ?thesis
    using dispatch_egress [where d = d' and c = c' and ctx = ctx' and env = "Some env'" and req = req' and w = w2] assms(6-8)
    by (cases "dispatchContext d' c' ctx' (Some env') req' w2") auto
qed

definition example_dispatcher :: deliveryDispatcher where
  "example_dispatcher = \<lparr>dd_deliveryServices = [\<lparr>svc_CanDeliver = \<lambda>_. True, svc_Send = \<lambda>st _ _. (st, None)\<rparr>],
     dd_invalidTokens = None, dd_queue = True\<rparr>"

definition example_answers :: dispatch_answers where
  "example_answers = \<lparr>da_claim = DbOk, da_status = DbOk, da_now = 3, da_ticket = ''T1'', da_others = [], da_finish = DbOk,
     da_finishNow = 4\<rparr>"

definition example_prepared :: "queue_op list" where
  "example_prepared = [OpEnqueue DbOk 0 ''v3'' ''k'' ''p'', OpClaim DbOk 1 (\<lambda>_. False) ''L1'' ''v3'',
     OpPrepare DbOk 2 example_claimed [inst_Id (req_Installation example_request)]]"

definition example_state :: dispatch_state where
  "example_state = \<lparr>ds_queue = queue_run example_prepared empty_queue, ds_auth = [], ds_sent = [], ds_retired = []\<rparr>"

lemma example_dispatch:
  "\<exists>w1. dispatchContext example_dispatcher example_answers None (Some example_claimed) example_request example_state = (w1, None) \<and>
     ds_sent w1 = [example_request]"
proof -
  have "inst_Id (req_Installation example_request) \<noteq> []"
    by (simp add: example_request_def)
  then show ?thesis
    using example_eligible
    by (simp add: dispatchContext_def example_dispatcher_def example_answers_def example_state_def example_prepared_def
        dispatch_durable_def AuthorizeDelivery_def authorize_def send_def dead_token_def recipient_outcome_def finishRecipient_def
        queue_eval)
qed

theorem no_redelivery_after_success_witness:
  "\<exists>w1. dispatchContext example_dispatcher example_answers None (Some example_claimed) example_request example_state = (w1, None) \<and>
     ds_sent (fst (dispatchContext example_dispatcher example_answers None (Some example_claimed) example_request w1)) = [example_request]"
proof -
  obtain w1 where w1: "dispatchContext example_dispatcher example_answers None (Some example_claimed) example_request example_state = (w1, None)"
      "ds_sent w1 = [example_request]"
    using example_dispatch by blast
  then have "ds_sent (fst (dispatchContext example_dispatcher example_answers None (Some example_claimed) example_request w1)) = ds_sent w1"
    by (intro no_redelivery_after_success [OF w1(1), where ops = example_prepared and ops' = "[]"])
      (simp_all add: example_dispatcher_def example_state_def)
  then show ?thesis
    using w1 by simp
qed

end
