(* ===== verification/Durable_Worker.thy ===== *)
theory Durable_Worker
  imports Dispatcher
begin

text \<open>
  The durable workers of \<open>src/pkg/xmtp/durable_worker.go\<close> and the retry loops of
  \<open>src/pkg/xmtp/common.go\<close>: admission of received frames, one attempt at a claimed envelope under a
  renewed lease, the iterations of a worker and its health.

  A loop gets what the outside world answers as an argument: how long a step takes, whether the context
  is cancelled, what the database does. A loop that may wait forever is a partial function whose value
  is \<open>None\<close> when it does not return.
\<close>

section \<open>Retry loops\<close>

definition STARTING_SLEEP_TIME :: duration where "STARTING_SLEEP_TIME = 100 * millisecond"
definition MAX_SLEEP_TIME :: duration where "MAX_SLEEP_TIME = 30 * second"
definition DELIVERY_TIMEOUT :: duration where "DELIVERY_TIMEOUT = 15 * second"
definition ENVELOPE_RETRY_WINDOW :: duration where "ENVELOPE_RETRY_WINDOW = 30 * second"

definition cappedBackoff :: "duration \<Rightarrow> duration" where
  "cappedBackoff sleepTime = (let doubled = sleepTime * 2 in if MAX_SLEEP_TIME < doubled then MAX_SLEEP_TIME else doubled)"

text \<open>
  Waiting before a reconnection: whether the context was done before, during or after the wait; the
  delay grows only when the timer fired.
\<close>

definition waitForReconnect :: "bool \<Rightarrow> bool \<Rightarrow> bool \<Rightarrow> duration \<Rightarrow> duration \<times> bool" where
  "waitForReconnect doneBefore doneFirst doneAfter delay =
     (if doneBefore then (delay, False)
      else if doneFirst then (delay, False)
      else (cappedBackoff delay, \<not> doneAfter))"

text \<open>
  The attempts at one envelope within a window: the \<open>n\<close>-th attempt takes some time and succeeds or fails.
  The deadline wins against a timer that would fire at or after it.
\<close>

partial_function (option) retry_loop ::
    "(nat \<Rightarrow> duration \<times> bool) \<Rightarrow> duration \<Rightarrow> nat \<Rightarrow> duration \<Rightarrow> duration \<Rightarrow> (bool \<times> nat) option" where
  "retry_loop process window n elapsed delay =
     (let now = elapsed + fst (process n) in
      if snd (process n) then Some (True, Suc n)
      else if window \<le> now + delay then Some (False, Suc n)
      else retry_loop process window (Suc n) (now + delay) (cappedBackoff delay))"

definition retryEnvelopeProcessing :: "(nat \<Rightarrow> duration \<times> bool) option \<Rightarrow> duration \<Rightarrow> (bool \<times> nat) option" where
  "retryEnvelopeProcessing process retryWindow = (case process of
     None \<Rightarrow> Some (True, 0)
   | Some p \<Rightarrow> retry_loop p (if retryWindow \<le> 0 then ENVELOPE_RETRY_WINDOW else retryWindow) 0 0 STARTING_SLEEP_TIME)"

lemma cappedBackoff_bounds:
  "STARTING_SLEEP_TIME \<le> delay \<Longrightarrow> STARTING_SLEEP_TIME \<le> cappedBackoff delay \<and> cappedBackoff delay \<le> MAX_SLEEP_TIME"
  by (auto simp: cappedBackoff_def Let_def STARTING_SLEEP_TIME_def MAX_SLEEP_TIME_def duration_defs)

lemma retry_loop_returns:
  assumes "\<And>n. 0 \<le> fst (process n)" and "STARTING_SLEEP_TIME \<le> delay"
  shows "\<exists>r. retry_loop process window n elapsed delay = Some r"
  using assms(2)
proof (induction "nat (window - elapsed)" arbitrary: n elapsed delay rule: less_induct)
  case less
  let ?now = "elapsed + fst (process n)"
  have "0 < STARTING_SLEEP_TIME"
    by (simp add: STARTING_SLEEP_TIME_def millisecond_def)
  then have "nat (window - (?now + delay)) < nat (window - elapsed)" if "\<not> window \<le> ?now + delay"
    using that assms(1) [of n] less.prems by linarith
  then show ?case
    using less cappedBackoff_bounds by (subst retry_loop.simps) (auto simp: Let_def)
qed

text \<open>In the default window the delays double from a tenth of a second: the ninth attempt is the last.\<close>

lemma retry_loop_attempts:
  assumes "\<And>n. 0 \<le> fst (process n)" and "n \<le> 8" and "(2 ^ n - 1) * STARTING_SLEEP_TIME \<le> elapsed"
    and "retry_loop process ENVELOPE_RETRY_WINDOW n elapsed (2 ^ n * STARTING_SLEEP_TIME) = Some (ok, m)"
  shows "m \<le> 9"
  using assms(2-4)
proof (induction "8 - n" arbitrary: n elapsed)
  case 0
  then have n: "n = 8"
    by simp
  have "ENVELOPE_RETRY_WINDOW \<le> elapsed + fst (process 8) + 2 ^ 8 * STARTING_SLEEP_TIME"
    using 0 assms(1) [of 8] by (simp add: n ENVELOPE_RETRY_WINDOW_def STARTING_SLEEP_TIME_def duration_defs)
  then show ?case
    using 0(4) by (subst (asm) retry_loop.simps) (auto simp: n Let_def split: if_split_asm)
next
  case (Suc k)
  let ?delay = "2 ^ n * STARTING_SLEEP_TIME"
  have "n < 8"
    using Suc.hyps(2) by simp
  then have "(2::int) ^ n * 2 \<le> 2 ^ 8"
    using power_increasing [of "Suc n" 8 "2::int"] by simp
  then have next_delay: "cappedBackoff ?delay = 2 ^ Suc n * STARTING_SLEEP_TIME"
    by (simp add: cappedBackoff_def Let_def MAX_SLEEP_TIME_def STARTING_SLEEP_TIME_def duration_defs)
  have "(2 ^ Suc n - 1) * STARTING_SLEEP_TIME = (2 ^ n - 1) * STARTING_SLEEP_TIME + ?delay"
    by (simp add: algebra_simps)
  then have later: "(2 ^ Suc n - 1) * STARTING_SLEEP_TIME \<le> elapsed + fst (process n) + ?delay"
    using Suc.prems(2) assms(1) [of n] by linarith
  show ?case
  proof (cases "snd (process n) \<or> ENVELOPE_RETRY_WINDOW \<le> elapsed + fst (process n) + ?delay")
    case True
    then show ?thesis
      using Suc.prems(3) \<open>n < 8\<close> by (subst (asm) retry_loop.simps) (auto simp: Let_def split: if_split_asm)
  next
    case False
    then have "retry_loop process ENVELOPE_RETRY_WINDOW (Suc n) (elapsed + fst (process n) + ?delay) (2 ^ Suc n * STARTING_SLEEP_TIME) = Some (ok, m)"
      using Suc.prems(3) next_delay by (subst (asm) retry_loop.simps) (simp add: Let_def)
    then show ?thesis
      using Suc.hyps(1) [OF _ _ later] Suc.hyps(2) \<open>n < 8\<close> by simp
  qed
qed

text \<open>
  C25. Retrying an envelope always comes to an end, however long the attempts take and however they fail;
  within the default window of thirty seconds there are at most nine attempts.
\<close>

theorem retry_terminates:
  assumes "\<And>n. 0 \<le> fst (process n)"
  shows "\<exists>ok n. retryEnvelopeProcessing (Some process) retryWindow = Some (ok, n) \<and> (retryWindow \<le> 0 \<longrightarrow> n \<le> 9)"
proof -
  obtain ok n where r: "retryEnvelopeProcessing (Some process) retryWindow = Some (ok, n)"
    using retry_loop_returns [OF assms, of STARTING_SLEEP_TIME] by (force simp: retryEnvelopeProcessing_def)
  moreover have "n \<le> 9" if "retryWindow \<le> 0"
    using r that retry_loop_attempts [where process = process and n = 0 and elapsed = 0 and ok = ok and m = n] assms by (simp add: retryEnvelopeProcessing_def)
  ultimately show ?thesis
    by blast
qed

theorem retry_terminates_witness:
  "\<exists>ok n. retryEnvelopeProcessing (Some (\<lambda>n. (5, 3 \<le> n))) 0 = Some (ok, n) \<and> n \<le> 9"
  using retry_terminates [of "\<lambda>n. (5, 3 \<le> n)" 0] by auto

section \<open>Admission of received frames\<close>

text \<open>
  What one round of the admission loop meets: the context, the operations of other workers, what the
  database does, and whether the context ends during the wait.
\<close>

record admission_answer =
  aa_ctxDone :: bool
  aa_others :: "queue_op list"
  aa_outcome :: db_outcome
  aa_now :: time
  aa_waitStopped :: bool

text \<open>The result: the queue, whether the stream may go on, and the readiness flag.\<close>

partial_function (option) persist_loop ::
    "(nat \<Rightarrow> admission_answer) \<Rightarrow> nat \<Rightarrow> bytes \<Rightarrow> bytes \<Rightarrow> bytes \<Rightarrow> bool \<Rightarrow> queue_db \<Rightarrow> (queue_db \<times> bool \<times> bool) option" where
  "persist_loop answers n version key payload ready db =
     (let a = answers n in
      if aa_ctxDone a then Some (db, False, ready)
      else (case Enqueue (aa_outcome a) (aa_now a) version key payload (queue_run (aa_others a) db) of
          (db', None) \<Rightarrow> Some (db', True, True)
        | (db', Some err) \<Rightarrow>
            if is_invalid_envelope err then Some (db', True, True)
            else if aa_waitStopped a then Some (db', False, False)
            else persist_loop answers (Suc n) version key payload False db'))"

definition persistEnvelope :: "(nat \<Rightarrow> admission_answer) \<Rightarrow> bytes \<Rightarrow> bytes \<Rightarrow> bytes \<Rightarrow> bool \<Rightarrow> queue_db \<Rightarrow> (queue_db \<times> bool \<times> bool) option" where
  "persistEnvelope answers version key payload ready db = persist_loop answers 0 version key payload ready db"

text \<open>A frame the queue can never admit.\<close>

definition inadmissible :: "bytes \<Rightarrow> bytes \<Rightarrow> bytes \<Rightarrow> bool" where
  "inadmissible version key payload \<longleftrightarrow> (version \<noteq> ''v3'' \<and> version \<noteq> ''v4'') \<or> key = [] \<or> 128 < length key \<or>
     payload = [] \<or> MaxEnvelopeBytes < length payload"

lemma Enqueue_ok_exists:
  assumes "Enqueue out now listener key payload db = (db', None)"
  shows "NotificationEnvelopeExists listener key db'"
proof -
  have "enqueue_tx now listener key payload db = Inr db'"
    using assms by (auto simp: Enqueue_def RunInTx_def split: if_split_asm prod.split_asm option.split_asm sum.split_asm)
  then show ?thesis
    by (auto simp: enqueue_tx_def Let_def of_stmt_def EnqueueNotificationEnvelope_def RecordRejectedNotificationEnvelope_def
        insert_envelope_def NotificationEnvelopeExists_def new_row_def split: if_split_asm option.split_asm prod.split_asm)
qed

lemma Enqueue_invalid:
  assumes "Enqueue out now listener key payload db = (db', Some err)" and "is_invalid_envelope err"
  shows "inadmissible listener key payload"
proof (rule ccontr)
  assume "\<not> inadmissible listener key payload"
  then have "snd (RunInTx out (enqueue_tx now listener key payload) db) = Some err"
    using assms(1) by (auto simp: inadmissible_def Enqueue_def split: prod.split_asm option.split_asm)
  then show False
    using assms(2)
    by (auto simp: RunInTx_def enqueue_tx_def Let_def of_stmt_def is_invalid_envelope_def
        split: if_split_asm prod.split_asm option.split_asm sum.split_asm)
qed

lemma persist_loop_durable:
  assumes "persist_loop answers n version key payload ready db = Some (db', True, ready')"
  shows "ready' \<and> (NotificationEnvelopeExists version key db' \<or> inadmissible version key payload)"
proof -
  let ?safe = "\<lambda>version key payload (r :: queue_db \<times> bool \<times> bool).
    fst (snd r) \<longrightarrow> snd (snd r) \<and> (NotificationEnvelopeExists version key (fst r) \<or> inadmissible version key payload)"
  have "?safe version key payload (db', True, ready')"
  proof (rule persist_loop.raw_induct [where P = "\<lambda>answers n version key payload ready db r. ?safe version key payload r", OF _ assms])
    fix loop :: "(nat \<Rightarrow> admission_answer) \<Rightarrow> nat \<Rightarrow> bytes \<Rightarrow> bytes \<Rightarrow> bytes \<Rightarrow> bool \<Rightarrow> queue_db \<Rightarrow> (queue_db \<times> bool \<times> bool) option"
      and answers n version key payload ready db r
    assume IH: "\<And>answers n version key payload ready db r. loop answers n version key payload ready db = Some r \<Longrightarrow> ?safe version key payload r"
      and step: "(let a = answers n in
        if aa_ctxDone a then Some (db, False, ready)
        else (case Enqueue (aa_outcome a) (aa_now a) version key payload (queue_run (aa_others a) db) of
            (db', None) \<Rightarrow> Some (db', True, True)
          | (db', Some err) \<Rightarrow>
              if is_invalid_envelope err then Some (db', True, True)
              else if aa_waitStopped a then Some (db', False, False)
              else loop answers (Suc n) version key payload False db')) = Some r"
    obtain db1 err where enq: "Enqueue (aa_outcome (answers n)) (aa_now (answers n)) version key payload
        (queue_run (aa_others (answers n)) db) = (db1, err)"
      by fastforce
    show "?safe version key payload r"
      using step IH [of answers "Suc n" version key payload False db1 r] enq
      by (cases err) (auto simp: Let_def split: if_split_asm dest: Enqueue_ok_exists Enqueue_invalid)
  qed
  then show ?thesis
    by simp
qed

text \<open>
  C23. A received frame is acknowledged only when it is safe: the admission loop lets the stream go on only
  after the frame is in the durable table, or when the frame is one the queue can never admit (bad
  listener or key, empty, or above the size limit), and then reports itself ready.
\<close>

theorem acknowledged_frame_durable:
  assumes "persistEnvelope answers version key payload ready db = Some (db', True, ready')"
  shows "ready' \<and> (NotificationEnvelopeExists version key db' \<or> inadmissible version key payload)"
  using assms unfolding persistEnvelope_def by (rule persist_loop_durable)

definition example_admission :: "nat \<Rightarrow> admission_answer" where
  "example_admission n = \<lparr>aa_ctxDone = False, aa_others = [], aa_outcome = (if n = 0 then DbFailed else DbOk), aa_now = 0,
     aa_waitStopped = False\<rparr>"

theorem acknowledged_frame_durable_witness:
  "\<exists>db'. persistEnvelope example_admission ''v3'' ''k'' ''p'' True empty_queue = Some (db', True, True) \<and>
     NotificationEnvelopeExists ''v3'' ''k'' db'"
proof -
  obtain db' where enq: "Enqueue DbOk 0 ''v3'' ''k'' ''p'' empty_queue = (db', None)"
    by (simp add: queue_eval)
  moreover have "Enqueue DbFailed 0 ''v3'' ''k'' ''p'' empty_queue = (empty_queue, Some ErrDatabase)"
    by (simp add: Enqueue_def RunInTx_def)
  ultimately have run: "persistEnvelope example_admission ''v3'' ''k'' ''p'' True empty_queue = Some (db', True, True)"
    unfolding persistEnvelope_def
    by (subst persist_loop.simps, subst persist_loop.simps) (simp add: example_admission_def is_invalid_envelope_def)
  then show ?thesis
    using acknowledged_frame_durable [OF run] by (auto simp: inadmissible_def MaxEnvelopeBytes_def)
qed

section \<open>One attempt at a claimed envelope\<close>

text \<open>
  While the work runs, other operations reach the queue and the heartbeat renews the lease; the first
  failed renewal ends the heartbeat and marks the lease unhealthy. A renewal that is cut short because
  the work has ended counts for nothing, and is one of the other operations when it took effect.
\<close>

datatype attempt_event = QueueOps "queue_op list" | Heartbeat db_outcome time

fun run_attempt :: "NotificationEnvelope \<Rightarrow> attempt_event list \<Rightarrow> bool \<Rightarrow> queue_db \<Rightarrow> queue_db \<times> bool" where
  "run_attempt env [] leaseHealthy db = (db, leaseHealthy)"
| "run_attempt env (QueueOps ops # es) leaseHealthy db = run_attempt env es leaseHealthy (queue_run ops db)"
| "run_attempt env (Heartbeat out now # es) leaseHealthy db =
     (if leaseHealthy then (case Renew out now env db of (db', err) \<Rightarrow> run_attempt env es (err = None) db')
      else run_attempt env es False db)"

text \<open>How the processing ends: what \<open>errors.As\<close> and \<open>errors.Is\<close> find in its error.\<close>

datatype process_result = ProcessOk | ProcessInvalidEnvelope | ProcessRecipientLimit | ProcessFailed | ProcessPanic

fun attempt_outcome :: "process_result \<Rightarrow> bytes \<times> bytes" where
  "attempt_outcome ProcessOk = (''complete'', [])"
| "attempt_outcome ProcessInvalidEnvelope = (''dead'', ''invalid_envelope'')"
| "attempt_outcome ProcessRecipientLimit = (''dead'', ''recipient_limit'')"
| "attempt_outcome ProcessFailed = (''pending'', ''processing'')"
| "attempt_outcome ProcessPanic = (''dead'', ''processing_panic'')"

text \<open>
  The result: the queue, whether the worker may go on (false only after a panic) and whether it still
  counts as ready.
\<close>

definition processDurableEnvelopeWithHeartbeat ::
    "attempt_event list \<Rightarrow> process_result \<Rightarrow> bool \<Rightarrow> db_outcome \<Rightarrow> time \<Rightarrow> NotificationEnvelope \<Rightarrow> bool \<Rightarrow> queue_db \<Rightarrow>
     queue_db \<times> bool \<times> bool" where
  "processDurableEnvelopeWithHeartbeat events result ctxDone out now env ready db =
     (case run_attempt env events True db of (db', leaseHealthy) \<Rightarrow>
        let healthy = (result \<noteq> ProcessPanic) in
        if ctxDone \<or> \<not> leaseHealthy then (db', healthy, healthy \<and> leaseHealthy \<and> ready)
        else (case Finish out now env (fst (attempt_outcome result)) (snd (attempt_outcome result)) db' of
            (db'', err) \<Rightarrow> (db'', healthy, healthy \<and> err = None \<and> ready)))"

text \<open>The health of the workers of a listener.\<close>

record durableWorkerHealth =
  wh_maintenance :: bool
  wh_workers :: "bool list"

definition Ready :: "durableWorkerHealth option \<Rightarrow> bool" where
  "Ready h = (case h of None \<Rightarrow> False | Some h \<Rightarrow> if \<not> wh_maintenance h then False else list_all id (wh_workers h))"

text \<open>One iteration of a worker: whether it goes on, and its readiness.\<close>

record worker_answers =
  wa_claim :: db_outcome
  wa_claimNow :: time
  wa_locked :: "int64 \<Rightarrow> bool"
  wa_leaseID :: bytes
  wa_waitStopped :: bool
  wa_events :: "attempt_event list"
  wa_result :: process_result
  wa_ctxDone :: bool
  wa_finish :: db_outcome
  wa_finishNow :: time

definition worker_iteration :: "worker_answers \<Rightarrow> bytes \<Rightarrow> queue_db \<Rightarrow> queue_db \<times> bool \<times> bool" where
  "worker_iteration a version db =
     (case Claim (wa_claim a) (wa_claimNow a) (wa_locked a) (wa_leaseID a) version db of
        (db', Inl _) \<Rightarrow> (db', \<not> wa_waitStopped a, False)
      | (db', Inr None) \<Rightarrow> (db', \<not> wa_waitStopped a, \<not> wa_waitStopped a)
      | (db', Inr (Some env)) \<Rightarrow>
          processDurableEnvelopeWithHeartbeat (wa_events a) (wa_result a) (wa_ctxDone a) (wa_finish a) (wa_finishNow a) env True db')"

text \<open>Waiting until the subscriptions of a topic are known: lookups fail until one answers.\<close>

partial_function (option) waitForKnownSubscriptions :: "(nat \<Rightarrow> bool \<times> bool option \<times> bool) \<Rightarrow> nat \<Rightarrow> (bool \<times> bool) option" where
  "waitForKnownSubscriptions answers n =
     (case answers n of (ctxDone, known, waitStopped) \<Rightarrow>
        if ctxDone then Some (False, False)
        else (case known of
            Some k \<Rightarrow> Some (k, True)
          | None \<Rightarrow> if waitStopped then Some (False, False) else waitForKnownSubscriptions answers (Suc n)))"

section \<open>A finished envelope is not processed again\<close>

definition retired :: "int64 \<Rightarrow> queue_db \<Rightarrow> bool" where
  "retired i db \<longleftrightarrow> unat i < qd_next_id db \<and> list_all (\<lambda>e. er_id e = i \<longrightarrow> er_status e \<noteq> ''pending'') (qd_envelopes db)"

lemma retired_update:
  "retired i db \<Longrightarrow> (\<And>r. P r \<Longrightarrow> er_id (f r) = er_id r \<and> (er_status r \<noteq> ''pending'' \<longrightarrow> er_status (f r) \<noteq> ''pending'')) \<Longrightarrow>
   retired i (db\<lparr>qd_envelopes := update_where P f (qd_envelopes db)\<rparr>)"
  by (auto simp: retired_def update_where_def list_all_iff)

lemma retired_cong:
  "qd_next_id db' = qd_next_id db \<Longrightarrow> qd_envelopes db' = qd_envelopes db \<Longrightarrow> retired i db' = retired i db"
  by (simp add: retired_def)

lemma retired_insert:
  assumes "retired i db" and "insert_envelope now listener key payload status class db = Some db'"
  shows "retired i db'"
proof -
  have "qd_next_id db < 2 ^ 63"
    using assms(2) by (simp add: insert_envelope_def split: if_split_asm)
  then have "word_of_nat (qd_next_id db) \<noteq> i"
    using assms(1) new_id by (auto simp: retired_def)
  then show ?thesis
    using assms by (auto simp: insert_envelope_def retired_def new_row_def split: if_split_asm)
qed

lemma db_step_retired: "db_step drawn db db' \<Longrightarrow> retired i db \<Longrightarrow> retired i db'"
proof (induction rule: db_step.induct)
  case (admit now listener key payload db db')
  then have "db' = db \<or> (\<exists>p status class. insert_envelope now listener key p status class db = Some db')"
    by (auto simp: enqueue_tx_def Let_def of_stmt_def RecordRejectedNotificationEnvelope_def EnqueueNotificationEnvelope_def
        split: if_split_asm option.split_asm prod.split_asm)
  then show ?case
    using admit retired_insert by blast
next
  case (claim leaseID db now locked listener)
  then show ?case
    by (auto simp: ClaimNotificationEnvelope_def take_lease_def split: option.split intro!: retired_update)
next
  case (finish status cls db now delay i' leaseID)
  then show ?case
    by (auto simp: FinishNotificationEnvelope_def finish_row_def leased_def intro!: retired_update)
next
  case (prepare db now ids i' leaseID)
  then have "retired i (db\<lparr>qd_envelopes := update_where (\<lambda>e. leased now i' leaseID e \<and> \<not> er_recipients_prepared e)
      (\<lambda>e. e\<lparr>er_recipients_prepared := True\<rparr>) (qd_envelopes db)\<rparr>)"
    by (intro retired_update) simp_all
  then show ?case
    using prepare by (auto simp: PrepareNotificationRecipients_def Let_def retired_def)
next
  case (claim_recipient db now ticket i' inst' leaseID)
  then show ?case
    by (subst retired_cong [of _ db]) (simp_all add: ClaimNotificationRecipient_def Let_def)
next
  case (finish_recipient status db now cls i' inst' ticket leaseID)
  then show ?case
    by (subst retired_cong [of _ db]) (simp_all add: FinishNotificationRecipient_def Let_def)
next
  case (purge db now)
  then show ?case
    by (auto simp: PurgeNotificationReceipts_def Let_def retired_def list_all_iff)
qed (auto simp: RenewNotificationLease_def ExpireNotificationEnvelopes_def intro!: retired_update)

lemma retired_step: "retired i db \<Longrightarrow> retired i (queue_step op db)"
  using queue_run_invariant [where P = "retired i" and ops = "[op]", simplified] db_step_retired by blast

lemma retired_not_claimed:
  assumes "retired i db" and "snd (Claim out now locked leaseID listener db) = Inr (Some env)"
  shows "ne_ID env \<noteq> i"
proof -
  obtain c where c: "first_row (filter (\<lambda>e. claimable now listener e \<and> \<not> locked (er_id e)) (qd_envelopes db)) = Some c"
      "ne_ID env = er_id c"
    using assms(2) by (cases out) (auto simp: Claim_def exec_def ClaimNotificationEnvelope_def envelope_of_def take_lease_def split: option.split_asm)
  then show ?thesis
    using claim_candidate [OF c(1)] assms(1) by (auto simp: retired_def list_all_iff claimable_def)
qed

lemma retired_claims: "retired i db \<Longrightarrow> claims i ops db = 0"
proof (induction ops arbitrary: db)
  case (Cons op ops)
  have "(case op of
      OpClaim out now locked leaseID listener \<Rightarrow>
        (case snd (Claim out now locked leaseID listener db) of Inr (Some env) \<Rightarrow> if ne_ID env = i then 1 else 0 | _ \<Rightarrow> 0)
    | _ \<Rightarrow> 0) = (0::nat)"
    using retired_not_claimed [OF Cons.prems] by (cases op) (auto split: sum.split option.split)
  then show ?case
    using Cons.IH [OF retired_step [OF Cons.prems, of op]] by simp
qed simp

lemma finish_retires:
  assumes "queue_ok db" and "Finish out now env result class db = (db', None)" and "result \<noteq> ''pending''"
  shows "retired (ne_ID env) db'"
proof -
  let ?held = "leased now (ne_ID env) (ne_LeaseID env)"
  obtain status cls where db': "db' = db\<lparr>qd_envelopes := update_where ?held
        (finish_row now status (sint (retryDelay (ne_Attempts env))) cls) (qd_envelopes db)\<rparr>"
      and rows: "rows_where ?held (qd_envelopes db) = 1" and status: "status \<noteq> ''pending''"
    using assms(2,3)
    by (auto simp: Finish_def Let_def checkLease_def exec_def FinishNotificationEnvelope_def split: if_split_asm db_outcome.split_asm)
  then have "list_ex ?held (qd_envelopes db)"
    unfolding rows_where_0 [symmetric] by simp
  then obtain e where e: "e \<in> set (qd_envelopes db)" "?held e"
    by (auto simp: list_ex_iff)
  have "r = e" if "r \<in> set (qd_envelopes db)" "er_id r = ne_ID env" for r
    using assms(1) e that same_id [of db e r] by (simp add: queue_ok_def leased_def)
  then have "list_all (\<lambda>r. er_id r = ne_ID env \<longrightarrow> er_status r \<noteq> ''pending'') (qd_envelopes db')"
    using e(2) status by (auto simp: db' list_all_iff update_where_def finish_row_def)
  moreover have "unat (ne_ID env) < qd_next_id db"
    using assms(1) e by (auto simp: queue_ok_def envelopes_ok_def list_all_iff leased_def)
  ultimately show ?thesis
    by (simp add: retired_def db')
qed

lemma run_attempt_run: "\<exists>ops. fst (run_attempt env events healthy db) = queue_run ops db"
proof (induction env events healthy db rule: run_attempt.induct)
  case (1 env leaseHealthy db)
  then show ?case
    by (auto intro: exI [of _ "[]"])
next
  case (2 env ops es leaseHealthy db)
  then show ?case
    by simp (metis queue_run_def fold_append comp_apply)
next
  case (3 env out now es leaseHealthy db)
  then show ?case
    by (cases leaseHealthy; cases "Renew out now env db") (auto, metis queue_run_simps(2) queue_step.simps(3) fst_conv)
qed

text \<open>
  C24. A frame is never processed again once an attempt has recorded its end: when an attempt completes,
  finds the frame invalid or over the recipient limit, or panics, and its result reaches the table
  under a healthy lease, the envelope is never claimed again in any later run. The worker itself stops
  exactly when the processing panicked.
\<close>

theorem finished_envelope_not_reclaimed:
  assumes "run_attempt env events True (queue_run ops empty_queue) = (db1, True)"
    and "snd (Finish out now env (fst (attempt_outcome result)) (snd (attempt_outcome result)) db1) = None"
    and "result \<noteq> ProcessFailed"
    and "processDurableEnvelopeWithHeartbeat events result False out now env ready (queue_run ops empty_queue) = (db2, healthy, ready')"
  shows "claims (ne_ID env) ops' db2 = 0 \<and> (healthy \<longleftrightarrow> result \<noteq> ProcessPanic)"
proof -
  obtain ops1 where "db1 = queue_run ops1 (queue_run ops empty_queue)"
    using run_attempt_run assms(1) by (metis fst_conv)
  then have "queue_ok db1"
    by (simp add: queue_run_ok empty_queue_ok)
  moreover have "Finish out now env (fst (attempt_outcome result)) (snd (attempt_outcome result)) db1 = (db2, None)"
    using assms(1,2,4) by (auto simp: processDurableEnvelopeWithHeartbeat_def Let_def split: prod.split_asm)
  moreover have "fst (attempt_outcome result) \<noteq> ''pending''"
    using assms(3) by (cases result) simp_all
  ultimately have "retired (ne_ID env) db2"
    by (rule finish_retires)
  then show ?thesis
    using assms(1,4) retired_claims by (auto simp: processDurableEnvelopeWithHeartbeat_def Let_def split: prod.split_asm)
qed

lemma example_panic:
  "\<exists>db1 db2. run_attempt example_claimed [Heartbeat DbOk (20 * second)] True (queue_run example_ops empty_queue) = (db1, True) \<and>
     snd (Finish DbOk (30 * second) example_claimed ''dead'' ''processing_panic'' db1) = None \<and>
     processDurableEnvelopeWithHeartbeat [Heartbeat DbOk (20 * second)] ProcessPanic False DbOk (30 * second) example_claimed True
       (queue_run example_ops empty_queue) = (db2, False, False)"
  by (simp add: queue_eval Renew_def RenewNotificationLease_def Finish_def FinishNotificationEnvelope_def finish_row_def
      processDurableEnvelopeWithHeartbeat_def)

theorem finished_envelope_not_reclaimed_witness:
  "\<exists>db2. processDurableEnvelopeWithHeartbeat [Heartbeat DbOk (20 * second)] ProcessPanic False DbOk (30 * second) example_claimed True
       (queue_run example_ops empty_queue) = (db2, False, False) \<and>
     claims 1 [OpClaim DbOk (200 * second) (\<lambda>_. False) ''L9'' ''v3''] db2 = 0"
proof -
  obtain db1 db2 where run: "run_attempt example_claimed [Heartbeat DbOk (20 * second)] True (queue_run example_ops empty_queue) = (db1, True)"
      and fin: "snd (Finish DbOk (30 * second) example_claimed ''dead'' ''processing_panic'' db1) = None"
      and proc: "processDurableEnvelopeWithHeartbeat [Heartbeat DbOk (20 * second)] ProcessPanic False DbOk (30 * second) example_claimed
        True (queue_run example_ops empty_queue) = (db2, False, False)"
    using example_panic by blast
  have "claims (ne_ID example_claimed) [OpClaim DbOk (200 * second) (\<lambda>_. False) ''L9'' ''v3''] db2 = 0"
    using finished_envelope_not_reclaimed [OF run, where result = ProcessPanic, simplified, OF fin proc] by blast
  moreover have "ne_ID example_claimed = 1"
    by (simp add: example_claimed_def)
  ultimately show ?thesis
    using proc by auto
qed

end
