(* ===== verification/Go_JSON.thy ===== *)
theory Go_JSON
  imports Go_Encoding
begin

text \<open>
  JSON as the program reads it: \<open>utf8.Valid\<close>, the lexical level of \<open>encoding/json\<close>'s
  \<open>Decoder\<close> with \<open>UseNumber\<close> (white space, strings with their escapes, numbers kept as they
  are spelled), and the recursive reading of one value that rejects a repeated member name. Two packages
  of the program contain that recursion (\<open>a9trust.parseJSONValue\<close> and
  \<open>a9schema.decodeValue\<close>); they differ in their errors and in the check of a number, which is what a
  \<open>json_profile\<close> holds.

  A value of Go's type \<open>any\<close> is one of the dynamic types the sources distinguish. A Go map is the
  list of its members in the order of insertion, without repeated names.
\<close>

datatype any =
    ANil
  | ABool bool
  | AString bytes
  | ANumber bytes
  | AInt int64
  | AInt64 int64
  | AUint uint64
  | AUint32 uint32
  | AUint64 uint64
  | AFloat
  | AArray "any list"
  | AMap "(bytes \<times> any) list"

type_synonym object = "(bytes \<times> any) list"

section \<open>UTF-8\<close>

definition is_cont :: "char \<Rightarrow> bool" where
  "is_cont c \<longleftrightarrow> 128 \<le> byte_val c \<and> byte_val c \<le> 191"

text \<open>The admitted values of the second byte of a sequence that starts with the byte \<open>v\<close>.\<close>

definition second_ok :: "nat \<Rightarrow> char \<Rightarrow> bool" where
  "second_ok v c \<longleftrightarrow>
     (if v = 0xE0 then 0xA0 else if v = 0xF0 then 0x90 else 0x80) \<le> byte_val c \<and>
     byte_val c \<le> (if v = 0xED then 0x9F else if v = 0xF4 then 0x8F else 0xBF)"

fun utf8_valid :: "bytes \<Rightarrow> bool" where
  "utf8_valid [] = True"
| "utf8_valid (a # s) =
     (let v = byte_val a in
      if v < 0x80 then utf8_valid s
      else if 0xC2 \<le> v \<and> v \<le> 0xDF then (case s of b # r \<Rightarrow> second_ok v b \<and> utf8_valid r | _ \<Rightarrow> False)
      else if 0xE0 \<le> v \<and> v \<le> 0xEF then
        (case s of b # c # r \<Rightarrow> second_ok v b \<and> is_cont c \<and> utf8_valid r | _ \<Rightarrow> False)
      else if 0xF0 \<le> v \<and> v \<le> 0xF4 then
        (case s of b # c # d # r \<Rightarrow> second_ok v b \<and> is_cont c \<and> is_cont d \<and> utf8_valid r | _ \<Rightarrow> False)
      else False)"

definition utf8_encode :: "nat \<Rightarrow> bytes" where
  "utf8_encode r =
     (if r < 0x80 then [byte_of r]
      else if r < 0x800 then [byte_of (0xC0 + r div 64), byte_of (0x80 + r mod 64)]
      else if r < 0x10000 then [byte_of (0xE0 + r div 4096), byte_of (0x80 + r div 64 mod 64), byte_of (0x80 + r mod 64)]
      else [byte_of (0xF0 + r div 262144), byte_of (0x80 + r div 4096 mod 64), byte_of (0x80 + r div 64 mod 64),
            byte_of (0x80 + r mod 64)])"

definition isASCII :: "bytes \<Rightarrow> bool" where
  "isASCII s \<longleftrightarrow> list_all (\<lambda>c. byte_val c < 0x80) s"

lemma isASCII_simps [simp]:
  "isASCII []" "isASCII (c # s) \<longleftrightarrow> byte_val c < 0x80 \<and> isASCII s" "isASCII (s @ t) \<longleftrightarrow> isASCII s \<and> isASCII t"
  by (simp_all add: isASCII_def)

lemma utf8_valid_ASCII: "isASCII s \<Longrightarrow> utf8_valid s"
  by (induction s) (simp_all add: Let_def)

section \<open>The lexical level\<close>

definition is_space :: "char \<Rightarrow> bool" where
  "is_space c \<longleftrightarrow> byte_val c = 32 \<or> byte_val c = 9 \<or> byte_val c = 13 \<or> byte_val c = 10"

definition skip_space :: "bytes \<Rightarrow> bytes" where
  "skip_space s = dropWhile is_space s"

text \<open>The next byte behind white space, when it is the given delimiter.\<close>

definition delim :: "char \<Rightarrow> bytes \<Rightarrow> bytes option" where
  "delim d s = (case skip_space s of [] \<Rightarrow> None | c # r \<Rightarrow> if c = d then Some r else None)"

definition hex4 :: "bytes \<Rightarrow> (nat \<times> bytes) option" where
  "hex4 s = (case s of
     a # b # c # d # r \<Rightarrow>
       (case (unhex a, unhex b, unhex c, unhex d) of
          (Some w, Some x, Some y, Some z) \<Rightarrow> Some (((w * 16 + x) * 16 + y) * 16 + z, r)
        | _ \<Rightarrow> None)
   | _ \<Rightarrow> None)"

text \<open>
  What follows a backslash. A surrogate that is not half of a pair becomes the replacement character
  U+FFFD, as in Go's \<open>unquote\<close>.
\<close>

definition unescape :: "bytes \<Rightarrow> (bytes \<times> bytes) option" where
  "unescape s = (case s of
     [] \<Rightarrow> None
   | d # q \<Rightarrow>
       if byte_val d = 34 \<or> byte_val d = 92 \<or> byte_val d = 47 then Some ([d], q)
       else if d = CHR ''b'' then Some ([byte_of 8], q)
       else if d = CHR ''f'' then Some ([byte_of 12], q)
       else if d = CHR ''n'' then Some ([byte_of 10], q)
       else if d = CHR ''r'' then Some ([byte_of 13], q)
       else if d = CHR ''t'' then Some ([byte_of 9], q)
       else if d = CHR ''u'' then
         (case hex4 q of
            None \<Rightarrow> None
          | Some (u, q1) \<Rightarrow>
              if \<not> (0xD800 \<le> u \<and> u < 0xE000) then Some (utf8_encode u, q1)
              else (case q1 of
                 e # f # q2 \<Rightarrow>
                   (case hex4 q2 of
                      Some (l, q3) \<Rightarrow>
                        if byte_val e = 92 \<and> f = CHR ''u'' \<and> u < 0xDC00 \<and> 0xDC00 \<le> l \<and> l < 0xE000
                        then Some (utf8_encode (0x10000 + (u - 0xD800) * 0x400 + (l - 0xDC00)), q3)
                        else Some (utf8_encode 0xFFFD, q1)
                    | None \<Rightarrow> Some (utf8_encode 0xFFFD, q1))
               | _ \<Rightarrow> Some (utf8_encode 0xFFFD, q1)))
       else None)"

lemma hex4_length: "hex4 s = Some (u, r) \<Longrightarrow> length r < length s"
  by (auto simp: hex4_def split: list.splits option.splits)

lemma unescape_length: "unescape s = Some (t, r) \<Longrightarrow> length r < length s"
  by (auto simp: unescape_def split: list.splits if_splits option.splits dest!: hex4_length)

text \<open>The string behind an opening quotation mark, and the input behind the closing one.\<close>

function scan_string :: "bytes \<Rightarrow> (bytes \<times> bytes) option" where
  "scan_string [] = None"
| "scan_string (c # s) =
     (if byte_val c = 34 then Some ([], s)
      else if byte_val c = 92 then
        (case unescape s of
           None \<Rightarrow> None
         | Some (t, r) \<Rightarrow> (case scan_string r of None \<Rightarrow> None | Some (u, q) \<Rightarrow> Some (t @ u, q)))
      else if byte_val c < 32 then None
      else (case scan_string s of None \<Rightarrow> None | Some (u, q) \<Rightarrow> Some (c # u, q)))"
  by pat_completeness auto

termination
  by (relation "measure length") (auto dest: unescape_length)

text \<open>A number, as it is spelled.\<close>

definition scan_digits :: "bytes \<Rightarrow> (bytes \<times> bytes) option" where
  "scan_digits s = (if takeWhile is_digit s = [] then None else Some (takeWhile is_digit s, dropWhile is_digit s))"

definition scan_integer :: "bytes \<Rightarrow> (bytes \<times> bytes) option" where
  "scan_integer s = (case s of
     [] \<Rightarrow> None
   | c # r \<Rightarrow> if c = CHR ''0'' then Some ([c], r) else scan_digits s)"

definition scan_fraction :: "bytes \<Rightarrow> (bytes \<times> bytes) option" where
  "scan_fraction s = (case s of
     [] \<Rightarrow> Some ([], s)
   | c # r \<Rightarrow> if c = CHR ''.'' then map_option (\<lambda>(t, q). (c # t, q)) (scan_digits r) else Some ([], s))"

definition scan_exponent :: "bytes \<Rightarrow> (bytes \<times> bytes) option" where
  "scan_exponent s = (case s of
     [] \<Rightarrow> Some ([], s)
   | c # r \<Rightarrow>
       if c = CHR ''e'' \<or> c = CHR ''E'' then
         (case r of
            [] \<Rightarrow> None
          | d # q \<Rightarrow>
              if d = CHR ''+'' \<or> d = CHR ''-'' then map_option (\<lambda>(t, z). (c # d # t, z)) (scan_digits q)
              else map_option (\<lambda>(t, z). (c # t, z)) (scan_digits r))
       else Some ([], s))"

definition scan_unsigned :: "bytes \<Rightarrow> (bytes \<times> bytes) option" where
  "scan_unsigned s =
     (case scan_integer s of
        None \<Rightarrow> None
      | Some (i, r) \<Rightarrow>
          (case scan_fraction r of
             None \<Rightarrow> None
           | Some (f, q) \<Rightarrow> (case scan_exponent q of None \<Rightarrow> None | Some (e, z) \<Rightarrow> Some (i @ f @ e, z))))"

definition scan_number :: "bytes \<Rightarrow> (bytes \<times> bytes) option" where
  "scan_number s = (case s of
     [] \<Rightarrow> None
   | c # r \<Rightarrow> if c = CHR ''-'' then map_option (\<lambda>(t, q). (c # t, q)) (scan_unsigned r) else scan_unsigned s)"

section \<open>Reading a value\<close>

text \<open>
  The reading of one value: its number check (an error or none), its error for a malformed text and its
  error for a repeated member name.
\<close>

record 'e json_profile =
  jp_number :: "bytes \<Rightarrow> 'e option"
  jp_syntax :: 'e
  jp_duplicate :: 'e

definition decode_literal :: "'e json_profile \<Rightarrow> bytes \<Rightarrow> 'e + any \<times> bytes" where
  "decode_literal p s =
     (if hasPrefix s ''true'' then Inr (ABool True, drop 4 s)
      else if hasPrefix s ''false'' then Inr (ABool False, drop 5 s)
      else if hasPrefix s ''null'' then Inr (ANil, drop 4 s)
      else (case scan_number s of
         None \<Rightarrow> Inl (jp_syntax p)
       | Some (t, r) \<Rightarrow> (case jp_number p t of Some e \<Rightarrow> Inl e | None \<Rightarrow> Inr (ANumber t, r))))"

text \<open>
  The first argument of the recursion bounds its depth and the number of members and items read; at
  least every second call consumes a byte, so twice the length of the input is enough
  (\<open>decode_fuel\<close>).
\<close>

fun decode_value :: "'e json_profile \<Rightarrow> nat \<Rightarrow> bytes \<Rightarrow> 'e + any \<times> bytes"
and decode_members :: "'e json_profile \<Rightarrow> nat \<Rightarrow> object \<Rightarrow> bytes \<Rightarrow> 'e + any \<times> bytes"
and decode_items :: "'e json_profile \<Rightarrow> nat \<Rightarrow> any list \<Rightarrow> bytes \<Rightarrow> 'e + any \<times> bytes" where
  "decode_value p 0 s = Inl (jp_syntax p)"
| "decode_value p (Suc n) s =
     (case delim (CHR ''{'') s of
        Some r \<Rightarrow> (case delim (CHR ''}'') r of Some q \<Rightarrow> Inr (AMap [], q) | None \<Rightarrow> decode_members p n [] r)
      | None \<Rightarrow>
     (case delim (CHR ''['') s of
        Some r \<Rightarrow> (case delim (CHR '']'') r of Some q \<Rightarrow> Inr (AArray [], q) | None \<Rightarrow> decode_items p n [] r)
      | None \<Rightarrow>
     (case delim (CHR 0x22) s of
        Some r \<Rightarrow> (case scan_string r of None \<Rightarrow> Inl (jp_syntax p) | Some (t, q) \<Rightarrow> Inr (AString t, q))
      | None \<Rightarrow> decode_literal p (skip_space s))))"
| "decode_members p 0 ms s = Inl (jp_syntax p)"
| "decode_members p (Suc n) ms s =
     (case delim (CHR 0x22) s of
        None \<Rightarrow> Inl (jp_syntax p)
      | Some r \<Rightarrow>
     (case scan_string r of
        None \<Rightarrow> Inl (jp_syntax p)
      | Some (name, q) \<Rightarrow>
          if map_of ms name \<noteq> None then Inl (jp_duplicate p)
          else
     (case delim (CHR '':'') q of
        None \<Rightarrow> Inl (jp_syntax p)
      | Some q1 \<Rightarrow>
     (case decode_value p n q1 of
        Inl e \<Rightarrow> Inl e
      | Inr (v, q2) \<Rightarrow>
     (case delim (CHR ''}'') q2 of
        Some q3 \<Rightarrow> Inr (AMap (ms @ [(name, v)]), q3)
      | None \<Rightarrow>
     (case delim (CHR '','') q2 of
        Some q3 \<Rightarrow> decode_members p n (ms @ [(name, v)]) q3
      | None \<Rightarrow> Inl (jp_syntax p)))))))"
| "decode_items p 0 vs s = Inl (jp_syntax p)"
| "decode_items p (Suc n) vs s =
     (case decode_value p n s of
        Inl e \<Rightarrow> Inl e
      | Inr (v, q) \<Rightarrow>
     (case delim (CHR '']'') q of
        Some q1 \<Rightarrow> Inr (AArray (vs @ [v]), q1)
      | None \<Rightarrow>
     (case delim (CHR '','') q of
        Some q1 \<Rightarrow> decode_items p n (vs @ [v]) q1
      | None \<Rightarrow> Inl (jp_syntax p))))"

definition read_value :: "'e json_profile \<Rightarrow> bytes \<Rightarrow> 'e + any \<times> bytes" where
  "read_value p s = decode_value p (2 * length s + 2) s"

section \<open>The input gets shorter\<close>

lemma dropWhile_length: "length (dropWhile P s) \<le> length s"
  by (induction s) auto

lemma delim_length: "delim d s = Some r \<Longrightarrow> length r < length s"
  using dropWhile_length [of is_space s] by (auto simp: delim_def skip_space_def split: list.splits if_splits)

lemma scan_string_length: "scan_string s = Some (t, r) \<Longrightarrow> length r < length s"
proof (induction s arbitrary: t r rule: scan_string.induct)
  case 1
  then show ?case by simp
next
  case (2 c s)
  show ?case
  proof (cases "byte_val c = 34 \<or> byte_val c \<noteq> 92")
    case True
    then show ?thesis
      using "2.prems" "2.IH"(2) by (fastforce split: if_splits option.splits prod.splits)
  next
    case False
    then obtain t' r' where "unescape s = Some (t', r')" and "\<exists>u. scan_string r' = Some (u, r)"
      using "2.prems" by (auto split: option.splits)
    then show ?thesis
      using False "2.IH"(1) unescape_length by fastforce
  qed
qed

lemma scan_digits_length: "scan_digits s = Some (t, r) \<Longrightarrow> length r < length s"
proof -
  assume "scan_digits s = Some (t, r)"
  then have "r = dropWhile is_digit s" and "takeWhile is_digit s \<noteq> []"
    by (auto simp: scan_digits_def split: if_splits)
  then show ?thesis
    using takeWhile_dropWhile_id [of is_digit s] by (metis add_gr_0 length_append length_greater_0_conv less_add_same_cancel2)
qed

lemma scan_integer_length: "scan_integer s = Some (t, r) \<Longrightarrow> length r < length s"
  by (auto simp: scan_integer_def split: list.splits if_splits dest: scan_digits_length)

lemma scan_fraction_length: "scan_fraction s = Some (t, r) \<Longrightarrow> length r \<le> length s"
  by (auto simp: scan_fraction_def split: list.splits if_splits dest!: scan_digits_length)

lemma scan_exponent_length: "scan_exponent s = Some (t, r) \<Longrightarrow> length r \<le> length s"
  by (auto simp: scan_exponent_def split: list.splits if_splits dest!: scan_digits_length)

lemma scan_unsigned_length: "scan_unsigned s = Some (t, r) \<Longrightarrow> length r < length s"
  by (fastforce simp: scan_unsigned_def split: option.splits prod.splits
      dest: scan_integer_length scan_fraction_length scan_exponent_length)

lemma scan_number_length: "scan_number s = Some (t, r) \<Longrightarrow> length r < length s"
  by (auto simp: scan_number_def split: list.splits if_splits dest!: scan_unsigned_length)

lemma decode_literal_length: "decode_literal p s = Inr (v, r) \<Longrightarrow> length r < length s"
proof -
  assume a: "decode_literal p s = Inr (v, r)"
  show ?thesis
  proof (cases "hasPrefix s ''true'' \<or> hasPrefix s ''false'' \<or> hasPrefix s ''null''")
    case True
    then show ?thesis
      using a by (auto simp: decode_literal_def hasPrefix_iff split: if_splits)
  next
    case False
    then show ?thesis
      using a by (auto simp: decode_literal_def split: option.splits dest: scan_number_length)
  qed
qed

lemma decode_length:
  "decode_value p n s = Inr (v, r) \<Longrightarrow> length r < length s"
  "decode_members p n ms s = Inr (v, r) \<Longrightarrow> length r < length s"
  "decode_items p n vs s = Inr (v, r) \<Longrightarrow> length r < length s"
proof (induction p n s and p n ms s and p n vs s arbitrary: v r and v r and v r
    rule: decode_value_decode_members_decode_items.induct)
  case (2 p n s)
  then show ?case
    using dropWhile_length [of is_space s]
    by (fastforce simp: skip_space_def split: option.splits prod.splits dest!: delim_length scan_string_length decode_literal_length)
next
  case (4 p n ms s)
  then show ?case
    by (fastforce split: option.splits prod.splits sum.splits if_splits dest!: delim_length scan_string_length)
next
  case (6 p n vs s)
  then show ?case
    by (fastforce split: option.splits prod.splits sum.splits dest!: delim_length)
qed simp_all

text \<open>More fuel than twice the length of the input makes no difference.\<close>

lemma decode_fuel:
  "n \<le> m \<Longrightarrow>
     (\<forall>s. 2 * length s + 1 \<le> n \<longrightarrow> decode_value p m s = decode_value p n s) \<and>
     (\<forall>ms s. 2 * length s + 1 \<le> n \<longrightarrow> decode_members p m ms s = decode_members p n ms s) \<and>
     (\<forall>vs s. 2 * length s + 2 \<le> n \<longrightarrow> decode_items p m vs s = decode_items p n vs s)"
proof (induction n arbitrary: m)
  case 0
  then show ?case by simp
next
  case (Suc n)
  then obtain k where m: "m = Suc k" and k: "n \<le> k"
    by (cases m) auto
  have vals: "2 * length s + 1 \<le> n \<Longrightarrow> decode_value p k s = decode_value p n s"
    and members: "2 * length s + 1 \<le> n \<Longrightarrow> decode_members p k ms s = decode_members p n ms s"
    and items: "2 * length s + 2 \<le> n \<Longrightarrow> decode_items p k vs s = decode_items p n vs s" for s ms vs
    using Suc.IH [OF k] by blast+
  have "decode_value p m s = decode_value p (Suc n) s" if "2 * length s + 1 \<le> Suc n" for s
    using that unfolding m by (auto split: option.split intro!: members items dest!: delim_length)
  moreover have "decode_members p m ms s = decode_members p (Suc n) ms s" if s: "2 * length s + 1 \<le> Suc n" for ms s
  proof -
    have less: "2 * length q + 1 \<le> n" if "length q < length s" for q :: bytes
      using that s by linarith
    have vals': "decode_value p k q1 = decode_value p n q1"
      if "delim (CHR 0x22) s = Some r" "scan_string r = Some (name, q)" "delim (CHR '':'') q = Some q1" for r name q q1
      using that by (intro vals less) (auto dest!: delim_length scan_string_length)
    have members': "decode_members p k ms' q3 = decode_members p n ms' q3"
      if "delim (CHR 0x22) s = Some r" "scan_string r = Some (name, q)" "delim (CHR '':'') q = Some q1"
        "decode_value p n q1 = Inr (v, q2)" "delim (CHR '','') q2 = Some q3" for r name q q1 v q2 q3 ms'
      using that by (intro members less) (auto dest!: delim_length scan_string_length decode_length(1))
    show ?thesis
      unfolding m by (auto split: option.split sum.split simp: vals' members')
  qed
  moreover have "decode_items p m vs s = decode_items p (Suc n) vs s" if s: "2 * length s + 2 \<le> Suc n" for vs s
  proof -
    have "decode_value p k s = decode_value p n s"
      by (rule vals) (use s in linarith)
    then show ?thesis
      using s unfolding m by (auto split: option.split sum.split intro!: items dest!: delim_length decode_length(1))
  qed
  ultimately show ?case
    by blast
qed

end
