(* ===== verification/Strict_JSON.thy ===== *)
theory Strict_JSON
  imports Go_JSON "HOL-Library.Multiset"
begin

text \<open>
  The strict reader and the canonical writer of \<open>pkg/a9trust/jcs.go\<close>. Every object the trust
  subsystem signs, verifies, hashes or stores goes through this pair. The theory shows that the writer's
  text is read back as the value it was made of (\<open>Canonicalize_roundtrip\<close>), that the reader accepts
  only values without repeated member names, and so that two objects with one canonical text are the same
  object.
\<close>

datatype jcs_error = ErrDuplicateKey | ErrNonIJSON | ErrSyntaxJSON

definition maxIJSONInteger :: nat where
  "maxIJSONInteger = 9007199254740991"

section \<open>The reader\<close>

definition strict_profile :: "jcs_error json_profile" where
  "strict_profile = \<lparr>jp_number = (\<lambda>_. None), jp_syntax = ErrSyntaxJSON, jp_duplicate = ErrDuplicateKey\<rparr>"

definition parseJSONValue :: "bytes \<Rightarrow> jcs_error + any \<times> bytes" where
  "parseJSONValue s = read_value strict_profile s"

definition ParseStrictJSON :: "bytes \<Rightarrow> jcs_error + any" where
  "ParseStrictJSON raw =
     (if \<not> utf8_valid raw then Inl ErrNonIJSON
      else (case parseJSONValue raw of
         Inl e \<Rightarrow> Inl e
       | Inr (v, r) \<Rightarrow> if skip_space r \<noteq> [] then Inl ErrSyntaxJSON else Inr v))"

section \<open>The writer\<close>

definition contains_any :: "bytes \<Rightarrow> bytes \<Rightarrow> bool" where
  "contains_any s chars \<longleftrightarrow> list_ex (\<lambda>c. c \<in> set chars) s"

definition canonicalInteger :: "bytes \<Rightarrow> jcs_error + bytes" where
  "canonicalInteger raw =
     (if raw = [] \<or> raw = ''-0'' \<or> contains_any raw ''.eE+-'' then Inl ErrNonIJSON
      else if raw \<noteq> ''0'' \<and> hd raw = CHR ''0'' then Inl ErrNonIJSON
      else if \<not> list_all is_digit raw then Inl ErrNonIJSON
      else (case parse_uint raw of
         None \<Rightarrow> Inl ErrNonIJSON
       | Some n \<Rightarrow> if maxIJSONInteger < n then Inl ErrNonIJSON else Inr (dec n)))"

definition appendASCIIString :: "bytes \<Rightarrow> jcs_error + bytes" where
  "appendASCIIString v = (if \<not> isASCII v then Inl ErrNonIJSON else Inr (quoted (quote_esc (\<lambda>_. False)) v))"

definition signedNumber :: "int64 \<Rightarrow> jcs_error + bytes" where
  "signedNumber v = (if sint v < 0 then Inl ErrNonIJSON else canonicalInteger (dec (nat (sint v))))"

lemma size_list_sort_key: "size_list f (sort_key k xs) = size_list f xs"
proof -
  have "sum_list (map f (sort_key k xs)) = sum_list (map f xs)"
    by (metis mset_map mset_sort sum_mset_sum_list)
  then show ?thesis
    by (simp add: size_list_conv_sum_list)
qed

text \<open>
  The second and third functions are the loops over the items of an array and over the members of a map
  in the order of their names; their first argument is the separator due before the next element.
\<close>

function (sequential) appendCanonical :: "any \<Rightarrow> jcs_error + bytes"
and canonical_items :: "bytes \<Rightarrow> any list \<Rightarrow> jcs_error + bytes"
and canonical_members :: "bytes \<Rightarrow> object \<Rightarrow> jcs_error + bytes" where
  "appendCanonical ANil = Inr ''null''"
| "appendCanonical (ABool b) = Inr (if b then ''true'' else ''false'')"
| "appendCanonical (AString v) = appendASCIIString v"
| "appendCanonical (ANumber v) = canonicalInteger v"
| "appendCanonical (AInt v) = signedNumber v"
| "appendCanonical (AInt64 v) = signedNumber v"
| "appendCanonical (AUint v) = canonicalInteger (dec (unat v))"
| "appendCanonical (AUint32 v) = canonicalInteger (dec (unat v))"
| "appendCanonical (AUint64 v) = canonicalInteger (dec (unat v))"
| "appendCanonical AFloat = Inl ErrNonIJSON"
| "appendCanonical (AArray vs) =
     and_then (canonical_items [] vs) (\<lambda>b. Inr (CHR ''['' # b @ '']''))"
| "appendCanonical (AMap ms) =
     (if \<not> list_all (\<lambda>m. isASCII (fst m)) ms then Inl ErrNonIJSON
      else and_then (canonical_members [] (sort_key fst ms)) (\<lambda>b. Inr (CHR ''{'' # b @ ''}'')))"
| "canonical_items sep [] = Inr []"
| "canonical_items sep (v # vs) =
     and_then (appendCanonical v) (\<lambda>a. and_then (canonical_items '','' vs) (\<lambda>b. Inr (sep @ a @ b)))"
| "canonical_members sep [] = Inr []"
| "canonical_members sep ((name, v) # ms) =
     and_then (appendASCIIString name) (\<lambda>n.
     and_then (appendCanonical v) (\<lambda>a.
     and_then (canonical_members '','' ms) (\<lambda>b. Inr (sep @ n @ '':'' @ a @ b))))"
  by pat_completeness auto

termination
proof (relation "measure (case_sum size (case_sum (\<lambda>(_, vs). size_list size vs) (\<lambda>(_, ms). size_list (size_prod (\<lambda>_. 0) size) ms)))", goal_cases)
qed (simp_all add: size_list_sort_key)

definition Canonicalize :: "any \<Rightarrow> jcs_error + bytes" where
  "Canonicalize v = appendCanonical v"

section \<open>Values and their canonical form\<close>

text \<open>
  A Go map has each name once. The canonical form of a value is what its canonical text is read back as:
  numbers as \<open>json.Number\<close> and the members of maps in the order of their names.
\<close>

fun well_formed :: "any \<Rightarrow> bool" where
  "well_formed (AArray vs) \<longleftrightarrow> (\<forall>v\<in>set vs. well_formed v)"
| "well_formed (AMap ms) \<longleftrightarrow> distinct (map fst ms) \<and> (\<forall>m\<in>set ms. well_formed (snd m))"
| "well_formed _ \<longleftrightarrow> True"

fun canonical_form :: "any \<Rightarrow> any" where
  "canonical_form (AInt v) = ANumber (dec (nat (sint v)))"
| "canonical_form (AInt64 v) = ANumber (dec (nat (sint v)))"
| "canonical_form (AUint v) = ANumber (dec (unat v))"
| "canonical_form (AUint32 v) = ANumber (dec (unat v))"
| "canonical_form (AUint64 v) = ANumber (dec (unat v))"
| "canonical_form (AArray vs) = AArray (map canonical_form vs)"
| "canonical_form (AMap ms) = AMap (sort_key fst (map (\<lambda>m. (fst m, canonical_form (snd m))) ms))"
| "canonical_form v = v"

definition form_members :: "object \<Rightarrow> object" where
  "form_members ms = map (\<lambda>m. (fst m, canonical_form (snd m))) ms"

lemma insort_key_map: "insort_key fst (fst m, f (snd m)) (map (\<lambda>m. (fst m, f (snd m))) ms) =
    map (\<lambda>m. (fst m, f (snd m))) (insort_key fst m ms)"
  by (induction ms) auto

lemma sort_key_map: "sort_key fst (map (\<lambda>m. (fst m, f (snd m))) ms) = map (\<lambda>m. (fst m, f (snd m))) (sort_key fst ms)"
  by (induction ms) (simp_all add: insort_key_map)

lemma canonical_form_AMap: "canonical_form (AMap ms) = AMap (form_members (sort_key fst ms))"
  by (simp add: form_members_def sort_key_map)

lemma form_members_Cons [simp]: "form_members (m # ms) = (fst m, canonical_form (snd m)) # form_members ms"
  and form_members_Nil [simp]: "form_members [] = []"
  by (simp_all add: form_members_def)

lemma fst_form_members [simp]: "map fst (form_members ms) = map fst ms"
  by (simp add: form_members_def)

section \<open>Numbers and strings\<close>

lemma canonicalInteger_Inr: "canonicalInteger raw = Inr t \<Longrightarrow> t = raw \<and> (\<exists>n. raw = dec n)"
proof -
  assume a: "canonicalInteger raw = Inr t"
  then have raw: "raw \<noteq> []" "raw = ''0'' \<or> hd raw \<noteq> CHR ''0''" "list_all is_digit raw"
    and "parse_uint raw = Some (dec_val raw)" and t: "t = dec (dec_val raw)"
    by (auto simp: canonicalInteger_def parse_uint_def split: if_splits option.splits)
  have "dec (dec_val raw) = raw"
    using raw by (intro dec_dec_val) auto
  then show ?thesis
    using t by metis
qed

lemma signedNumber_Inr: "signedNumber v = Inr t \<Longrightarrow> t = dec (nat (sint v))"
  by (auto simp: signedNumber_def split: if_splits dest: canonicalInteger_Inr)

lemma dec_ASCII: "isASCII (dec n)"
  using dec_digits [of n] by (auto simp: isASCII_def is_digit_def list_all_iff)

text \<open>A number ends where neither a digit nor a point nor an exponent follows.\<close>

definition number_end :: "bytes \<Rightarrow> bool" where
  "number_end r \<longleftrightarrow> (\<forall>c q. r = c # q \<longrightarrow> \<not> is_digit c \<and> c \<noteq> CHR ''.'' \<and> c \<noteq> CHR ''e'' \<and> c \<noteq> CHR ''E'')"

lemma takeWhile_digits: "list_all is_digit t \<Longrightarrow> number_end r \<Longrightarrow>
    takeWhile is_digit (t @ r) = t \<and> dropWhile is_digit (t @ r) = r"
  by (induction t) (cases r, auto simp: number_end_def)

lemma scan_fraction_end: "number_end r \<Longrightarrow> scan_fraction r = Some ([], r)"
  by (auto simp: scan_fraction_def number_end_def split: list.splits)

lemma scan_exponent_end: "number_end r \<Longrightarrow> scan_exponent r = Some ([], r)"
  by (auto simp: scan_exponent_def number_end_def split: list.splits)

lemma dec_no_leading_zero: "dec n = CHR ''0'' # t \<Longrightarrow> t = []"
proof (induction n arbitrary: t rule: dec.induct)
  case (1 n)
  show ?case
  proof (cases "n < 10")
    case True
    then show ?thesis
      using "1.prems" by (simp add: dec.simps [of n])
  next
    case False
    obtain c u where d: "dec (n div 10) = c # u"
      by (cases "dec (n div 10)") simp_all
    then have "c = CHR ''0''"
      using "1.prems" False by (simp add: dec.simps [of n])
    then have "dec (n div 10) = ''0''"
      using "1.IH" [OF False] d by simp
    then have "n div 10 = 0"
      using dec_inj [of "n div 10" 0] by (simp add: dec_0)
    then show ?thesis
      using False by simp
  qed
qed

lemma scan_integer_dec: "number_end r \<Longrightarrow> scan_integer (dec n @ r) = Some (dec n, r)"
proof -
  assume r: "number_end r"
  obtain c t where d: "dec n = c # t"
    by (cases "dec n") simp_all
  show ?thesis
  proof (cases "c = CHR ''0''")
    case True
    then show ?thesis
      using d dec_no_leading_zero [of n t] by (simp add: scan_integer_def)
  next
    case False
    then show ?thesis
      using takeWhile_digits [OF dec_digits r, of n] d by (simp add: scan_integer_def scan_digits_def)
  qed
qed

lemma dec_starts: "\<exists>c t. dec n = c # t \<and> is_digit c"
  using dec_digits [of n] by (cases "dec n") auto

lemma scan_number_dec: "number_end r \<Longrightarrow> scan_number (dec n @ r) = Some (dec n, r)"
proof -
  assume r: "number_end r"
  obtain c t where d: "dec n = c # t" and c: "is_digit c"
    using dec_starts by blast
  have "c \<noteq> CHR ''-''"
    using c by (auto simp: is_digit_def)
  then have "scan_number (dec n @ r) = scan_unsigned (dec n @ r)"
    by (simp add: scan_number_def d)
  then show ?thesis
    using r by (simp add: scan_unsigned_def scan_integer_dec scan_fraction_end scan_exponent_end)
qed

lemma scan_string_plain:
  "byte_val c \<noteq> 34 \<Longrightarrow> byte_val c \<noteq> 92 \<Longrightarrow> \<not> byte_val c < 32 \<Longrightarrow>
     scan_string (c # s) = map_option (\<lambda>(u, q). (c # u, q)) (scan_string s)"
  by (auto split: option.split)

lemma scan_string_escape:
  "unescape (e @ s) = Some (t, s) \<Longrightarrow>
     scan_string (byte_of 92 # e @ s) = map_option (\<lambda>(u, q). (t @ u, q)) (scan_string s)"
  by (auto split: option.split)

lemma unescape_letters:
  "byte_val c = 34 \<Longrightarrow> unescape ([byte_of 34] @ s) = Some ([c], s)"
  "byte_val c = 92 \<Longrightarrow> unescape ([byte_of 92] @ s) = Some ([c], s)"
  "unescape (''b'' @ s) = Some ([byte_of 8], s)"
  "unescape (''f'' @ s) = Some ([byte_of 12], s)"
  "unescape (''n'' @ s) = Some ([byte_of 10], s)"
  "unescape (''r'' @ s) = Some ([byte_of 13], s)"
  "unescape (''t'' @ s) = Some ([byte_of 9], s)"
  by (simp_all add: unescape_def byte_of_eq_iff)

lemma unescape_control:
  "byte_val c < 32 \<Longrightarrow>
     unescape ([CHR ''u'', CHR ''0'', CHR ''0'', hexd (byte_val c div 16), hexd (byte_val c mod 16)] @ s) = Some ([c], s)"
proof -
  assume c: "byte_val c < 32"
  have "unhex (CHR ''0'') = Some 0"
    by code_simp
  moreover have "byte_val c div 16 < 16" and "byte_val c mod 16 < 16"
    using c by linarith+
  ultimately have "hex4 ([CHR ''0'', CHR ''0'', hexd (byte_val c div 16), hexd (byte_val c mod 16)] @ s) = Some (byte_val c, s)"
    by (simp add: hex4_def)
  then show ?thesis
    using c by (simp add: unescape_def utf8_encode_def)
qed

lemma scan_quote_esc:
  "scan_string (quote_esc (\<lambda>_. False) c @ s) = map_option (\<lambda>(u, q). (c # u, q)) (scan_string s)"
proof -
  have eq: "byte_val c = n \<Longrightarrow> byte_of n = c" for n
    by (metis char_of_char)
  consider "byte_val c = 34" | "byte_val c = 92" | "byte_val c = 8" | "byte_val c = 12" | "byte_val c = 10"
    | "byte_val c = 13" | "byte_val c = 9" | "byte_val c \<notin> {34, 92, 8, 12, 10, 13, 9}" "byte_val c < 32"
    | "byte_val c \<notin> {34, 92, 8, 12, 10, 13, 9}" "\<not> byte_val c < 32"
    by blast
  then show ?thesis
  proof cases
    case 8
    then have "quote_esc (\<lambda>_. False) c @ s =
        byte_of 92 # [CHR ''u'', CHR ''0'', CHR ''0'', hexd (byte_val c div 16), hexd (byte_val c mod 16)] @ s"
      by (simp add: quote_esc_def Let_def)
    then show ?thesis
      using scan_string_escape [OF unescape_control] 8(2) by simp
  next
    case 9
    then show ?thesis
      using scan_string_plain [of c s] by (simp add: quote_esc_def Let_def)
  qed (use scan_string_escape [OF unescape_letters(1) [of c], of s] scan_string_escape [OF unescape_letters(2) [of c], of s]
         scan_string_escape [OF unescape_letters(3), of s] scan_string_escape [OF unescape_letters(4), of s]
         scan_string_escape [OF unescape_letters(5), of s] scan_string_escape [OF unescape_letters(6), of s]
         scan_string_escape [OF unescape_letters(7), of s] in \<open>simp_all add: quote_esc_def Let_def eq del: scan_string.simps\<close>)
qed

lemma scan_string_quoted:
  "scan_string (concat (map (quote_esc (\<lambda>_. False)) v) @ byte_of 34 # r) = Some (v, r)"
proof (induction v)
  case Nil
  then show ?case by simp
next
  case (Cons c v)
  then show ?case
    by (simp add: scan_quote_esc del: scan_string.simps)
qed

lemma quote_esc_ASCII: "byte_val c < 128 \<Longrightarrow> isASCII (quote_esc (\<lambda>_. False) c)"
proof -
  assume c: "byte_val c < 128"
  have "byte_val (hexd n) < 128" if "n < 16" for n
    using that by (simp add: byte_val_hexd)
  then show ?thesis
    using c by (simp add: quote_esc_def Let_def)
qed

lemma quoted_ASCII: "isASCII v \<Longrightarrow> isASCII (quoted (quote_esc (\<lambda>_. False)) v)"
proof -
  assume "isASCII v"
  then have "isASCII (concat (map (quote_esc (\<lambda>_. False)) v))"
    by (induction v) (simp_all add: quote_esc_ASCII)
  then show ?thesis
    by (simp add: quoted_def)
qed

lemma appendASCIIString_Inr:
  "appendASCIIString v = Inr t \<longleftrightarrow> isASCII v \<and> t = quoted (quote_esc (\<lambda>_. False)) v"
  by (auto simp: appendASCIIString_def)

section \<open>The round trip\<close>

lemma delim_Cons: "\<not> is_space c \<Longrightarrow> delim d (c # s) = (if c = d then Some s else None)"
  by (simp add: delim_def skip_space_def)

lemma skip_space_Cons: "\<not> is_space c \<Longrightarrow> skip_space (c # s) = c # s"
  by (simp add: skip_space_def)

lemma not_space [simp]:
  "\<not> is_space (CHR ''{'')" "\<not> is_space (CHR ''}'')" "\<not> is_space (CHR ''['')" "\<not> is_space (CHR '']'')"
  "\<not> is_space (CHR '':'')" "\<not> is_space (CHR '','')" "\<not> is_space (CHR 0x22)" "\<not> is_space (CHR ''t'')"
  "\<not> is_space (CHR ''f'')" "\<not> is_space (CHR ''n'')"
  by (simp_all add: is_space_def)

lemma decode_quoted:
  "decode_value p (Suc n) (quoted (quote_esc (\<lambda>_. False)) v @ r) = Inr (AString v, r)"
proof -
  have q: "byte_of 34 = CHR 0x22"
    by (simp add: byte_of_eq_iff)
  show ?thesis
    using scan_string_quoted [of v r] by (simp add: quoted_def q delim_Cons)
qed

lemma decode_constant:
  "decode_value p (Suc n) (''true'' @ r) = Inr (ABool True, r)"
  "decode_value p (Suc n) (''false'' @ r) = Inr (ABool False, r)"
  "decode_value p (Suc n) (''null'' @ r) = Inr (ANil, r)"
  by (simp_all add: delim_Cons skip_space_Cons decode_literal_def hasPrefix_def)

lemma decode_dec: "number_end r \<Longrightarrow> decode_value strict_profile (Suc n) (dec k @ r) = Inr (ANumber (dec k), r)"
proof -
  assume r: "number_end r"
  obtain c t where d: "dec k = c # t" and c: "is_digit c"
    using dec_starts by blast
  have ne: "\<not> is_space c" "c \<noteq> CHR ''{''" "c \<noteq> CHR ''[''" "c \<noteq> CHR 0x22" "c \<noteq> CHR ''t''" "c \<noteq> CHR ''f''" "c \<noteq> CHR ''n''"
    using c by (auto simp: is_digit_def is_space_def)
  then have "decode_value strict_profile (Suc n) (dec k @ r) = decode_literal strict_profile (dec k @ r)"
    by (simp add: d delim_Cons skip_space_Cons)
  also have "\<dots> = Inr (ANumber (dec k), r)"
    using scan_number_dec [OF r, of k] ne by (simp add: decode_literal_def hasPrefix_def d strict_profile_def)
  finally show ?thesis .
qed

definition starts_value :: "bytes \<Rightarrow> bool" where
  "starts_value t \<longleftrightarrow> (\<exists>c u. t = c # u \<and> \<not> is_space c \<and> c \<noteq> CHR '']'' \<and> c \<noteq> CHR ''}'')"

lemma starts_value_Cons: "starts_value (c # u) \<longleftrightarrow> \<not> is_space c \<and> c \<noteq> CHR '']'' \<and> c \<noteq> CHR ''}''"
  by (simp add: starts_value_def)

lemma starts_value_dec: "starts_value (dec k)"
proof -
  obtain c u where "dec k = c # u" and "is_digit c"
    using dec_starts by blast
  moreover have "\<not> is_space c" "c \<noteq> CHR '']''" "c \<noteq> CHR ''}''"
    using \<open>is_digit c\<close> by (auto simp: is_digit_def is_space_def)
  ultimately show ?thesis
    by (simp add: starts_value_Cons)
qed

lemma starts_value_quoted: "starts_value (quoted esc v)"
  by (simp add: quoted_def starts_value_Cons is_space_def byte_of_eq_iff)

lemma canonical_first:
  assumes "appendCanonical v = Inr t"
  shows "starts_value t"
proof (cases v)
  case (AString x)
  then show ?thesis
    using assms by (simp add: appendASCIIString_Inr starts_value_quoted)
next
  case (AArray vs)
  then show ?thesis
    using assms by (auto simp: result_iff starts_value_Cons)
next
  case (AMap ms)
  then show ?thesis
    using assms by (auto simp: result_iff starts_value_Cons split: if_splits)
qed (use assms in \<open>auto simp: starts_value_Cons starts_value_dec split: if_splits dest!: canonicalInteger_Inr signedNumber_Inr\<close>)

lemma number_end_delims [simp]:
  "number_end (CHR '','' # r)" "number_end (CHR '']'' # r)" "number_end (CHR ''}'' # r)" "number_end []"
  by (simp_all add: number_end_def is_digit_def)

lemma decode_array:
  assumes "b \<noteq> [] \<Longrightarrow> starts_value b"
  shows "decode_value p (Suc n) (CHR ''['' # b @ CHR '']'' # r) =
     (if b = [] then Inr (AArray [], r) else decode_items p n [] (b @ CHR '']'' # r))"
  using assms by (cases b) (simp_all add: delim_Cons starts_value_Cons)

lemma decode_map:
  assumes "b \<noteq> [] \<Longrightarrow> starts_value b"
  shows "decode_value p (Suc n) (CHR ''{'' # b @ CHR ''}'' # r) =
     (if b = [] then Inr (AMap [], r) else decode_members p n [] (b @ CHR ''}'' # r))"
  using assms by (cases b) (simp_all add: delim_Cons starts_value_Cons)

lemma distinct_sort_key: "distinct (map fst ms) \<Longrightarrow> distinct (map fst (sort_key fst ms))"
  by (metis mset_eq_imp_distinct_iff mset_map mset_sort)

lemma decode_item:
  assumes "decode_value p n (a @ CHR '']'' # r) = Inr (v, CHR '']'' # r)"
  shows "decode_items p (Suc n) acc (a @ CHR '']'' # r) = Inr (AArray (acc @ [v]), r)"
  using assms by (simp add: delim_Cons)

lemma decode_item_comma:
  assumes "decode_value p n (a @ CHR '','' # q) = Inr (v, CHR '','' # q)"
  shows "decode_items p (Suc n) acc (a @ CHR '','' # q) = decode_items p n (acc @ [v]) q"
  using assms by (simp add: delim_Cons)

lemma decode_name:
  assumes "map_of acc name = None" and "decode_value p n (a @ d # q) = Inr (v, d # q)" and "\<not> is_space d"
  shows "decode_members p (Suc n) acc (quoted (quote_esc (\<lambda>_. False)) name @ CHR '':'' # a @ d # q) =
     (if d = CHR ''}'' then Inr (AMap (acc @ [(name, v)]), q)
      else if d = CHR '','' then decode_members p n (acc @ [(name, v)]) q
      else Inl (jp_syntax p))"
proof -
  have q: "byte_of 34 = CHR 0x22"
    by (simp add: byte_of_eq_iff)
  show ?thesis
    using assms scan_string_quoted [of name "CHR '':'' # a @ d # q"]
    by (simp add: quoted_def q delim_Cons)
qed

text \<open>The text of an element list or member list, and how it is read back.\<close>

definition reads_items :: "any list \<Rightarrow> bytes \<Rightarrow> bool" where
  "reads_items vs b \<longleftrightarrow> starts_value b \<and>
     (\<forall>n acc r. 2 * length b + 2 \<le> n \<longrightarrow>
        decode_items strict_profile n acc (b @ CHR '']'' # r) = Inr (AArray (acc @ map canonical_form vs), r))"

definition reads_members :: "object \<Rightarrow> bytes \<Rightarrow> bool" where
  "reads_members ms b \<longleftrightarrow> starts_value b \<and>
     (\<forall>n acc r. 2 * length b + 2 \<le> n \<longrightarrow> distinct (map fst acc @ map fst ms) \<longrightarrow>
        decode_members strict_profile n acc (b @ CHR ''}'' # r) = Inr (AMap (acc @ form_members ms), r))"

definition reads_value :: "any \<Rightarrow> bytes \<Rightarrow> bool" where
  "reads_value v t \<longleftrightarrow>
     (\<forall>n r. 2 * length t + 1 \<le> n \<longrightarrow> number_end r \<longrightarrow> decode_value strict_profile n (t @ r) = Inr (canonical_form v, r))"

lemma reads_items_Cons:
  assumes "reads_value v a" and "starts_value a" and "vs = [] \<Longrightarrow> b = []"
    and "vs \<noteq> [] \<Longrightarrow> \<exists>b'. b = '','' @ b' \<and> reads_items vs b'"
  shows "reads_items (v # vs) (a @ b)"
  unfolding reads_items_def
proof (intro conjI allI impI)
  show "starts_value (a @ b)"
    using assms(2) by (auto simp: starts_value_def)
  fix n acc r
  assume n: "2 * length (a @ b) + 2 \<le> n"
  then obtain k where k: "n = Suc k" "2 * length (a @ b) + 1 \<le> k"
    by (cases n) auto
  have v: "decode_value strict_profile k (a @ q) = Inr (canonical_form v, q)" if "number_end q" for q
    using assms(1) k(2) that by (simp add: reads_value_def)
  show "decode_items strict_profile n acc ((a @ b) @ CHR '']'' # r) = Inr (AArray (acc @ map canonical_form (v # vs)), r)"
  proof (cases "vs = []")
    case True
    then show ?thesis
      using assms(3) k(1) decode_item [OF v] by simp
  next
    case False
    then obtain b' where b: "b = CHR '','' # b'" and r: "reads_items vs b'"
      using assms(4) by auto
    have "decode_items strict_profile k (acc @ [canonical_form v]) (b' @ CHR '']'' # r) =
        Inr (AArray ((acc @ [canonical_form v]) @ map canonical_form vs), r)"
      using r k(2) b by (simp add: reads_items_def)
    then show ?thesis
      using k(1) b decode_item_comma [OF v, of "b' @ CHR '']'' # r"] by simp
  qed
qed

lemma reads_members_Cons:
  assumes "reads_value v a" and "ms = [] \<Longrightarrow> b = []"
    and "ms \<noteq> [] \<Longrightarrow> \<exists>b'. b = '','' @ b' \<and> reads_members ms b'"
  shows "reads_members ((name, v) # ms) (quoted (quote_esc (\<lambda>_. False)) name @ '':'' @ a @ b)"
  unfolding reads_members_def
proof (intro conjI allI impI)
  let ?q = "quoted (quote_esc (\<lambda>_. False)) name"
  show "starts_value (?q @ '':'' @ a @ b)"
    using starts_value_quoted [of "quote_esc (\<lambda>_. False)" name] by (auto simp: starts_value_def)
  fix n r and acc :: object
  assume n: "2 * length (?q @ '':'' @ a @ b) + 2 \<le> n" and d: "distinct (map fst acc @ map fst ((name, v) # ms))"
  then obtain k where k: "n = Suc k" "2 * length (a @ b) + 3 \<le> k"
    by (cases n) auto
  have v: "decode_value strict_profile k (a @ q) = Inr (canonical_form v, q)" if "number_end q" for q
    using assms(1) k(2) that by (simp add: reads_value_def)
  have new: "map_of acc name = None"
    using d by (auto simp: map_of_eq_None_iff)
  show "decode_members strict_profile n acc ((?q @ '':'' @ a @ b) @ CHR ''}'' # r) =
      Inr (AMap (acc @ form_members ((name, v) # ms)), r)"
  proof (cases "ms = []")
    case True
    then show ?thesis
      using assms(2) k(1) decode_name [OF new v, where d = "CHR ''}''" and q = r] by simp
  next
    case False
    then obtain b' where b: "b = CHR '','' # b'" and r: "reads_members ms b'"
      using assms(3) by auto
    have "decode_members strict_profile k (acc @ [(name, canonical_form v)]) (b' @ CHR ''}'' # r) =
        Inr (AMap ((acc @ [(name, canonical_form v)]) @ form_members ms), r)"
      using r k(2) b d by (auto simp: reads_members_def)
    then show ?thesis
      using k(1) b decode_name [OF new v, where d = "CHR '',''" and q = "b' @ CHR ''}'' # r"] by simp
  qed
qed

lemma reads_array:
  assumes "vs = [] \<Longrightarrow> b = []" and "vs \<noteq> [] \<Longrightarrow> reads_items vs b"
  shows "reads_value (AArray vs) (CHR ''['' # b @ '']'')"
  unfolding reads_value_def
proof (intro allI impI)
  fix n r
  assume n: "2 * length (CHR ''['' # b @ '']'') + 1 \<le> n"
  then obtain k where k: "n = Suc k" "2 * length b + 2 \<le> k"
    by (cases n) auto
  show "decode_value strict_profile n ((CHR ''['' # b @ '']'') @ r) = Inr (canonical_form (AArray vs), r)"
  proof (cases "vs = []")
    case True
    then show ?thesis
      using assms(1) k decode_array [of "[]" strict_profile k r] by simp
  next
    case False
    then show ?thesis
      using assms(2) k decode_array [of b strict_profile k r] by (auto simp: reads_items_def starts_value_def)
  qed
qed

lemma reads_map:
  assumes "ms = [] \<Longrightarrow> b = []" and "ms \<noteq> [] \<Longrightarrow> reads_members (sort_key fst ms) b" and "distinct (map fst ms)"
  shows "reads_value (AMap ms) (CHR ''{'' # b @ ''}'')"
  unfolding reads_value_def
proof (intro allI impI)
  fix n r
  assume n: "2 * length (CHR ''{'' # b @ ''}'') + 1 \<le> n"
  then obtain k where k: "n = Suc k" "2 * length b + 2 \<le> k"
    by (cases n) auto
  show "decode_value strict_profile n ((CHR ''{'' # b @ ''}'') @ r) = Inr (canonical_form (AMap ms), r)"
  proof (cases "ms = []")
    case True
    then show ?thesis
      using assms(1) k decode_map [of "[]" strict_profile k r] by simp
  next
    case False
    then show ?thesis
      using assms(2) k decode_map [of b strict_profile k r] distinct_sort_key [OF assms(3)]
      by (auto simp: reads_members_def starts_value_def canonical_form_AMap simp del: canonical_form.simps)
  qed
qed

lemma reads_leaf:
  assumes "\<And>n r. number_end r \<Longrightarrow> decode_value strict_profile (Suc n) (t @ r) = Inr (canonical_form v, r)"
  shows "reads_value v t"
  unfolding reads_value_def
proof (intro allI impI)
  fix n r
  assume "2 * length t + 1 \<le> n" and "number_end r"
  then show "decode_value strict_profile n (t @ r) = Inr (canonical_form v, r)"
    using assms by (cases n) (simp_all del: decode_value.simps)
qed

lemma reads_constants:
  "reads_value ANil ''null''" "reads_value (ABool True) ''true''" "reads_value (ABool False) ''false''"
  by (rule reads_leaf; simp only: decode_constant canonical_form.simps)+

lemma reads_string: "reads_value (AString v) (quoted (quote_esc (\<lambda>_. False)) v)"
  by (rule reads_leaf) (simp only: decode_quoted canonical_form.simps)

lemma reads_number: "canonical_form v = ANumber (dec k) \<Longrightarrow> reads_value v (dec k)"
  by (rule reads_leaf) (simp only: decode_dec)

lemma canonical_reads:
  "appendCanonical v = Inr t \<Longrightarrow> well_formed v \<Longrightarrow> reads_value v t"
  "canonical_items sep vs = Inr t \<Longrightarrow> \<forall>v\<in>set vs. well_formed v \<Longrightarrow> vs \<noteq> [] \<Longrightarrow> \<exists>b. t = sep @ b \<and> reads_items vs b"
  "canonical_members sep ms = Inr t \<Longrightarrow> \<forall>m\<in>set ms. well_formed (snd m) \<Longrightarrow> ms \<noteq> [] \<Longrightarrow>
     \<exists>b. t = sep @ b \<and> reads_members ms b"
proof (induction v and sep vs and sep ms arbitrary: t and t and t
    rule: appendCanonical_canonical_items_canonical_members.induct)
  case (11 vs)
  then obtain b where "canonical_items [] vs = Inr b" and "t = CHR ''['' # b @ '']''"
    by (auto simp: result_iff)
  then show ?case
    using "11.IH" "11.prems"(2) by (auto intro!: reads_array)
next
  case (12 ms)
  have ascii: "\<not> \<not> list_all (\<lambda>m. isASCII (fst m)) ms"
    using "12.prems" by (auto split: if_splits)
  obtain b where b: "canonical_members [] (sort_key fst ms) = Inr b" and t: "t = CHR ''{'' # b @ ''}''"
    using "12.prems" by (auto simp: result_iff split: if_splits)
  have "ms \<noteq> [] \<Longrightarrow> sort_key fst ms \<noteq> []"
    by (metis set_empty set_sort)
  then show ?case
    unfolding t using "12.IH" [OF ascii b] "12.prems"(2) b by (intro reads_map) auto
next
  case (14 sep v vs)
  then obtain a b where a: "appendCanonical v = Inr a" and b: "canonical_items '','' vs = Inr b" and t: "t = sep @ a @ b"
    by (auto simp: result_iff)
  have "reads_items (v # vs) (a @ b)"
    using "14.IH"(1) [OF a] "14.IH"(2) [OF b] "14.prems"(2) canonical_first [OF a] b by (intro reads_items_Cons) auto
  then show ?case
    using t by blast
next
  case (16 sep name v ms)
  let ?q = "quoted (quote_esc (\<lambda>_. False)) name"
  obtain a b where q: "appendASCIIString name = Inr ?q" and a: "appendCanonical v = Inr a"
    and b: "canonical_members '','' ms = Inr b" and t: "t = sep @ ?q @ '':'' @ a @ b"
    using "16.prems"(1) by (auto simp: result_iff appendASCIIString_Inr)
  have "reads_members ((name, v) # ms) (?q @ '':'' @ a @ b)"
    using "16.IH"(1) [OF a] "16.IH"(2) [OF b] "16.prems"(2) b by (intro reads_members_Cons) auto
  then show ?case
    using t by blast
qed (auto simp: reads_constants reads_string reads_number appendASCIIString_Inr split: if_splits
    dest!: canonicalInteger_Inr signedNumber_Inr)

lemma canonical_ASCII:
  "appendCanonical v = Inr t \<Longrightarrow> isASCII t"
  "canonical_items sep vs = Inr t \<Longrightarrow> isASCII sep \<Longrightarrow> isASCII t"
  "canonical_members sep ms = Inr t \<Longrightarrow> isASCII sep \<Longrightarrow> isASCII t"
proof (induction v and sep vs and sep ms arbitrary: t and t and t
    rule: appendCanonical_canonical_items_canonical_members.induct)
qed (auto simp: result_iff appendASCIIString_Inr quoted_ASCII dec_ASCII split: if_splits
    dest!: canonicalInteger_Inr signedNumber_Inr)

lemma Parse_Canonicalize:
  assumes "Canonicalize v = Inr t" and "well_formed v"
  shows "ParseStrictJSON t = Inr (canonical_form v)"
proof -
  have "utf8_valid t"
    using canonical_ASCII(1) assms(1) by (simp add: Canonicalize_def utf8_valid_ASCII)
  moreover have "decode_value strict_profile (2 * length t + 2) (t @ []) = Inr (canonical_form v, [])"
    using canonical_reads(1) [of v t, unfolded reads_value_def, rule_format, of "2 * length t + 2" "[]"] assms
    by (simp add: Canonicalize_def del: decode_value.simps)
  ultimately show ?thesis
    by (simp add: ParseStrictJSON_def parseJSONValue_def read_value_def skip_space_def del: decode_value.simps)
qed

lemma sort_key_sorted: "sort_key fst (sort_key fst (ms :: object)) = sort_key fst ms"
  by (rule sort_key_id_if_sorted) simp

lemma form_members_sorted: "sort_key fst (form_members ms) = form_members (sort_key fst ms)"
  by (simp add: form_members_def sort_key_map)

lemma canonical_form_text:
  "appendCanonical v = Inr t \<Longrightarrow> appendCanonical (canonical_form v) = Inr t"
  "canonical_items sep vs = Inr t \<Longrightarrow> canonical_items sep (map canonical_form vs) = Inr t"
  "canonical_members sep ms = Inr t \<Longrightarrow> canonical_members sep (form_members ms) = Inr t"
proof (induction v and sep vs and sep ms arbitrary: t and t and t
    rule: appendCanonical_canonical_items_canonical_members.induct)
  case (12 ms)
  have "list_all (\<lambda>m. isASCII (fst m)) (form_members (sort_key fst ms)) \<longleftrightarrow> list_all (\<lambda>m. isASCII (fst m)) ms"
    by (auto simp: form_members_def list_all_iff)
  then show ?case
    using "12" by (auto simp: canonical_form_AMap form_members_sorted sort_key_sorted result_iff
        simp del: canonical_form.simps split: if_splits)
qed (auto simp: result_iff signedNumber_def split: if_splits)

lemma canonical_text_form: "Canonicalize v = Inr t \<Longrightarrow> Canonicalize (canonical_form v) = Inr t"
  by (simp add: Canonicalize_def canonical_form_text)

lemma canonical_text_unique:
  assumes "Canonicalize v = Inr t" and "Canonicalize w = Inr t" and "well_formed v" and "well_formed w"
  shows "canonical_form v = canonical_form w"
  using Parse_Canonicalize [OF assms(1,3)] Parse_Canonicalize [OF assms(2,4)] by simp

section \<open>What the reader returns\<close>

text \<open>
  A value the strict reader can return: of the six dynamic types of JSON at every depth, with every name
  of a map once.
\<close>

fun json_value :: "any \<Rightarrow> bool" where
  "json_value (AArray vs) \<longleftrightarrow> (\<forall>v\<in>set vs. json_value v)"
| "json_value (AMap ms) \<longleftrightarrow> distinct (map fst ms) \<and> (\<forall>m\<in>set ms. json_value (snd m))"
| "json_value ANil \<longleftrightarrow> True"
| "json_value (ABool _) \<longleftrightarrow> True"
| "json_value (AString _) \<longleftrightarrow> True"
| "json_value (ANumber _) \<longleftrightarrow> True"
| "json_value _ \<longleftrightarrow> False"

lemma decode_literal_json: "decode_literal p s = Inr (v, r) \<Longrightarrow> json_value v"
  by (auto simp: decode_literal_def split: if_splits option.splits)

lemma decode_json:
  "decode_value p n s = Inr (v, r) \<Longrightarrow> json_value v"
  "decode_members p n ms s = Inr (v, r) \<Longrightarrow> json_value (AMap ms) \<Longrightarrow> json_value v"
  "decode_items p n vs s = Inr (v, r) \<Longrightarrow> json_value (AArray vs) \<Longrightarrow> json_value v"
proof (induction p n s and p n ms s and p n vs s arbitrary: v r and v r and v r
    rule: decode_value_decode_members_decode_items.induct)
  case (2 p n s)
  then show ?case
    by (fastforce split: option.splits prod.splits dest: decode_literal_json)
next
  case (4 p n ms s)
  then show ?case
    by (fastforce split: option.splits prod.splits sum.splits if_splits simp: map_of_eq_None_iff)
next
  case (6 p n vs s)
  then show ?case
    by (fastforce split: option.splits prod.splits sum.splits)
qed simp_all

lemma ParseStrictJSON_json: "ParseStrictJSON raw = Inr v \<Longrightarrow> json_value v"
  by (auto simp: ParseStrictJSON_def parseJSONValue_def read_value_def split: if_splits sum.splits dest: decode_json(1)
      simp del: decode_value.simps)

lemma json_value_well_formed: "json_value v \<Longrightarrow> well_formed v"
  by (induction v rule: json_value.induct) auto

section \<open>The pair as a codec\<close>

text \<open>
  C39. The canonical text of an object is read back, by the strict reader, as that object with its
  members in the order of their names and its integers as they are spelled; and the object read back has
  the same canonical text. So a stored canonical object is reparsed as the object that was accepted, and
  comparing a text with the canonical text of what it parses to tests exactly whether it is canonical.
\<close>

theorem Canonicalize_roundtrip:
  assumes "Canonicalize v = Inr t" and "well_formed v"
  shows "ParseStrictJSON t = Inr (canonical_form v) \<and> Canonicalize (canonical_form v) = Inr t"
  using Parse_Canonicalize [OF assms] canonical_text_form [OF assms(1)] by blast

definition example_json :: any where
  "example_json = AMap [(''b'', ABool True), (''a'', AArray [ANil, AString [CHR 0x22]])]"

theorem Canonicalize_roundtrip_witness:
  "\<exists>t. Canonicalize example_json = Inr t \<and>
     ParseStrictJSON t = Inr (AMap [(''a'', AArray [ANil, AString [CHR 0x22]]), (''b'', ABool True)])"
proof -
  have "Canonicalize example_json = Inr ([CHR ''{'', CHR 0x22, CHR ''a'', CHR 0x22, CHR '':'', CHR ''['', CHR ''n'', CHR ''u'',
      CHR ''l'', CHR ''l'', CHR '','', CHR 0x22, CHR 0x5C, CHR 0x22, CHR 0x22, CHR '']'', CHR '','', CHR 0x22, CHR ''b'', CHR 0x22,
      CHR '':'', CHR ''t'', CHR ''r'', CHR ''u'', CHR ''e'', CHR ''}''])"
    by code_simp
  moreover have "well_formed example_json"
    by (simp add: example_json_def)
  moreover have "canonical_form example_json = AMap [(''a'', AArray [ANil, AString [CHR 0x22]]), (''b'', ABool True)]"
    by code_simp
  ultimately show ?thesis
    using Canonicalize_roundtrip [of example_json] by auto
qed

text \<open>
  Every value the strict reader accepts is a JSON value of Go's decoder: of its six dynamic types at
  every depth, with no name twice in any map; a text with a repeated name is rejected wherever the
  repetition is.
\<close>

theorem ParseStrictJSON_typed:
  assumes "ParseStrictJSON raw = Inr v"
  shows "json_value v \<and> well_formed v"
  using ParseStrictJSON_json [OF assms] json_value_well_formed by blast

theorem ParseStrictJSON_typed_witness:
  "ParseStrictJSON '' [true] '' = Inr (AArray [ABool True]) \<and> json_value (AArray [ABool True])"
proof -
  have "ParseStrictJSON '' [true] '' = Inr (AArray [ABool True])"
    by code_simp
  then show ?thesis
    using ParseStrictJSON_typed [of "'' [true] ''" "AArray [ABool True]"] by blast
qed

end
