(* ===== verification/Trust_Primitives.thy ===== *)
theory Trust_Primitives
  imports Go_Crypto Go_Time Strict_JSON
begin

text \<open>
  The primitives of the A9 trust package: \<open>pkg/a9trust/verdict.go\<close>, \<open>primitives.go\<close>
  and the object helpers and signed transcripts of \<open>signed.go\<close>. A verdict is the terminal and the
  reason of the contract. The theory shows that accepted Base64url, UUID and time texts are the one text of
  their value, that the roster, topic and tuple commitments and the signed transcripts bind every value
  that goes into them, and which topic-key periods are usable at an instant.
\<close>

section \<open>Verdicts\<close>

record trust_verdict =
  tv_Terminal :: bytes
  tv_Reason :: bytes

definition Eligible :: trust_verdict where
  "Eligible = \<lparr>tv_Terminal = ''ELIGIBLE'', tv_Reason = []\<rparr>"

definition Invalid :: "bytes \<Rightarrow> trust_verdict" where
  "Invalid reason = \<lparr>tv_Terminal = ''INVALID'', tv_Reason = reason\<rparr>"

definition Inconclusive :: "bytes \<Rightarrow> trust_verdict" where
  "Inconclusive reason = \<lparr>tv_Terminal = ''INCONCLUSIVE'', tv_Reason = reason\<rparr>"

definition IsEligible :: "trust_verdict \<Rightarrow> bool" where
  "IsEligible v \<longleftrightarrow> tv_Terminal v = ''ELIGIBLE''"

definition RequiresKeysetUncertainty :: "trust_verdict \<Rightarrow> bool" where
  "RequiresKeysetUncertainty v \<longleftrightarrow> tv_Reason v = ''KEY_STATE'' \<or> tv_Reason v = ''KEYSET_ROLLBACK''"

lemma IsEligible_simps [simp]: "IsEligible Eligible" "\<not> IsEligible (Invalid r)" "\<not> IsEligible (Inconclusive r)"
  by (simp_all add: IsEligible_def Eligible_def Invalid_def Inconclusive_def)

lemma verdict_distinct [simp]:
  "Eligible \<noteq> Invalid r" "Invalid r \<noteq> Eligible" "Eligible \<noteq> Inconclusive r" "Inconclusive r \<noteq> Eligible"
  by (simp_all add: Eligible_def Invalid_def Inconclusive_def)

text \<open>
  A function that returns a value and a verdict returns a value only with an eligible verdict; it has a sum
  type, with the other verdicts on the left. A function that returns only a verdict is eligible exactly
  when no guard of it fires.
\<close>

lemma if_Eligible [guard_iff]: "\<not> IsEligible e \<Longrightarrow> IsEligible (if P then e else x) \<longleftrightarrow> \<not> P \<and> IsEligible x"
  by simp

lemma case_option_Eligible [guard_iff]:
  "\<not> IsEligible e \<Longrightarrow> IsEligible (case x of None \<Rightarrow> e | Some a \<Rightarrow> f a) \<longleftrightarrow> (\<exists>a. x = Some a \<and> IsEligible (f a))"
  by (cases x) auto

lemma case_sum_Eligible [guard_iff]:
  "(\<And>e. \<not> IsEligible (g e)) \<Longrightarrow> IsEligible (case x of Inl e \<Rightarrow> g e | Inr a \<Rightarrow> f a) \<longleftrightarrow> (\<exists>a. x = Inr a \<and> IsEligible (f a))"
  by (cases x) auto

section \<open>Texts of bytes\<close>

definition isBase64URLByte :: "char \<Rightarrow> bool" where
  "isBase64URLByte c \<longleftrightarrow>
     (65 \<le> byte_val c \<and> byte_val c \<le> 90) \<or> (97 \<le> byte_val c \<and> byte_val c \<le> 122) \<or>
     (48 \<le> byte_val c \<and> byte_val c \<le> 57) \<or> c = CHR ''-'' \<or> c = CHR ''_''"

definition EncodeBase64URL :: "bytes \<Rightarrow> bytes" where
  "EncodeBase64URL v = b64_encode v"

definition DecodeBase64URL :: "bytes \<Rightarrow> nat \<Rightarrow> bytes option" where
  "DecodeBase64URL v expectedLength =
     (if v = [] \<or> CHR ''='' \<in> set v then None
      else if \<not> list_all isBase64URLByte v then None
      else (case b64_decode_strict v of
         None \<Rightarrow> None
       | Some decoded \<Rightarrow>
           if length decoded \<noteq> expectedLength then None
           else if b64_encode decoded \<noteq> v then None
           else Some decoded))"

definition SHA256LowerHex :: "bytes \<Rightarrow> bytes" where
  "SHA256LowerHex v = hex_encode (sha256 v)"

definition Ed25519KeyID :: "bytes \<Rightarrow> bytes option" where
  "Ed25519KeyID publicKey =
     (if length publicKey \<noteq> 32 then None else Some (''ed25519-sha256:'' @ SHA256LowerHex publicKey))"

definition HMACKeyID :: "bytes \<Rightarrow> bytes option" where
  "HMACKeyID secret = (if length secret \<noteq> 32 then None else Some (''hmac-sha256:'' @ SHA256LowerHex secret))"

text \<open>The regular expressions, anchored at both ends.\<close>

definition lowerHex64 :: "bytes \<Rightarrow> bool" where
  "lowerHex64 s \<longleftrightarrow> length s = 64 \<and> list_all is_lower_hex s"

definition IsLowerHexSHA256 :: "bytes \<Rightarrow> bool" where
  "IsLowerHexSHA256 s \<longleftrightarrow> lowerHex64 s"

definition canonicalUUIDPattern :: "bytes \<Rightarrow> bool" where
  "canonicalUUIDPattern s \<longleftrightarrow> length s = 36 \<and>
     list_all is_lower_hex (take 8 s) \<and> s ! 8 = CHR ''-'' \<and>
     list_all is_lower_hex (take 4 (drop 9 s)) \<and> s ! 13 = CHR ''-'' \<and>
     list_all is_lower_hex (take 4 (drop 14 s)) \<and> s ! 18 = CHR ''-'' \<and>
     list_all is_lower_hex (take 4 (drop 19 s)) \<and> s ! 23 = CHR ''-'' \<and>
     list_all is_lower_hex (drop 24 s)"

definition ParseCanonicalUUID :: "bytes \<Rightarrow> bytes option" where
  "ParseCanonicalUUID v =
     (if \<not> canonicalUUIDPattern v then None
      else (case hex_decode (filter (\<lambda>c. c \<noteq> CHR ''-'') v) of
         None \<Rightarrow> None
       | Some decoded \<Rightarrow> if length decoded \<noteq> 16 then None else Some decoded))"

section \<open>Topics\<close>

record ResolvedTopic =
  rt_GroupID :: bytes
  rt_Bytes :: bytes

definition ResolveTopic :: "bytes \<Rightarrow> ResolvedTopic option" where
  "ResolveTopic transportConversationID =
     (if \<not> lowerHex64 transportConversationID then None
      else (case hex_decode transportConversationID of
         None \<Rightarrow> None
       | Some groupID \<Rightarrow>
           if length groupID \<noteq> 32 then None
           else Some \<lparr>rt_GroupID = groupID, rt_Bytes = byte_of 0 # groupID\<rparr>))"

definition VerifyResolvedTopic :: "bytes \<Rightarrow> bytes \<Rightarrow> trust_verdict" where
  "VerifyResolvedTopic transportConversationID topicBase64URL =
     (case ResolveTopic transportConversationID of
        None \<Rightarrow> Invalid ''TOPIC_RESOLVER''
      | Some resolved \<Rightarrow>
          (case DecodeBase64URL topicBase64URL 33 of
             None \<Rightarrow> Invalid ''TOPIC_RESOLVER''
           | Some topic \<Rightarrow>
               if hd topic \<noteq> byte_of 0 then Invalid ''WELCOME_CLOSED''
               else if topic \<noteq> rt_Bytes resolved then Invalid ''TOPIC_RESOLVER''
               else Eligible))"

section \<open>Commitments\<close>

definition rosterDomain :: bytes where "rosterDomain = ''Hytch A9 bridge roster v1'' @ [byte_of 0]"
definition topicDomain :: bytes where "topicDomain = ''Hytch A9 bridge topic v1'' @ [byte_of 0]"
definition tupleDomain :: bytes where "tupleDomain = ''Hytch A9 push tuple v1'' @ [byte_of 0]"

text \<open>The transcripts the keyed hash is taken of, as functions of their own.\<close>

definition roster_message :: "bytes \<Rightarrow> bytes \<Rightarrow> bytes" where
  "roster_message environment rosterDigest =
     rosterDomain @ [byte_of (length environment)] @ environment @ rosterDigest"

definition RosterCommitment :: "bytes \<Rightarrow> bytes \<Rightarrow> bytes \<Rightarrow> bytes option" where
  "RosterCommitment key environment rosterDigest =
     (if length key \<noteq> 32 \<or> length rosterDigest \<noteq> 32 \<or> 255 < length environment \<or> \<not> isASCII environment then None
      else Some (hmac_sha256 key (roster_message environment rosterDigest)))"

definition TopicBinding :: "bytes \<Rightarrow> bytes \<Rightarrow> bytes option" where
  "TopicBinding key topic =
     (if length key \<noteq> 32 \<or> length topic \<noteq> 33 \<or> hd topic \<noteq> byte_of 0 then None
      else Some (hmac_sha256 key (topicDomain @ be_bytes 4 (length topic) @ topic)))"

record TupleInput =
  ti_Environment :: bytes
  ti_AccountIncarnationID :: bytes
  ti_HytchConversationID :: bytes
  ti_ConversationGeneration :: uint32
  ti_RosterVersion :: uint32
  ti_RosterCommitment :: bytes
  ti_TransportConversationID :: bytes

definition tuple_message :: "bytes \<Rightarrow> bytes \<Rightarrow> TupleInput \<Rightarrow> bytes" where
  "tuple_message account conversation i =
     tupleDomain @ [byte_of (length (ti_Environment i))] @ ti_Environment i @ account @ conversation @
     be_bytes 4 (unat (ti_ConversationGeneration i)) @ be_bytes 4 (unat (ti_RosterVersion i)) @ ti_RosterCommitment i @
     [byte_of (length ''ACTIVE'')] @ ''ACTIVE'' @
     be_bytes 2 (length (ti_TransportConversationID i)) @ ti_TransportConversationID i"

definition TupleCommitment :: "bytes \<Rightarrow> TupleInput \<Rightarrow> bytes option" where
  "TupleCommitment key i =
     (if length key \<noteq> 32 \<or> length (ti_RosterCommitment i) \<noteq> 32 \<or>
         255 < length (ti_Environment i) \<or> \<not> isASCII (ti_Environment i) \<or>
         ti_ConversationGeneration i = 0 \<or> ti_RosterVersion i = 0 \<or> \<not> lowerHex64 (ti_TransportConversationID i)
      then None
      else (case ParseCanonicalUUID (ti_AccountIncarnationID i) of
         None \<Rightarrow> None
       | Some account \<Rightarrow>
           (case ParseCanonicalUUID (ti_HytchConversationID i) of
              None \<Rightarrow> None
            | Some conversation \<Rightarrow> Some (hmac_sha256 key (tuple_message account conversation i)))))"

section \<open>Topic-key periods\<close>

definition topicPeriodSeconds :: int where
  "topicPeriodSeconds = 30 * 24 * 60 * 60"

definition TopicEpoch :: "time \<Rightarrow> uint32" where
  "TopicEpoch at =
     (let seconds = at div second in
      if seconds < 0 then 0 else word_of_int (seconds div topicPeriodSeconds))"

definition TopicEpochBoundary :: "uint32 \<Rightarrow> time" where
  "TopicEpochBoundary epoch = uint epoch * topicPeriodSeconds * second"

definition TopicEpochUsable :: "uint32 \<Rightarrow> time \<Rightarrow> bool \<Rightarrow> bool" where
  "TopicEpochUsable epoch at forIssuance =
     (let current = TopicEpoch at in
      if epoch = current then True
      else if forIssuance \<or> current = 0 \<or> epoch \<noteq> current - 1 then False
      else at < TopicEpochBoundary current + 60 * second)"

definition PreviousTopicEpochVerificationUsable :: "uint32 \<Rightarrow> time \<Rightarrow> time \<Rightarrow> bool \<Rightarrow> bool" where
  "PreviousTopicEpochVerificationUsable epoch at assertionExpiry alreadyAccepted \<longleftrightarrow>
     alreadyAccepted \<and> at < assertionExpiry \<and> TopicEpochUsable epoch at False"

section \<open>Fields of objects\<close>

definition lookup :: "object \<Rightarrow> bytes \<Rightarrow> any" where
  "lookup obj field = (case map_of obj field of None \<Rightarrow> ANil | Some v \<Rightarrow> v)"

definition objectString :: "object \<Rightarrow> bytes \<Rightarrow> bytes" where
  "objectString obj field = (case lookup obj field of AString s \<Rightarrow> s | _ \<Rightarrow> [])"

definition integer_text :: "bytes \<Rightarrow> trust_verdict + nat" where
  "integer_text raw =
     (if contains_any raw ''.eE+-'' \<or> raw = ''-0'' then Inl (Invalid ''NON_IJSON_NUMBER'')
      else (case parse_uint raw of
         None \<Rightarrow> Inl (Invalid ''INTEGER_RANGE'')
       | Some n \<Rightarrow> if maxIJSONInteger < n then Inl (Invalid ''INTEGER_RANGE'') else Inr n))"

fun nonnegativeInteger :: "any \<Rightarrow> trust_verdict + nat" where
  "nonnegativeInteger (ANumber v) = integer_text v"
| "nonnegativeInteger (AUint32 v) = Inr (unat v)"
| "nonnegativeInteger (AUint64 v) =
     (if maxIJSONInteger < unat v then Inl (Invalid ''INTEGER_RANGE'') else Inr (unat v))"
| "nonnegativeInteger (AInt v) =
     (if sint v < 0 then Inl (Invalid ''INTEGER_RANGE'') else integer_text (dec (nat (sint v))))"
| "nonnegativeInteger (AInt64 v) =
     (if sint v < 0 then Inl (Invalid ''INTEGER_RANGE'') else integer_text (dec (nat (sint v))))"
| "nonnegativeInteger AFloat = Inl (Invalid ''NON_IJSON_NUMBER'')"
| "nonnegativeInteger _ = Inl (Invalid ''FIELD_DOMAIN'')"

definition positiveInteger :: "any \<Rightarrow> trust_verdict + nat" where
  "positiveInteger v =
     (case nonnegativeInteger v of
        Inl e \<Rightarrow> Inl e
      | Inr n \<Rightarrow> if n = 0 then Inl (Invalid ''INTEGER_RANGE'') else Inr n)"

definition objectIntegerEquals :: "object \<Rightarrow> bytes \<Rightarrow> nat \<Rightarrow> bool" where
  "objectIntegerEquals obj field expected =
     (case nonnegativeInteger (lookup obj field) of Inl _ \<Rightarrow> False | Inr n \<Rightarrow> n = expected)"

definition parseWireTime :: "bytes \<Rightarrow> time option" where
  "parseWireTime v =
     (if length v \<noteq> length ''2006-01-02T15:04:05.000Z'' then None
      else (case parse_wire v of
         None \<Rightarrow> None
       | Some parsed \<Rightarrow> if format_wire parsed \<noteq> v then None else Some parsed))"

section \<open>Signed objects\<close>

definition AssertionSignatureDomain :: bytes where
  "AssertionSignatureDomain = ''Hytch A9 bridge assertion v1'' @ [byte_of 0]"

definition ControlSignatureDomain :: bytes where
  "ControlSignatureDomain = ''Hytch A9 bridge control v1'' @ [byte_of 0]"

definition WatermarkSignatureDomain :: bytes where
  "WatermarkSignatureDomain = ''Hytch A9 bridge control watermark v1'' @ [byte_of 0]"

definition KeysetSignatureDomain :: bytes where
  "KeysetSignatureDomain = ''Hytch A9 bridge keyset v1'' @ [byte_of 0]"

definition without_field :: "bytes \<Rightarrow> object \<Rightarrow> object" where
  "without_field field obj = filter (\<lambda>m. fst m \<noteq> field) obj"

definition SignedTranscript :: "object \<Rightarrow> bytes \<Rightarrow> bytes \<Rightarrow> (bytes \<times> bytes) option" where
  "SignedTranscript obj signatureField domain =
     (case map_of obj signatureField of
        None \<Rightarrow> None
      | Some _ \<Rightarrow>
          (case Canonicalize (AMap (without_field signatureField obj)) of
             Inl _ \<Rightarrow> None
           | Inr canonical \<Rightarrow> Some (canonical, domain @ canonical)))"

definition VerifyObject :: "ed25519_verify \<Rightarrow> object \<Rightarrow> bytes \<Rightarrow> bytes \<Rightarrow> bytes \<Rightarrow> trust_verdict" where
  "VerifyObject verify obj signatureField domain publicKey =
     (if length publicKey \<noteq> 32 then Invalid ''KEY_STATE''
      else (case lookup obj signatureField of
         AString encoded \<Rightarrow>
           (case DecodeBase64URL encoded 64 of
              None \<Rightarrow> Invalid ''NONCANONICAL_BASE64URL''
            | Some signature \<Rightarrow>
                (case SignedTranscript obj signatureField domain of
                   None \<Rightarrow> Invalid ''FIELD_DOMAIN''
                 | Some (_, input) \<Rightarrow>
                     if \<not> verify publicKey input signature then Invalid ''BAD_SIGNATURE'' else Eligible))
       | _ \<Rightarrow> Invalid ''FIELD_DOMAIN''))"

definition CanonicalObjectHash :: "object \<Rightarrow> bytes option" where
  "CanonicalObjectHash obj =
     (case Canonicalize (AMap obj) of Inl _ \<Rightarrow> None | Inr canonical \<Rightarrow> Some (SHA256LowerHex canonical))"

definition AssertionHash :: "object \<Rightarrow> bytes option" where
  "AssertionHash obj =
     (case Canonicalize (AMap obj) of Inl _ \<Rightarrow> None | Inr canonical \<Rightarrow> Some (EncodeBase64URL (sha256 canonical)))"

definition SignObject :: "(bytes \<Rightarrow> bytes \<Rightarrow> bytes) \<Rightarrow> object \<Rightarrow> bytes \<Rightarrow> bytes \<Rightarrow> bytes \<Rightarrow> bytes option" where
  "SignObject sign obj signatureField domain seed =
     (case SignedTranscript obj signatureField domain of
        None \<Rightarrow> None
      | Some (_, input) \<Rightarrow> if length seed \<noteq> 32 then None else Some (EncodeBase64URL (sign seed input)))"

section \<open>The verdict on a text\<close>

fun containsNonIntegerNumber :: "any \<Rightarrow> bool" where
  "containsNonIntegerNumber (ANumber v) \<longleftrightarrow> contains_any v ''.eE+-'' \<or> v = ''-0''"
| "containsNonIntegerNumber (AArray vs) \<longleftrightarrow> list_ex containsNonIntegerNumber vs"
| "containsNonIntegerNumber (AMap ms) \<longleftrightarrow> list_ex (\<lambda>m. containsNonIntegerNumber (snd m)) ms"
| "containsNonIntegerNumber _ \<longleftrightarrow> False"

fun containsOutOfRangeInteger :: "any \<Rightarrow> bool" where
  "containsOutOfRangeInteger (ANumber v) \<longleftrightarrow>
     \<not> contains_any v ''.eE+-'' \<and> (case parse_uint v of None \<Rightarrow> True | Some n \<Rightarrow> maxIJSONInteger < n)"
| "containsOutOfRangeInteger (AArray vs) \<longleftrightarrow> list_ex containsOutOfRangeInteger vs"
| "containsOutOfRangeInteger (AMap ms) \<longleftrightarrow> list_ex (\<lambda>m. containsOutOfRangeInteger (snd m)) ms"
| "containsOutOfRangeInteger _ \<longleftrightarrow> False"

definition ValidateStrictJSON :: "bytes \<Rightarrow> trust_verdict + any" where
  "ValidateStrictJSON raw =
     (case ParseStrictJSON raw of
        Inl e \<Rightarrow> Inl (if e = ErrDuplicateKey then Invalid ''DUPLICATE_KEY'' else Invalid ''FIELD_DOMAIN'')
      | Inr v \<Rightarrow>
          (case Canonicalize v of
             Inr _ \<Rightarrow> Inr v
           | Inl _ \<Rightarrow>
               if containsNonIntegerNumber v then Inl (Invalid ''NON_IJSON_NUMBER'')
               else if containsOutOfRangeInteger v then Inl (Invalid ''INTEGER_RANGE'')
               else Inl (Invalid ''FIELD_DOMAIN'')))"

section \<open>One text per value\<close>

lemma b64_char_URL: "n < 64 \<Longrightarrow> isBase64URLByte (b64_char n) \<and> b64_char n \<noteq> CHR ''=''"
proof -
  assume n: "n < 64"
  have "isBase64URLByte (b64_char n)"
  proof (cases "n < 62")
    case True
    then show ?thesis
      using n unfolding isBase64URLByte_def byte_val_b64_char [OF n] by auto
  next
    case False
    then have "n = 62 \<or> n = 63"
      using n by linarith
    then show ?thesis
      by (auto simp: isBase64URLByte_def b64_char_def byte_of_eq_iff)
  qed
  moreover have "byte_val (b64_char n) \<noteq> byte_val (CHR ''='')"
    using n unfolding byte_val_b64_char [OF n] by auto
  ultimately show ?thesis
    by metis
qed

lemma b64_char_0: "b64_char 0 = CHR ''A''"
  by (simp add: b64_char_def byte_of_eq_iff)

lemma b64_encode_URL: "list_all isBase64URLByte (b64_encode d)" "CHR ''='' \<notin> set (b64_encode d)"
proof -
  have "list_all (\<lambda>c. isBase64URLByte c \<and> c \<noteq> CHR ''='') (b64_encode d)"
    by (rule b64_encode_alphabet) (rule b64_char_URL)
  then show "list_all isBase64URLByte (b64_encode d)" "CHR ''='' \<notin> set (b64_encode d)"
    by (simp_all add: list_all_iff) blast
qed

lemma b64_encode_Nil_iff: "b64_encode d = [] \<longleftrightarrow> d = []"
  using b64_encode_inj [of d "[]"] by simp

lemma DecodeBase64URL_iff: "DecodeBase64URL v n = Some d \<longleftrightarrow> v = EncodeBase64URL d \<and> length d = n \<and> d \<noteq> []"
proof
  assume "DecodeBase64URL v n = Some d"
  then have "b64_encode d = v \<and> length d = n \<and> v \<noteq> []"
    unfolding DecodeBase64URL_def by (simp split: if_split_asm option.split_asm)
  then show "v = EncodeBase64URL d \<and> length d = n \<and> d \<noteq> []"
    using b64_encode_Nil_iff by (auto simp: EncodeBase64URL_def)
next
  assume "v = EncodeBase64URL d \<and> length d = n \<and> d \<noteq> []"
  then show "DecodeBase64URL v n = Some d"
    by (simp add: DecodeBase64URL_def EncodeBase64URL_def b64_encode_URL b64_encode_Nil_iff)
qed

definition uuid_text :: "bytes \<Rightarrow> bytes" where
  "uuid_text d = (let h = hex_encode d in
     take 8 h @ CHR ''-'' # take 4 (drop 8 h) @ CHR ''-'' # take 4 (drop 12 h) @ CHR ''-'' # take 4 (drop 16 h) @ CHR ''-'' #
     drop 20 h)"

lemma nth_drop_Suc: "i < length s \<Longrightarrow> s ! i = c \<Longrightarrow> drop i s = c # drop (Suc i) s"
  using Cons_nth_drop_Suc by metis

lemma uuid_parts:
  assumes "canonicalUUIDPattern s"
  obtains a b c d e where "s = a @ CHR ''-'' # b @ CHR ''-'' # c @ CHR ''-'' # d @ CHR ''-'' # e"
    "length a = 8" "length b = 4" "length c = 4" "length d = 4" "length e = 12"
    "list_all is_lower_hex (a @ b @ c @ d @ e)"
proof
  have len: "length s = 36"
    using assms by (simp add: canonicalUUIDPattern_def)
  have split: "drop i s = take k (drop i s) @ CHR ''-'' # drop (Suc (i + k)) s"
    if "s ! (i + k) = CHR ''-''" "i + k < 36" for i k
    using that append_take_drop_id [of k "drop i s"] nth_drop_Suc [of "i + k" s] len by (simp add: add.commute)
  show "s = take 8 s @ CHR ''-'' # take 4 (drop 9 s) @ CHR ''-'' # take 4 (drop 14 s) @ CHR ''-'' # take 4 (drop 19 s) @
      CHR ''-'' # drop 24 s"
    using split [of 0 8] split [of 9 4] split [of 14 4] split [of 19 4] assms by (simp add: canonicalUUIDPattern_def)
  show "length (take 8 s) = 8" "length (take 4 (drop 9 s)) = 4" "length (take 4 (drop 14 s)) = 4"
    "length (take 4 (drop 19 s)) = 4" "length (drop 24 s) = 12"
    "list_all is_lower_hex (take 8 s @ take 4 (drop 9 s) @ take 4 (drop 14 s) @ take 4 (drop 19 s) @ drop 24 s)"
    using assms len by (simp_all add: canonicalUUIDPattern_def)
qed

lemma filter_lower_hex: "list_all is_lower_hex s \<Longrightarrow> filter (\<lambda>c. c \<noteq> CHR ''-'') s = s"
  by (auto simp: list_all_iff filter_id_conv is_lower_hex_def)

lemma ParseCanonicalUUID_text: "ParseCanonicalUUID v = Some d \<Longrightarrow> length d = 16 \<and> v = uuid_text d"
proof -
  assume v: "ParseCanonicalUUID v = Some d"
  then have pat: "canonicalUUIDPattern v" and dec: "hex_decode (filter (\<lambda>c. c \<noteq> CHR ''-'') v) = Some d" and d: "length d = 16"
    by (auto simp: ParseCanonicalUUID_def split: if_splits option.splits)
  from pat obtain a b c x e where p: "v = a @ CHR ''-'' # b @ CHR ''-'' # c @ CHR ''-'' # x @ CHR ''-'' # e"
    "length a = 8" "length b = 4" "length c = 4" "length x = 4" "length e = 12" and h: "list_all is_lower_hex (a @ b @ c @ x @ e)"
    by (rule uuid_parts)
  have "filter (\<lambda>c. c \<noteq> CHR ''-'') v = a @ b @ c @ x @ e"
    using h p(1) by (simp add: filter_lower_hex)
  then have "hex_encode d = a @ b @ c @ x @ e"
    using dec h hex_encode_decode by metis
  then show ?thesis
    using d p by (simp add: uuid_text_def)
qed

lemma ParseCanonicalUUID_inj: "ParseCanonicalUUID v = Some d \<Longrightarrow> ParseCanonicalUUID w = Some d \<Longrightarrow> v = w"
  using ParseCanonicalUUID_text by metis

lemma parseWireTime_text: "parseWireTime v = Some t \<Longrightarrow> v = format_wire t"
  by (auto simp: parseWireTime_def split: if_splits option.splits)

lemma parseWireTime_format:
  assumes "valid_date y mo d" and "0 \<le> y" and "y \<le> 9999" and "valid_clock h mi s 0" and "0 \<le> ms" and "ms < 1000"
  shows "parseWireTime (format_wire (time_of_fields y mo d h mi s (ms * millisecond))) =
     Some (time_of_fields y mo d h mi s (ms * millisecond))"
proof -
  note f = format_wire_fields [OF assms(1,4-6)] and p = parse_wire_text [OF assms] and l = length_wire_text [OF assms]
  show ?thesis
    by (simp add: parseWireTime_def f p l)
qed

text \<open>The days of one month as instants, for examples.\<close>

definition example_day :: "int \<Rightarrow> time" where
  "example_day d = time_of_fields 2026 1 d 0 0 0 0"

lemma example_day_shift: "example_day d = example_day 1 + (d - 1) * (24 * hour)"
  by (simp add: example_day_def time_of_fields_def days_of_civil_def Let_def algebra_simps)

lemma example_day_1: "example_day 1 = 1767225600 * second"
  by (simp add: example_day_def time_of_fields_def days_of_civil_def year_base_def month_base_def Let_def duration_defs)

lemma TopicEpoch_example: "TopicEpoch (example_day 1) = 681"
  by (simp add: TopicEpoch_def example_day_1 topicPeriodSeconds_def duration_defs)

lemma parse_example_day: "1 \<le> d \<Longrightarrow> d \<le> 31 \<Longrightarrow> parseWireTime (format_wire (example_day d)) = Some (example_day d)"
  using parseWireTime_format [of 2026 1 d 0 0 0 0] by (simp add: example_day_def valid_date_def valid_clock_def days_in_month_def second_pos)

lemma integer_text_bound: "integer_text raw = Inr n \<Longrightarrow> n \<le> maxIJSONInteger"
  by (auto simp: integer_text_def split: if_splits option.splits)

lemma nonnegativeInteger_bound: "nonnegativeInteger v = Inr n \<Longrightarrow> n \<le> maxIJSONInteger"
proof (induction v rule: nonnegativeInteger.induct)
  case (2 v)
  have "unat v < 2 ^ 32"
    using unsigned_less [of v] by simp
  then show ?case
    using 2 by (simp add: maxIJSONInteger_def)
qed (auto split: if_splits dest: integer_text_bound)

lemma positiveInteger_bound: "positiveInteger v = Inr n \<Longrightarrow> 0 < n \<and> n \<le> maxIJSONInteger"
  by (auto simp: positiveInteger_def split: sum.splits if_splits dest: nonnegativeInteger_bound)

section \<open>Transcripts bind their inputs\<close>

lemma byte_len_inj: "m \<le> 255 \<Longrightarrow> n \<le> 255 \<Longrightarrow> byte_of m = byte_of n \<longleftrightarrow> m = (n::nat)"
  by (simp add: byte_of_eq_iff)

lemma roster_message_inj:
  assumes "length e \<le> 255" and "length e' \<le> 255"
  shows "roster_message e d = roster_message e' d' \<longleftrightarrow> e = e' \<and> d = d'"
  using assms by (auto simp: roster_message_def byte_len_inj)

lemma be4_inj: "be_bytes 4 (unat (a :: uint32)) @ s = be_bytes 4 (unat b) @ t \<longleftrightarrow> a = b \<and> s = t"
proof -
  have "unat a < 256 ^ 4" and "unat b < 256 ^ 4"
    using unsigned_less [of a] unsigned_less [of b] by simp_all
  then show ?thesis
    by (simp only: be_append_iff word_unat_eq_iff)
qed

definition tuple_ok :: "TupleInput \<Rightarrow> bool" where
  "tuple_ok i \<longleftrightarrow> length (ti_RosterCommitment i) = 32 \<and> length (ti_Environment i) \<le> 255 \<and>
     length (ti_TransportConversationID i) = 64"

lemma tuple_message_inj:
  assumes "tuple_message a c i = tuple_message a' c' j" and "tuple_ok i" and "tuple_ok j"
    and "length a = 16" "length a' = 16" "length c = 16" "length c' = 16"
  shows "a = a' \<and> c = c' \<and> ti_Environment i = ti_Environment j \<and> ti_ConversationGeneration i = ti_ConversationGeneration j \<and>
     ti_RosterVersion i = ti_RosterVersion j \<and> ti_RosterCommitment i = ti_RosterCommitment j \<and>
     ti_TransportConversationID i = ti_TransportConversationID j"
proof -
  have env: "length (ti_Environment i) = length (ti_Environment j)"
    using assms by (simp add: tuple_message_def tuple_ok_def byte_len_inj)
  show ?thesis
    using assms env by (simp add: tuple_message_def tuple_ok_def be4_inj)
qed

lemma TupleCommitment_Some:
  assumes "TupleCommitment key i = Some t"
  obtains a c where "length key = 32" "tuple_ok i" "ParseCanonicalUUID (ti_AccountIncarnationID i) = Some a"
    "ParseCanonicalUUID (ti_HytchConversationID i) = Some c" "t = hmac_sha256 key (tuple_message a c i)"
  using assms by (auto simp: TupleCommitment_def tuple_ok_def lowerHex64_def split: if_split_asm option.split_asm)

lemma tuple_bound_part:
  assumes "ParseCanonicalUUID (ti_AccountIncarnationID i) = Some a" "ParseCanonicalUUID (ti_HytchConversationID i) = Some c"
    and "ParseCanonicalUUID (ti_AccountIncarnationID j) = Some a'" "ParseCanonicalUUID (ti_HytchConversationID j) = Some c'"
    and "tuple_ok i" "tuple_ok j" and "tuple_message a c i = tuple_message a' c' j"
  shows "i = (j :: TupleInput)"
proof -
  have len: "length a = 16" "length a' = 16" "length c = 16" "length c' = 16"
    using assms(1-4) ParseCanonicalUUID_text by blast+
  note eqs = tuple_message_inj [OF assms(7) assms(5,6) len]
  have "ti_AccountIncarnationID i = ti_AccountIncarnationID j" "ti_HytchConversationID i = ti_HytchConversationID j"
    using eqs assms(1-4) ParseCanonicalUUID_inj by blast+
  then show ?thesis
    using eqs by simp
qed

text \<open>The canonical text of an object starts with an opening brace, which no domain contains.\<close>

definition signature_domains :: "bytes list" where
  "signature_domains = [AssertionSignatureDomain, ControlSignatureDomain, WatermarkSignatureDomain, KeysetSignatureDomain]"

lemma cut_before_brace:
  "x \<notin> set d \<Longrightarrow> x \<notin> set e \<Longrightarrow> d @ x # s = e @ x # t \<Longrightarrow> d = e \<and> s = t"
proof (induction d arbitrary: e)
  case Nil
  then show ?case by (cases e) auto
next
  case (Cons c d)
  then show ?case by (cases e) auto
qed

lemma domains_no_brace: "d \<in> set signature_domains \<Longrightarrow> CHR ''{'' \<notin> set d"
proof -
  have "byte_of 0 \<noteq> CHR ''{''"
    by (simp add: byte_of_eq_iff)
  then show "d \<in> set signature_domains \<Longrightarrow> CHR ''{'' \<notin> set d"
    by (auto simp: signature_domains_def AssertionSignatureDomain_def ControlSignatureDomain_def WatermarkSignatureDomain_def
      KeysetSignatureDomain_def)
qed

lemma Canonicalize_AMap_brace: "Canonicalize (AMap ms) = Inr t \<Longrightarrow> \<exists>b. t = CHR ''{'' # b"
  by (auto simp: Canonicalize_def result_iff split: if_splits)

lemma well_formed_without_field: "well_formed (AMap obj) \<Longrightarrow> well_formed (AMap (without_field f obj))"
  by (auto simp: without_field_def intro: distinct_map_filter)

lemma SignedTranscript_Some:
  "SignedTranscript obj f d = Some (c, i) \<longleftrightarrow>
     map_of obj f \<noteq> None \<and> Canonicalize (AMap (without_field f obj)) = Inr c \<and> i = d @ c"
  by (auto simp: SignedTranscript_def split: option.splits sum.splits)

lemma DecodeBase64URL_Encode: "0 < n \<Longrightarrow> length d = n \<Longrightarrow> DecodeBase64URL (EncodeBase64URL d) n = Some d"
  by (auto simp: DecodeBase64URL_iff)

lemma VerifyObject_AString:
  assumes "lookup obj f = AString encoded" and "length pk = 32"
  shows "VerifyObject verify obj f d pk =
     (case DecodeBase64URL encoded 64 of
        None \<Rightarrow> Invalid ''NONCANONICAL_BASE64URL''
      | Some sig \<Rightarrow>
          (case Canonicalize (AMap (without_field f obj)) of
             Inl _ \<Rightarrow> Invalid ''FIELD_DOMAIN''
           | Inr c \<Rightarrow> if \<not> verify pk (d @ c) sig then Invalid ''BAD_SIGNATURE'' else Eligible))"
proof -
  obtain v where "map_of obj f = Some v"
    using assms(1) by (auto simp: lookup_def split: option.splits)
  then show ?thesis
    using assms by (cases "Canonicalize (AMap (without_field f obj))"; cases "DecodeBase64URL encoded 64")
      (simp_all add: VerifyObject_def SignedTranscript_def)
qed

lemma VerifyObject_iff:
  "VerifyObject verify obj f d pk = Eligible \<longleftrightarrow>
     length pk = 32 \<and> (\<exists>sig c. lookup obj f = AString (EncodeBase64URL sig) \<and> length sig = 64 \<and>
       Canonicalize (AMap (without_field f obj)) = Inr c \<and> verify pk (d @ c) sig)"
proof (cases "\<exists>encoded. lookup obj f = AString encoded \<and> length pk = 32")
  case True
  then obtain encoded where e: "lookup obj f = AString encoded" "length pk = 32"
    by blast
  have "VerifyObject verify obj f d pk = Eligible \<longleftrightarrow>
      (\<exists>sig c. DecodeBase64URL encoded 64 = Some sig \<and> Canonicalize (AMap (without_field f obj)) = Inr c \<and> verify pk (d @ c) sig)"
    unfolding VerifyObject_AString [OF e] by (auto split: option.split sum.split)
  then show ?thesis
    using e by (auto simp: DecodeBase64URL_iff)
next
  case False
  then show ?thesis
    by (auto simp: VerifyObject_def split: any.split)
qed

lemma VerifyObject_eligible: "IsEligible (VerifyObject verify obj f d pk) \<longleftrightarrow> VerifyObject verify obj f d pk = Eligible"
  by (auto simp: VerifyObject_def split: if_split any.split option.split)

lemma signed_input_binds:
  assumes "SignedTranscript o1 f1 d1 = Some (c1, i)" and "SignedTranscript o2 f2 d2 = Some (c2, i)"
    and "d1 \<in> set signature_domains" and "d2 \<in> set signature_domains"
    and "well_formed (AMap o1)" and "well_formed (AMap o2)"
  shows "d1 = d2 \<and> canonical_form (AMap (without_field f1 o1)) = canonical_form (AMap (without_field f2 o2))"
proof -
  obtain c1: "Canonicalize (AMap (without_field f1 o1)) = Inr c1" and c2: "Canonicalize (AMap (without_field f2 o2)) = Inr c2"
    and i: "d1 @ c1 = d2 @ c2"
    using assms(1,2) by (simp add: SignedTranscript_Some)
  obtain b1 b2 where b: "c1 = CHR ''{'' # b1" "c2 = CHR ''{'' # b2"
    using c1 c2 Canonicalize_AMap_brace by meson
  then have eq: "d1 = d2 \<and> c1 = c2"
    using cut_before_brace [of "CHR ''{''" d1 d2 b1 b2] assms(3,4) i domains_no_brace by auto
  then have "Canonicalize (AMap (without_field f2 o2)) = Inr c1"
    using c2 by simp
  then show ?thesis
    using eq canonical_text_unique [OF c1] assms(5,6) well_formed_without_field by blast
qed

section \<open>When a period is usable\<close>

definition topic_period :: duration where
  "topic_period = topicPeriodSeconds * second"

lemma topic_period_pos: "60 * second < topic_period" "0 < topic_period"
  by (simp_all add: topic_period_def topicPeriodSeconds_def duration_defs)

lemma int_div_less: "0 < P \<Longrightarrow> a div P < q \<longleftrightarrow> a < q * (P::int)"
proof -
  assume P: "0 < P"
  have a: "a = a div P * P + a mod P" "0 \<le> a mod P" "a mod P < P"
    using P by simp_all
  show ?thesis
  proof
    assume "a div P < q"
    then have "(a div P + 1) * P \<le> q * P"
      using P by (intro mult_right_mono) simp_all
    then show "a < q * P"
      unfolding distrib_right using a by linarith
  next
    assume "a < q * P"
    then show "a div P < q"
      using a P mult_right_mono [of q "a div P" P] by linarith
  qed
qed

lemma uint_TopicEpoch:
  assumes "0 \<le> at" and "at < 2 ^ 32 * topic_period"
  shows "uint (TopicEpoch at) = at div topic_period"
proof -
  have q: "at div second div topicPeriodSeconds = at div topic_period"
    using zdiv_zmult2_eq [of topicPeriodSeconds at second]
    by (simp add: topic_period_def mult.commute [of second] topicPeriodSeconds_def)
  have "0 \<le> at div second" and ge: "0 \<le> at div topic_period"
    using assms(1) topic_period_pos(2) second_pos by (simp_all add: pos_imp_zdiv_nonneg_iff)
  moreover have "at div topic_period < 2 ^ 32"
    using assms(2) topic_period_pos(2) by (simp add: int_div_less)
  ultimately show ?thesis
    unfolding TopicEpoch_def Let_def q by (simp add: unsigned_of_int take_bit_int_eq_self)
qed

lemma TopicEpochBoundary_period: "TopicEpochBoundary e = uint e * topic_period"
  by (simp add: TopicEpochBoundary_def topic_period_def)

lemma period_step:
  assumes "0 < (P::int)" and "0 \<le> m" and "m < P"
  shows "e * P \<le> at \<and> at < (e + 1) * P + m \<longleftrightarrow> at div P = e \<or> (at div P = e + 1 \<and> at < at div P * P + m)"
proof -
  have at: "at = at div P * P + at mod P" "0 \<le> at mod P" "at mod P < P"
    using assms(1) by simp_all
  have e: "q * P \<le> at \<longleftrightarrow> q \<le> at div P" for q
    using int_div_less [OF assms(1), of at q] by linarith
  have l: "at < q * P \<longleftrightarrow> at div P < q" for q
    using int_div_less [OF assms(1)] by simp
  have "at < (e + 1) * P + m \<Longrightarrow> at < (e + 2) * P"
    using assms(3) by (simp add: distrib_right)
  then have "at < (e + 1) * P + m \<Longrightarrow> at div P < e + 2"
    by (simp only: l)
  moreover have "at div P < e + 1 \<Longrightarrow> at < (e + 1) * P + m"
    using assms(2) l [of "e + 1"] by linarith
  ultimately show ?thesis
    unfolding e by (smt (verit) e)
qed

lemma topic_epoch_usable_iff:
  assumes "0 \<le> at" and "at < 2 ^ 32 * topic_period"
  shows "TopicEpochUsable epoch at False \<longleftrightarrow>
     TopicEpochBoundary epoch \<le> at \<and> at < TopicEpochBoundary epoch + topic_period + 60 * second"
proof -
  let ?c = "TopicEpoch at"
  have c: "uint ?c = at div topic_period"
    by (rule uint_TopicEpoch [OF assms])
  have prev: "?c \<noteq> 0 \<and> epoch = ?c - 1 \<longleftrightarrow> uint ?c = uint epoch + 1"
  proof -
    have "uint (?c - 1) = uint ?c - 1" if "?c \<noteq> 0"
    proof -
      have "uint (1 :: uint32) \<le> uint ?c"
        using that uint_ge_0 [of ?c] by (simp add: word_uint_eq_iff int_one_le_iff_zero_less order.strict_iff_order)
      then show ?thesis
        using uint_sub_lem [of 1 ?c] by simp
    qed
    moreover have "uint epoch + 1 \<noteq> 0"
      using uint_ge_0 [of epoch] by linarith
    ultimately show ?thesis
      by (auto simp: word_uint_eq_iff)
  qed
  have "TopicEpochUsable epoch at False \<longleftrightarrow>
      at div topic_period = uint epoch \<or>
      (at div topic_period = uint epoch + 1 \<and> at < at div topic_period * topic_period + 60 * second)"
    unfolding TopicEpochUsable_def Let_def TopicEpochBoundary_period c [symmetric]
    using prev by (auto simp: word_uint_eq_iff)
  also have "\<dots> \<longleftrightarrow> uint epoch * topic_period \<le> at \<and> at < (uint epoch + 1) * topic_period + 60 * second"
    using topic_period_pos second_pos by (subst period_step) auto
  finally show ?thesis
    by (simp add: TopicEpochBoundary_period distrib_right add.assoc)
qed

section \<open>Claims\<close>

text \<open>
  C38. A signed transcript has one reading: when two objects yield the same signing input, under any of
  the four signature domains (assertion, control, watermark and keyset), they are signed under the same
  domain and are the same object up to their signatures. A signature made for one kind of artifact is no
  signature of another kind, nor of another object.
\<close>

theorem signed_transcript_binds:
  assumes "SignedTranscript o1 f1 d1 = Some (c1, i)" and "SignedTranscript o2 f2 d2 = Some (c2, i)"
    and "d1 \<in> set signature_domains" and "d2 \<in> set signature_domains"
    and "well_formed (AMap o1)" and "well_formed (AMap o2)"
  shows "d1 = d2 \<and> canonical_form (AMap (without_field f1 o1)) = canonical_form (AMap (without_field f2 o2))"
  using signed_input_binds [OF assms] .

theorem signed_transcript_binds_witness:
  "\<exists>c. SignedTranscript [(''s'', ANil), (''a'', ABool True)] ''s'' KeysetSignatureDomain = Some (c, KeysetSignatureDomain @ c) \<and>
     SignedTranscript [(''a'', ABool True), (''s'', ANil)] ''s'' KeysetSignatureDomain = Some (c, KeysetSignatureDomain @ c) \<and>
     canonical_form (AMap (without_field ''s'' [(''s'', ANil), (''a'', ABool True)])) =
     canonical_form (AMap (without_field ''s'' [(''a'', ABool True), (''s'', ANil)]))"
proof -
  let ?o1 = "[(''s'', ANil), (''a'', ABool True)]" and ?o2 = "[(''a'', ABool True), (''s'', ANil)]"
  let ?c = "CHR ''{'' # quoted (quote_esc (\<lambda>_. False)) ''a'' @ '':true}''"
  have c: "Canonicalize (AMap [(''a'', ABool True)]) = Inr ?c"
    by (simp add: Canonicalize_def appendASCIIString_def)
  then have t: "SignedTranscript ?o1 ''s'' KeysetSignatureDomain = Some (?c, KeysetSignatureDomain @ ?c)"
    "SignedTranscript ?o2 ''s'' KeysetSignatureDomain = Some (?c, KeysetSignatureDomain @ ?c)"
    by (simp_all add: SignedTranscript_Some without_field_def)
  moreover have "KeysetSignatureDomain \<in> set signature_domains" "well_formed (AMap ?o1)" "well_formed (AMap ?o2)"
    by (simp_all add: signature_domains_def)
  ultimately show ?thesis
    using signed_transcript_binds [OF t] by blast
qed

text \<open>
  The tuple commitment binds every value it is made of: two tuples are committed to by one keyed hash
  of the same message only when they agree in environment, account, conversation, generation, roster
  version, roster commitment and transport conversation.
\<close>

theorem tuple_commitment_binds:
  assumes "TupleCommitment key i = Some t" and "TupleCommitment key j = Some u"
  shows "\<exists>m n. t = hmac_sha256 key m \<and> u = hmac_sha256 key n \<and> (m = n \<longleftrightarrow> i = j)"
proof -
  obtain a c where i: "tuple_ok i" "ParseCanonicalUUID (ti_AccountIncarnationID i) = Some a"
    "ParseCanonicalUUID (ti_HytchConversationID i) = Some c" "t = hmac_sha256 key (tuple_message a c i)"
    using assms(1) by (rule TupleCommitment_Some)
  obtain a' c' where j: "tuple_ok j" "ParseCanonicalUUID (ti_AccountIncarnationID j) = Some a'"
    "ParseCanonicalUUID (ti_HytchConversationID j) = Some c'" "u = hmac_sha256 key (tuple_message a' c' j)"
    using assms(2) by (rule TupleCommitment_Some)
  have "tuple_message a c i = tuple_message a' c' j \<longleftrightarrow> i = j"
    using tuple_bound_part [OF i(2,3) j(2,3) i(1) j(1)] i(2,3) j(2,3) by auto
  then show ?thesis
    using i(4) j(4) by blast
qed

definition example_tuple :: TupleInput where
  "example_tuple = \<lparr>ti_Environment = ''dev'', ti_AccountIncarnationID = ''00000000-0000-4000-8000-000000000000'',
     ti_HytchConversationID = ''00000000-0000-4000-8000-000000000000'', ti_ConversationGeneration = 1, ti_RosterVersion = 1,
     ti_RosterCommitment = replicate 32 (CHR ''r''), ti_TransportConversationID = replicate 64 (CHR ''a'')\<rparr>"

lemma example_tuple_commits: "\<exists>t. TupleCommitment (replicate 32 (CHR ''k'')) example_tuple = Some t"
proof -
  have "is_lower_hex (CHR ''a'')"
    by code_simp
  moreover have "\<exists>d. ParseCanonicalUUID ''00000000-0000-4000-8000-000000000000'' = Some d"
    by (rule exI [of _ "replicate 6 (byte_of 0) @ [byte_of 64, byte_of 0, byte_of 128] @ replicate 7 (byte_of 0)"]) code_simp
  ultimately show ?thesis
    by (auto simp: TupleCommitment_def example_tuple_def lowerHex64_def list_all_iff isASCII_def)
qed

theorem tuple_commitment_binds_witness:
  "\<exists>t m. TupleCommitment (replicate 32 (CHR ''k'')) example_tuple = Some t \<and> t = hmac_sha256 (replicate 32 (CHR ''k'')) m"
  using example_tuple_commits tuple_commitment_binds by blast

text \<open>
  For verification a topic-key period is usable exactly from its boundary until 60 seconds after the
  next boundary: the overlap in which the previous period still verifies is the erasure deadline, and no
  other period is ever usable.
\<close>

theorem topic_epoch_window:
  assumes "0 \<le> at" and "at < 2 ^ 32 * topic_period"
  shows "TopicEpochUsable epoch at False \<longleftrightarrow>
     TopicEpochBoundary epoch \<le> at \<and> at < TopicEpochBoundary epoch + topic_period + 60 * second"
  by (rule topic_epoch_usable_iff [OF assms])

theorem topic_epoch_window_witness:
  "TopicEpochUsable 0 (topic_period + 59 * second) False \<and> \<not> TopicEpochUsable 0 (topic_period + 60 * second) False"
proof -
  have "0 \<le> topic_period + 59 * second" "topic_period + 59 * second < 2 ^ 32 * topic_period"
    "0 \<le> topic_period + 60 * second" "topic_period + 60 * second < 2 ^ 32 * topic_period"
    by (simp_all add: topic_period_def topicPeriodSeconds_def duration_defs)
  then show ?thesis
    using topic_epoch_window [of "topic_period + 59 * second" 0] topic_epoch_window [of "topic_period + 60 * second" 0]
    by (simp add: TopicEpochBoundary_def topic_period_def topicPeriodSeconds_def duration_defs)
qed

end
