(* ===== verification/Trust_Keyset.thy ===== *)
theory Trust_Keyset
  imports Trust_Primitives
begin

text \<open>
  Root-signed keysets: \<open>pkg/a9trust/keyset.go\<close>. A keyset lists the online keys that sign control
  artifacts and service tokens and the descriptors of the commitment keys. The theory holds the validation
  of one keyset, the selection of keys at an instant, the validation of a rotation between two accepted
  keysets and of the topic-key schedule. It shows what an accepted keyset guarantees, that a rotation never
  strands a signature (what the old key signed still verifies, and the new key was published for
  verification before it signs), and that a valid schedule always has a topic key to issue with.
\<close>

record OnlineKey =
  ok_KeyID :: bytes
  ok_Use :: bytes
  ok_PublicKey :: bytes
  ok_NotBefore :: time
  ok_NotAfter :: time
  ok_State :: bytes

record CommitmentKey =
  ck_Purpose :: bytes
  ck_KeyID :: bytes
  ck_TopicKeyEpoch :: "uint32 option"
  ck_NotBefore :: time
  ck_NotAfter :: time

section \<open>Reading descriptors\<close>

definition parseOnlineKey :: "any \<Rightarrow> OnlineKey option" where
  "parseOnlineKey item = (case item of
     AMap obj \<Rightarrow>
       if length obj \<noteq> 6 then None
       else (case DecodeBase64URL (objectString obj ''public_key_base64url'') 32 of
          None \<Rightarrow> None
        | Some publicKey \<Rightarrow>
            (case parseWireTime (objectString obj ''not_before'') of
               None \<Rightarrow> None
             | Some notBefore \<Rightarrow>
                 (case parseWireTime (objectString obj ''not_after'') of
                    None \<Rightarrow> None
                  | Some notAfter \<Rightarrow>
                      Some \<lparr>ok_KeyID = objectString obj ''key_id'', ok_Use = objectString obj ''use'', ok_PublicKey = publicKey,
                        ok_NotBefore = notBefore, ok_NotAfter = notAfter, ok_State = objectString obj ''state''\<rparr>)))
   | _ \<Rightarrow> None)"

definition parseOnlineKeys :: "any \<Rightarrow> OnlineKey list option" where
  "parseOnlineKeys v = (case v of AArray items \<Rightarrow> those (map parseOnlineKey items) | _ \<Rightarrow> None)"

definition parseTopicKeyEpoch :: "any \<Rightarrow> uint32 option option" where
  "parseTopicKeyEpoch v =
     (if v = ANil then Some None
      else (case positiveInteger v of
         Inl _ \<Rightarrow> None
       | Inr n \<Rightarrow> if 2 ^ 32 - 1 < n then None else Some (Some (word_of_nat n))))"

definition parseCommitmentKey :: "any \<Rightarrow> CommitmentKey option" where
  "parseCommitmentKey item = (case item of
     AMap obj \<Rightarrow>
       if length obj \<noteq> 5 then None
       else (case parseTopicKeyEpoch (lookup obj ''topic_key_epoch'') of
          None \<Rightarrow> None
        | Some epoch \<Rightarrow>
            (case parseWireTime (objectString obj ''not_before'') of
               None \<Rightarrow> None
             | Some notBefore \<Rightarrow>
                 (case parseWireTime (objectString obj ''not_after'') of
                    None \<Rightarrow> None
                  | Some notAfter \<Rightarrow>
                      Some \<lparr>ck_Purpose = objectString obj ''purpose'', ck_KeyID = objectString obj ''key_id'',
                        ck_TopicKeyEpoch = epoch, ck_NotBefore = notBefore, ck_NotAfter = notAfter\<rparr>)))
   | _ \<Rightarrow> None)"

definition parseCommitmentKeys :: "any \<Rightarrow> CommitmentKey list option" where
  "parseCommitmentKeys v = (case v of AArray items \<Rightarrow> those (map parseCommitmentKey items) | _ \<Rightarrow> None)"

definition leftPadUint :: "uint32 \<Rightarrow> nat \<Rightarrow> bytes" where
  "leftPadUint v width = pad_dec width (unat v)"

definition commitmentSortKey :: "CommitmentKey \<Rightarrow> bytes" where
  "commitmentSortKey key =
     ck_Purpose key @ [byte_of 0] @ (case ck_TopicKeyEpoch key of None \<Rightarrow> [] | Some e \<Rightarrow> leftPadUint e 10) @ [byte_of 0] @
     format_wire (ck_NotBefore key) @ [byte_of 0] @ ck_KeyID key"

definition commitmentKeysOrdered :: "CommitmentKey list \<Rightarrow> bool" where
  "commitmentKeysOrdered keys \<longleftrightarrow> sorted (map commitmentSortKey keys)"

definition onlineSortKey :: "OnlineKey \<Rightarrow> bytes" where
  "onlineSortKey key = ok_Use key @ [byte_of 0] @ ok_State key @ [byte_of 0] @ ok_KeyID key"

definition onlineKeysOrdered :: "OnlineKey list \<Rightarrow> bool" where
  "onlineKeysOrdered keys \<longleftrightarrow> sorted (map onlineSortKey keys)"

section \<open>Selecting keys\<close>

text \<open>The loops that select one entry and give up on a second one.\<close>

definition sole :: "('a \<Rightarrow> bool) \<Rightarrow> 'a list \<Rightarrow> 'a option" where
  "sole P xs = (case filter P xs of [x] \<Rightarrow> Some x | _ \<Rightarrow> None)"

definition OnlineKeyAt :: "object \<Rightarrow> bytes \<Rightarrow> bytes \<Rightarrow> time \<Rightarrow> trust_verdict + bytes" where
  "OnlineKeyAt keyset keyID use at =
     (case parseOnlineKeys (lookup keyset ''keys'') of
        None \<Rightarrow> Inl (Invalid ''KEY_STATE'')
      | Some keys \<Rightarrow>
          (case find (\<lambda>key. ok_KeyID key = keyID \<and> ok_Use key = use) keys of
             None \<Rightarrow> Inl (Invalid ''KEY_STATE'')
           | Some key \<Rightarrow>
               if at < ok_NotBefore key \<or> \<not> at < ok_NotAfter key then Inl (Invalid ''KEY_STATE'')
               else Inr (ok_PublicKey key)))"

definition SigningKeyAt :: "object \<Rightarrow> bytes \<Rightarrow> time \<Rightarrow> trust_verdict + OnlineKey" where
  "SigningKeyAt keyset use at =
     (case parseOnlineKeys (lookup keyset ''keys'') of
        None \<Rightarrow> Inl (Invalid ''KEY_STATE'')
      | Some keys \<Rightarrow>
          (case sole (\<lambda>key. ok_Use key = use \<and> ok_State key = ''SIGN'' \<and> \<not> at < ok_NotBefore key \<and> at < ok_NotAfter key) keys of
             None \<Rightarrow> Inl (Invalid ''KEY_STATE'')
           | Some key \<Rightarrow> Inr key))"

definition sameEpoch :: "uint32 option \<Rightarrow> uint32 option \<Rightarrow> bool" where
  "sameEpoch a b \<longleftrightarrow> (case (a, b) of (Some x, Some y) \<Rightarrow> x = y | (None, None) \<Rightarrow> True | _ \<Rightarrow> False)"

definition commitment_at :: "bytes \<Rightarrow> uint32 option \<Rightarrow> time \<Rightarrow> bool \<Rightarrow> CommitmentKey \<Rightarrow> bool" where
  "commitment_at purpose topicEpoch at forIssuance key \<longleftrightarrow>
     \<not> (ck_Purpose key \<noteq> purpose \<or> \<not> sameEpoch (ck_TopicKeyEpoch key) topicEpoch) \<and>
     \<not> (at < ck_NotBefore key \<or> \<not> at < ck_NotAfter key) \<and>
     \<not> (purpose = ''TOPIC'' \<and> (case topicEpoch of None \<Rightarrow> True | Some e \<Rightarrow> \<not> TopicEpochUsable e at forIssuance))"

definition CommitmentKeyAt :: "object \<Rightarrow> bytes \<Rightarrow> uint32 option \<Rightarrow> time \<Rightarrow> bool \<Rightarrow> trust_verdict + CommitmentKey" where
  "CommitmentKeyAt keyset purpose topicEpoch at forIssuance =
     (case parseCommitmentKeys (lookup keyset ''commitment_keys'') of
        None \<Rightarrow> Inl (Invalid ''KEY_STATE'')
      | Some keys \<Rightarrow>
          (case filter (commitment_at purpose topicEpoch at forIssuance) keys of
             [] \<Rightarrow> if purpose = ''TOPIC'' then Inl (Invalid ''TOPIC_KEY_EPOCH'') else Inl (Invalid ''KEY_STATE'')
           | [key] \<Rightarrow> Inr key
           | _ \<Rightarrow> Inl (Invalid ''KEY_STATE'')))"

section \<open>One keyset\<close>

fun online_loop :: "bytes list \<Rightarrow> OnlineKey list \<Rightarrow> bool" where
  "online_loop seen [] = True"
| "online_loop seen (key # keys) =
     (if ok_KeyID key \<in> set seen \<or> (ok_Use key \<noteq> ''A9_CONTROL'' \<and> ok_Use key \<noteq> ''SERVICE_AUTH'') \<or>
         (ok_State key \<noteq> ''SIGN'' \<and> ok_State key \<noteq> ''VERIFY_ONLY'') \<or> \<not> ok_NotAfter key > ok_NotBefore key
      then False
      else if Ed25519KeyID (ok_PublicKey key) \<noteq> Some (ok_KeyID key) then False
      else online_loop (ok_KeyID key # seen) keys)"

definition sign_count :: "bytes \<Rightarrow> OnlineKey list \<Rightarrow> nat" where
  "sign_count use keys = length (filter (\<lambda>key. ok_State key = ''SIGN'' \<and> ok_Use key = use) keys)"

definition purpose_ok :: "CommitmentKey \<Rightarrow> bool" where
  "purpose_ok d \<longleftrightarrow>
     (if ck_Purpose d = ''TOPIC'' then (case ck_TopicKeyEpoch d of None \<Rightarrow> False | Some e \<Rightarrow> e \<noteq> 0)
      else if ck_Purpose d = ''ROSTER'' \<or> ck_Purpose d = ''TUPLE'' then ck_TopicKeyEpoch d = None
      else False)"

fun commitment_loop :: "bytes list \<Rightarrow> CommitmentKey list \<Rightarrow> bool" where
  "commitment_loop seen [] = True"
| "commitment_loop seen (d # ds) =
     (if ck_KeyID d \<in> set seen \<or> \<not> ck_NotAfter d > ck_NotBefore d \<or> \<not> hasPrefix (ck_KeyID d) ''hmac-sha256:'' \<or>
         \<not> lowerHex64 (trimPrefix (ck_KeyID d) ''hmac-sha256:'')
      then False
      else if \<not> purpose_ok d then False
      else commitment_loop (ck_KeyID d # seen) ds)"

definition purpose_count :: "bytes \<Rightarrow> CommitmentKey list \<Rightarrow> nat" where
  "purpose_count purpose ds = length (filter (\<lambda>d. ck_Purpose d = purpose) ds)"

definition eligible_sum :: "trust_verdict + 'a \<Rightarrow> bool" where
  "eligible_sum x \<longleftrightarrow> (case x of Inl _ \<Rightarrow> False | Inr _ \<Rightarrow> True)"

definition ValidateKeyset :: "ed25519_verify \<Rightarrow> object \<Rightarrow> bytes \<Rightarrow> bytes \<Rightarrow> bytes \<Rightarrow> time \<Rightarrow> trust_verdict" where
  "ValidateKeyset verify obj pinnedRootPublic pinnedRootKeyID environment now =
     (if objectString obj ''protocol'' \<noteq> ''hytch.a9-bridge-keyset'' \<or> \<not> objectIntegerEquals obj ''schema_version'' 1 \<or>
         objectString obj ''environment'' \<noteq> environment \<or> objectString obj ''root_signature_algorithm'' \<noteq> ''Ed25519''
      then Inconclusive ''KEY_STATE''
      else if Ed25519KeyID pinnedRootPublic \<noteq> Some pinnedRootKeyID \<or> objectString obj ''root_signing_key_id'' \<noteq> pinnedRootKeyID
      then Inconclusive ''KEY_STATE''
      else (case parseWireTime (objectString obj ''issued_at'') of
         None \<Rightarrow> Inconclusive ''KEY_STATE''
       | Some issued \<Rightarrow>
      (case parseWireTime (objectString obj ''expires_at'') of
         None \<Rightarrow> Inconclusive ''KEY_STATE''
       | Some expires \<Rightarrow>
           if \<not> expires > issued \<or> time_sub expires issued > 24 * hour \<or>
              (now \<noteq> zero_time \<and> (now < issued \<or> \<not> now < expires))
           then Inconclusive ''KEY_STATE''
           else if \<not> eligible_sum (positiveInteger (lookup obj ''keyset_sequence'')) then Inconclusive ''KEY_STATE''
           else
      (case parseOnlineKeys (lookup obj ''keys'') of
         None \<Rightarrow> Inconclusive ''KEY_STATE''
       | Some online \<Rightarrow>
           if length online < 2 \<or> 4 < length online \<or> \<not> onlineKeysOrdered online then Inconclusive ''KEY_STATE''
           else if \<not> online_loop [] online then Inconclusive ''KEY_STATE''
           else if sign_count ''A9_CONTROL'' online \<noteq> 1 \<or> sign_count ''SERVICE_AUTH'' online \<noteq> 1 then Inconclusive ''KEY_STATE''
           else if \<not> list_all (\<lambda>use. eligible_sum (SigningKeyAt obj use issued)) [''A9_CONTROL'', ''SERVICE_AUTH'']
           then Inconclusive ''KEY_STATE''
           else
      (case parseCommitmentKeys (lookup obj ''commitment_keys'') of
         None \<Rightarrow> Inconclusive ''KEY_STATE''
       | Some commitments \<Rightarrow>
           if length commitments < 3 \<or> 6 < length commitments \<or> \<not> commitmentKeysOrdered commitments then Inconclusive ''KEY_STATE''
           else if \<not> commitment_loop [] commitments then Inconclusive ''KEY_STATE''
           else if list_ex (\<lambda>purpose. purpose_count purpose commitments < 1 \<or> 2 < purpose_count purpose commitments)
                     [''ROSTER'', ''TOPIC'', ''TUPLE'']
           then Inconclusive ''KEY_STATE''
           else if \<not> IsEligible (VerifyObject verify obj ''root_signature_base64url'' KeysetSignatureDomain pinnedRootPublic)
           then Inconclusive ''KEY_STATE''
           else Eligible)))))"

definition ValidateKeysetSequence :: "object \<Rightarrow> nat \<Rightarrow> bytes \<Rightarrow> trust_verdict" where
  "ValidateKeysetSequence incoming storedSequence storedObjectHash =
     (case positiveInteger (lookup incoming ''keyset_sequence'') of
        Inl _ \<Rightarrow> Inconclusive ''KEYSET_ROLLBACK''
      | Inr seqno \<Rightarrow>
          if seqno < storedSequence then Inconclusive ''KEYSET_ROLLBACK''
          else if seqno = storedSequence \<and> storedObjectHash \<noteq> [] \<and> CanonicalObjectHash incoming \<noteq> Some storedObjectHash
          then Inconclusive ''KEYSET_ROLLBACK''
          else Eligible)"

section \<open>Rotation of online keys\<close>

definition soleSigningKeyForUse :: "OnlineKey list \<Rightarrow> bytes \<Rightarrow> OnlineKey option" where
  "soleSigningKeyForUse keys use = sole (\<lambda>key. \<not> (ok_Use key \<noteq> use \<or> ok_State key \<noteq> ''SIGN'')) keys"

definition findOnlineKey :: "OnlineKey list \<Rightarrow> bytes \<Rightarrow> bytes \<Rightarrow> bytes \<Rightarrow> OnlineKey option" where
  "findOnlineKey keys use excludedKeyID keyID =
     sole (\<lambda>key. \<not> (ok_Use key \<noteq> use \<or> ok_KeyID key = excludedKeyID \<or> ok_KeyID key \<noteq> keyID)) keys"

definition onlineKeyByID :: "OnlineKey list \<Rightarrow> bytes \<Rightarrow> bytes \<Rightarrow> OnlineKey option" where
  "onlineKeyByID keys use keyID = sole (\<lambda>key. \<not> (ok_Use key \<noteq> use \<or> ok_KeyID key \<noteq> keyID)) keys"

definition sameOnlineKeyMaterial :: "OnlineKey \<Rightarrow> OnlineKey \<Rightarrow> bool" where
  "sameOnlineKeyMaterial left right \<longleftrightarrow>
     ok_KeyID left = ok_KeyID right \<and> ok_PublicKey left = ok_PublicKey right \<and>
     ok_NotBefore left = ok_NotBefore right \<and> ok_NotAfter left = ok_NotAfter right"

definition before_key_ok :: "OnlineKey list \<Rightarrow> bytes \<Rightarrow> time \<Rightarrow> time \<Rightarrow> bytes \<Rightarrow> OnlineKey \<Rightarrow> bool" where
  "before_key_ok after use transitionIssued cutoverIssued promotedKeyID key \<longleftrightarrow>
     (if ok_Use key \<noteq> use \<or> ok_State key \<noteq> ''VERIFY_ONLY'' \<or> ok_KeyID key = promotedKeyID then True
      else if ok_NotBefore key > transitionIssued \<and> \<not> cutoverIssued < ok_NotBefore key then False
      else (case onlineKeyByID after use (ok_KeyID key) of
         None \<Rightarrow> \<not> cutoverIssued < ok_NotAfter key
       | Some next \<Rightarrow>
           if cutoverIssued < ok_NotAfter key then ok_State next = ''VERIFY_ONLY'' \<and> sameOnlineKeyMaterial key next
           else sameOnlineKeyMaterial key next))"

definition after_key_ok :: "OnlineKey list \<Rightarrow> bytes \<Rightarrow> time \<Rightarrow> bytes \<Rightarrow> OnlineKey \<Rightarrow> bool" where
  "after_key_ok before use cutoverIssued retiredKeyID key \<longleftrightarrow>
     (if ok_Use key \<noteq> use \<or> ok_State key \<noteq> ''VERIFY_ONLY'' \<or> ok_KeyID key = retiredKeyID then True
      else if onlineKeyByID before use (ok_KeyID key) \<noteq> None then True
      else \<not> time_sub (ok_NotBefore key) cutoverIssued < 24 * hour)"

definition validateVerifyOnlyContinuity ::
    "OnlineKey list \<Rightarrow> OnlineKey list \<Rightarrow> bytes \<Rightarrow> time \<Rightarrow> time \<Rightarrow> bytes \<Rightarrow> bytes \<Rightarrow> trust_verdict" where
  "validateVerifyOnlyContinuity before after use transitionIssued cutoverIssued promotedKeyID retiredKeyID =
     (if \<not> list_all (before_key_ok after use transitionIssued cutoverIssued promotedKeyID) before then Inconclusive ''KEY_STATE''
      else if \<not> list_all (after_key_ok before use cutoverIssued retiredKeyID) after then Inconclusive ''KEY_STATE''
      else Eligible)"

definition retention :: "bytes \<Rightarrow> duration" where
  "retention use = (if use = ''SERVICE_AUTH'' then 125 * second else 90 * second)"

definition validateOnlineRotationForUse ::
    "OnlineKey list \<Rightarrow> OnlineKey list \<Rightarrow> bytes \<Rightarrow> time \<Rightarrow> time \<Rightarrow> trust_verdict" where
  "validateOnlineRotationForUse before after use transitionIssued cutoverIssued =
     (case soleSigningKeyForUse before use of
        None \<Rightarrow> Inconclusive ''KEY_STATE''
      | Some oldSign \<Rightarrow>
     (case soleSigningKeyForUse after use of
        None \<Rightarrow> Inconclusive ''KEY_STATE''
      | Some newSign \<Rightarrow>
          if ok_KeyID oldSign = ok_KeyID newSign then
            (if \<not> sameOnlineKeyMaterial oldSign newSign then Inconclusive ''KEY_STATE''
             else validateVerifyOnlyContinuity before after use transitionIssued cutoverIssued [] [])
          else
     (case findOnlineKey before use (ok_KeyID oldSign) (ok_KeyID newSign) of
        None \<Rightarrow> Inconclusive ''KEY_STATE''
      | Some staged \<Rightarrow>
          if ok_State staged \<noteq> ''VERIFY_ONLY'' \<or> time_sub (ok_NotBefore staged) transitionIssued < 24 * hour \<or>
             cutoverIssued < ok_NotBefore staged \<or> \<not> sameOnlineKeyMaterial staged newSign
          then Inconclusive ''KEY_STATE''
          else
     (case findOnlineKey after use (ok_KeyID newSign) (ok_KeyID oldSign) of
        None \<Rightarrow> Inconclusive ''KEY_STATE''
      | Some oldVerify \<Rightarrow>
          if ok_State oldVerify \<noteq> ''VERIFY_ONLY'' \<or> \<not> sameOnlineKeyMaterial oldSign oldVerify then Inconclusive ''KEY_STATE''
          else if ok_NotAfter oldVerify < cutoverIssued + retention use then Inconclusive ''KEY_STATE''
          else validateVerifyOnlyContinuity before after use transitionIssued cutoverIssued (ok_KeyID staged) (ok_KeyID oldVerify)))))"

definition ValidateOnlineRotation :: "object \<Rightarrow> object \<Rightarrow> trust_verdict" where
  "ValidateOnlineRotation transition cutover =
     (case positiveInteger (lookup transition ''keyset_sequence'') of
        Inl _ \<Rightarrow> Inconclusive ''KEY_STATE''
      | Inr transitionSequence \<Rightarrow>
     (case positiveInteger (lookup cutover ''keyset_sequence'') of
        Inl _ \<Rightarrow> Inconclusive ''KEY_STATE''
      | Inr cutoverSequence \<Rightarrow>
          if cutoverSequence \<le> transitionSequence then Inconclusive ''KEY_STATE''
          else
     (case parseWireTime (objectString transition ''issued_at'') of
        None \<Rightarrow> Inconclusive ''KEY_STATE''
      | Some transitionIssued \<Rightarrow>
     (case parseWireTime (objectString cutover ''issued_at'') of
        None \<Rightarrow> Inconclusive ''KEY_STATE''
      | Some cutoverIssued \<Rightarrow>
     (case parseOnlineKeys (lookup transition ''keys'') of
        None \<Rightarrow> Inconclusive ''KEY_STATE''
      | Some before \<Rightarrow>
     (case parseOnlineKeys (lookup cutover ''keys'') of
        None \<Rightarrow> Inconclusive ''KEY_STATE''
      | Some after \<Rightarrow>
          if cutoverIssued < transitionIssued then Inconclusive ''KEY_STATE''
          else let v = validateOnlineRotationForUse before after ''A9_CONTROL'' transitionIssued cutoverIssued in
            if \<not> IsEligible v then v
            else let w = validateOnlineRotationForUse before after ''SERVICE_AUTH'' transitionIssued cutoverIssued in
              if \<not> IsEligible w then w else Eligible))))))"

section \<open>The topic-key schedule\<close>

definition last_epoch :: "uint32 \<Rightarrow> CommitmentKey list \<Rightarrow> CommitmentKey option" where
  "last_epoch e ds = find (\<lambda>d. ck_Purpose d = ''TOPIC'' \<and> ck_TopicKeyEpoch d = Some e) (rev ds)"

definition ValidateTopicTransition :: "object \<Rightarrow> trust_verdict" where
  "ValidateTopicTransition keyset =
     (case parseWireTime (objectString keyset ''issued_at'') of
        None \<Rightarrow> Inconclusive ''KEY_STATE''
      | Some issued \<Rightarrow>
     (let currentEpoch = TopicEpoch issued; nextEpoch = currentEpoch + 1 in
      case parseCommitmentKeys (lookup keyset ''commitment_keys'') of
        None \<Rightarrow> Inconclusive ''KEY_STATE''
      | Some descriptors \<Rightarrow>
          (let boundary = TopicEpochBoundary nextEpoch in
           case (last_epoch currentEpoch descriptors, last_epoch nextEpoch descriptors) of
             (Some current, Some next) \<Rightarrow>
               if ck_NotBefore next \<noteq> boundary \<or> ck_NotAfter current < boundary + 60 * second then Inconclusive ''KEY_STATE''
               else Eligible
           | _ \<Rightarrow> Inconclusive ''KEY_STATE'')))"

text \<open>The loop over the topic descriptors: the one of the current period and the other one, each at most once.\<close>

fun schedule_loop :: "uint32 \<Rightarrow> CommitmentKey option \<Rightarrow> CommitmentKey option \<Rightarrow> CommitmentKey list \<Rightarrow>
    (CommitmentKey option \<times> CommitmentKey option) option" where
  "schedule_loop currentEpoch current adjacent [] = Some (current, adjacent)"
| "schedule_loop currentEpoch current adjacent (d # ds) =
     (case ck_TopicKeyEpoch d of
        None \<Rightarrow> None
      | Some e \<Rightarrow>
          if e = currentEpoch then
            (if current \<noteq> None then None else schedule_loop currentEpoch (Some d) adjacent ds)
          else (if adjacent \<noteq> None then None else schedule_loop currentEpoch current (Some d) ds))"

definition adjacent_ok :: "time \<Rightarrow> uint32 \<Rightarrow> CommitmentKey \<Rightarrow> CommitmentKey \<Rightarrow> bool" where
  "adjacent_ok issued currentEpoch current adjacent =
     (let adjacentEpoch = the (ck_TopicKeyEpoch adjacent) in
      if adjacentEpoch = currentEpoch + 1 then
        (let boundary = TopicEpochBoundary adjacentEpoch in
         \<not> (ck_NotBefore adjacent \<noteq> boundary \<or> ck_NotAfter current < boundary + 60 * second))
      else if currentEpoch > 0 \<and> adjacentEpoch = currentEpoch - 1 then
        (let boundary = TopicEpochBoundary currentEpoch in
         \<not> (ck_NotBefore current \<noteq> boundary \<or> ck_NotAfter adjacent < boundary + 60 * second \<or>
            \<not> issued < boundary + 60 * second))
      else False)"

definition ValidateTopicKeySchedule :: "object \<Rightarrow> trust_verdict" where
  "ValidateTopicKeySchedule keyset =
     (case parseWireTime (objectString keyset ''issued_at'') of
        None \<Rightarrow> Inconclusive ''KEY_STATE''
      | Some issued \<Rightarrow>
     (case parseCommitmentKeys (lookup keyset ''commitment_keys'') of
        None \<Rightarrow> Inconclusive ''KEY_STATE''
      | Some descriptors \<Rightarrow>
          (let topic = filter (\<lambda>d. ck_Purpose d = ''TOPIC'') descriptors; currentEpoch = TopicEpoch issued in
           if length topic < 1 \<or> 2 < length topic then Inconclusive ''KEY_STATE''
           else (case schedule_loop currentEpoch None None topic of
              None \<Rightarrow> Inconclusive ''KEY_STATE''
            | Some (None, _) \<Rightarrow> Inconclusive ''KEY_STATE''
            | Some (Some current, adjacent) \<Rightarrow>
                if issued < ck_NotBefore current \<or> \<not> issued < ck_NotAfter current then Inconclusive ''KEY_STATE''
                else (case adjacent of
                   None \<Rightarrow> Eligible
                 | Some a \<Rightarrow> if \<not> adjacent_ok issued currentEpoch current a then Inconclusive ''KEY_STATE'' else Eligible)))))"

section \<open>Selected keys\<close>

lemma sole_Some_iff: "sole P xs = Some x \<longleftrightarrow> filter P xs = [x]"
  by (auto simp: sole_def split: list.splits)

lemma sole_Some: "sole P xs = Some x \<Longrightarrow> x \<in> set xs \<and> P x \<and> (\<forall>y\<in>set xs. P y \<longrightarrow> y = x)"
proof -
  assume "sole P xs = Some x"
  then have "set (filter P xs) = {x}"
    by (simp add: sole_Some_iff)
  then show ?thesis
    by auto
qed

lemma find_unique:
  assumes "x \<in> set xs" and "P x" and "\<And>y. y \<in> set xs \<Longrightarrow> P y \<Longrightarrow> y = x"
  shows "find P xs = Some x"
proof (cases "find P xs")
  case None
  then show ?thesis
    using assms(1,2) by (simp add: find_None_iff)
next
  case (Some y)
  then have "y \<in> set xs \<and> P y"
    by (auto simp: find_Some_iff)
  then show ?thesis
    using Some assms(3) by metis
qed

lemma distinct_key: "distinct (map f xs) \<Longrightarrow> x \<in> set xs \<Longrightarrow> y \<in> set xs \<Longrightarrow> f x = f y \<Longrightarrow> x = y"
  by (auto simp: distinct_map dest: inj_onD)

text \<open>A key of a keyset with distinct identifiers is the one found under its identifier.\<close>

lemma OnlineKeyAt_member:
  assumes "parseOnlineKeys (lookup keyset ''keys'') = Some keys" and "distinct (map ok_KeyID keys)" and "k \<in> set keys"
  shows "OnlineKeyAt keyset (ok_KeyID k) (ok_Use k) at =
     (if ok_NotBefore k \<le> at \<and> at < ok_NotAfter k then Inr (ok_PublicKey k) else Inl (Invalid ''KEY_STATE''))"
proof -
  have "find (\<lambda>key. ok_KeyID key = ok_KeyID k \<and> ok_Use key = ok_Use k) keys = Some k"
    using assms(2,3) by (intro find_unique) (auto dest: distinct_key)
  then show ?thesis
    using assms(1) by (auto simp: OnlineKeyAt_def)
qed

lemma OnlineKeyAt_Inr:
  "OnlineKeyAt keyset keyID use at = Inr pk \<longleftrightarrow>
     (\<exists>keys k. parseOnlineKeys (lookup keyset ''keys'') = Some keys \<and>
        find (\<lambda>key. ok_KeyID key = keyID \<and> ok_Use key = use) keys = Some k \<and>
        ok_NotBefore k \<le> at \<and> at < ok_NotAfter k \<and> ok_PublicKey k = pk)"
  by (auto simp: OnlineKeyAt_def split: option.splits if_splits)

section \<open>What an accepted keyset guarantees\<close>

lemma online_loop_iff:
  "online_loop seen keys \<longleftrightarrow>
     distinct (map ok_KeyID keys) \<and> set (map ok_KeyID keys) \<inter> set seen = {} \<and>
     (\<forall>k\<in>set keys. (ok_Use k = ''A9_CONTROL'' \<or> ok_Use k = ''SERVICE_AUTH'') \<and> (ok_State k = ''SIGN'' \<or> ok_State k = ''VERIFY_ONLY'') \<and>
        ok_NotBefore k < ok_NotAfter k \<and> Ed25519KeyID (ok_PublicKey k) = Some (ok_KeyID k))"
  by (induction seen keys rule: online_loop.induct) auto

lemma commitment_loop_iff:
  "commitment_loop seen ds \<longleftrightarrow>
     distinct (map ck_KeyID ds) \<and> set (map ck_KeyID ds) \<inter> set seen = {} \<and>
     (\<forall>d\<in>set ds. ck_NotBefore d < ck_NotAfter d \<and> hasPrefix (ck_KeyID d) ''hmac-sha256:'' \<and>
        lowerHex64 (trimPrefix (ck_KeyID d) ''hmac-sha256:'') \<and> purpose_ok d)"
  by (induction seen ds rule: commitment_loop.induct) auto

lemma eligible_sum_iff: "eligible_sum x \<longleftrightarrow> (\<exists>a. x = Inr a)"
  by (cases x) (auto simp: eligible_sum_def)

lemma SigningKeyAt_Inr:
  "SigningKeyAt keyset use at = Inr k \<longleftrightarrow>
     (\<exists>keys. parseOnlineKeys (lookup keyset ''keys'') = Some keys \<and>
        filter (\<lambda>key. ok_Use key = use \<and> ok_State key = ''SIGN'' \<and> \<not> at < ok_NotBefore key \<and> at < ok_NotAfter key) keys = [k])"
  by (auto simp: SigningKeyAt_def sole_Some_iff [symmetric] split: option.splits)

definition keyset_window :: "object \<Rightarrow> time \<Rightarrow> time \<Rightarrow> time \<Rightarrow> bool" where
  "keyset_window obj now issued expires \<longleftrightarrow>
     parseWireTime (objectString obj ''issued_at'') = Some issued \<and>
     parseWireTime (objectString obj ''expires_at'') = Some expires \<and>
     issued < expires \<and> expires - issued \<le> 24 * hour \<and> (now = zero_time \<or> issued \<le> now \<and> now < expires)"

definition online_keys_ok :: "object \<Rightarrow> time \<Rightarrow> OnlineKey list \<Rightarrow> bool" where
  "online_keys_ok obj issued keys \<longleftrightarrow>
     parseOnlineKeys (lookup obj ''keys'') = Some keys \<and>
     2 \<le> length keys \<and> length keys \<le> 4 \<and> onlineKeysOrdered keys \<and> distinct (map ok_KeyID keys) \<and>
     (\<forall>k\<in>set keys. (ok_Use k = ''A9_CONTROL'' \<or> ok_Use k = ''SERVICE_AUTH'') \<and> (ok_State k = ''SIGN'' \<or> ok_State k = ''VERIFY_ONLY'') \<and>
        ok_NotBefore k < ok_NotAfter k \<and> Ed25519KeyID (ok_PublicKey k) = Some (ok_KeyID k)) \<and>
     (\<forall>use\<in>{''A9_CONTROL'', ''SERVICE_AUTH''}. sign_count use keys = 1 \<and> (\<exists>k. SigningKeyAt obj use issued = Inr k))"

definition commitment_keys_ok :: "object \<Rightarrow> CommitmentKey list \<Rightarrow> bool" where
  "commitment_keys_ok obj ds \<longleftrightarrow>
     parseCommitmentKeys (lookup obj ''commitment_keys'') = Some ds \<and>
     3 \<le> length ds \<and> length ds \<le> 6 \<and> commitmentKeysOrdered ds \<and> distinct (map ck_KeyID ds) \<and>
     (\<forall>d\<in>set ds. ck_NotBefore d < ck_NotAfter d \<and> hasPrefix (ck_KeyID d) ''hmac-sha256:'' \<and>
        lowerHex64 (trimPrefix (ck_KeyID d) ''hmac-sha256:'') \<and> purpose_ok d) \<and>
     (\<forall>purpose\<in>{''ROSTER'', ''TOPIC'', ''TUPLE''}. 1 \<le> purpose_count purpose ds \<and> purpose_count purpose ds \<le> 2)"

definition keyset_header_ok :: "object \<Rightarrow> bytes \<Rightarrow> bytes \<Rightarrow> bytes \<Rightarrow> bool" where
  "keyset_header_ok obj root rootID environment \<longleftrightarrow>
     objectString obj ''protocol'' = ''hytch.a9-bridge-keyset'' \<and> objectIntegerEquals obj ''schema_version'' 1 \<and>
     objectString obj ''environment'' = environment \<and> objectString obj ''root_signature_algorithm'' = ''Ed25519'' \<and>
     Ed25519KeyID root = Some rootID \<and> objectString obj ''root_signing_key_id'' = rootID"

lemma time_sub_day: "time_sub a b > 24 * hour \<longleftrightarrow> a - b > 24 * hour"
  using time_sub_le [of "24 * hour" a b] by (simp add: duration_defs not_le [symmetric])

lemma ValidateKeyset_iff:
  "IsEligible (ValidateKeyset verify obj root rootID environment now) \<longleftrightarrow>
     keyset_header_ok obj root rootID environment \<and>
     (\<exists>issued expires keys ds. keyset_window obj now issued expires \<and>
        eligible_sum (positiveInteger (lookup obj ''keyset_sequence'')) \<and>
        online_keys_ok obj issued keys \<and> commitment_keys_ok obj ds \<and>
        VerifyObject verify obj ''root_signature_base64url'' KeysetSignatureDomain root = Eligible)"
proof -
  have online: "online_keys_ok obj issued keys \<longleftrightarrow> parseOnlineKeys (lookup obj ''keys'') = Some keys \<and>
      \<not> (length keys < 2 \<or> 4 < length keys \<or> \<not> onlineKeysOrdered keys) \<and> online_loop [] keys \<and>
      \<not> (sign_count ''A9_CONTROL'' keys \<noteq> 1 \<or> sign_count ''SERVICE_AUTH'' keys \<noteq> 1) \<and>
      list_all (\<lambda>use. eligible_sum (SigningKeyAt obj use issued)) [''A9_CONTROL'', ''SERVICE_AUTH'']" for issued keys
    by (simp add: online_keys_ok_def online_loop_iff eligible_sum_iff not_less) blast
  have commitments: "commitment_keys_ok obj ds \<longleftrightarrow> parseCommitmentKeys (lookup obj ''commitment_keys'') = Some ds \<and>
      \<not> (length ds < 3 \<or> 6 < length ds \<or> \<not> commitmentKeysOrdered ds) \<and> commitment_loop [] ds \<and>
      \<not> list_ex (\<lambda>purpose. purpose_count purpose ds < 1 \<or> 2 < purpose_count purpose ds) [''ROSTER'', ''TOPIC'', ''TUPLE'']" for ds
    by (simp add: commitment_keys_ok_def commitment_loop_iff not_less Suc_le_eq)
  have window: "keyset_window obj now issued expires \<longleftrightarrow>
      parseWireTime (objectString obj ''issued_at'') = Some issued \<and> parseWireTime (objectString obj ''expires_at'') = Some expires \<and>
      \<not> (\<not> expires > issued \<or> time_sub expires issued > 24 * hour \<or> (now \<noteq> zero_time \<and> (now < issued \<or> \<not> now < expires)))"
    for issued expires
    unfolding keyset_window_def time_sub_day by (simp only: not_less not_le de_Morgan_disj de_Morgan_conj not_not)
  show ?thesis
    unfolding ValidateKeyset_def online commitments window keyset_header_ok_def
    by (simp only: guard_iff IsEligible_simps VerifyObject_eligible simp_thms de_Morgan_disj conj_assoc)
      (simp only: ex_simps(2))
qed

section \<open>What a rotation keeps\<close>

text \<open>The online keys of a keyset, as the validation of a single keyset leaves them.\<close>

definition keys_listed :: "object \<Rightarrow> OnlineKey list \<Rightarrow> bool" where
  "keys_listed obj keys \<longleftrightarrow>
     parseOnlineKeys (lookup obj ''keys'') = Some keys \<and> distinct (map ok_KeyID keys) \<and>
     (\<forall>k\<in>set keys. (ok_Use k = ''A9_CONTROL'' \<or> ok_Use k = ''SERVICE_AUTH'') \<and> (ok_State k = ''SIGN'' \<or> ok_State k = ''VERIFY_ONLY'') \<and>
        ok_KeyID k \<noteq> [])"

lemma Ed25519KeyID_not_Nil: "Ed25519KeyID pk \<noteq> Some []"
  by (simp add: Ed25519KeyID_def)

lemma keys_listed_accepted: "online_keys_ok obj issued keys \<Longrightarrow> keys_listed obj keys"
  using Ed25519KeyID_not_Nil by (fastforce simp: online_keys_ok_def keys_listed_def)

text \<open>Two keysets publish a key alike when they verify the same signatures under its identifier.\<close>

lemma same_material_verifies:
  assumes "keys_listed a as" and "keys_listed b bs" and "k \<in> set as" and "l \<in> set bs"
    and "ok_Use l = ok_Use k" and "sameOnlineKeyMaterial k l"
  shows "OnlineKeyAt b (ok_KeyID k) (ok_Use k) at = OnlineKeyAt a (ok_KeyID k) (ok_Use k) at"
proof -
  have "OnlineKeyAt a (ok_KeyID k) (ok_Use k) at =
      (if ok_NotBefore k \<le> at \<and> at < ok_NotAfter k then Inr (ok_PublicKey k) else Inl (Invalid ''KEY_STATE''))"
    using assms(1,3) by (intro OnlineKeyAt_member) (simp_all add: keys_listed_def)
  moreover have "OnlineKeyAt b (ok_KeyID l) (ok_Use l) at =
      (if ok_NotBefore l \<le> at \<and> at < ok_NotAfter l then Inr (ok_PublicKey l) else Inl (Invalid ''KEY_STATE''))"
    using assms(2,4) by (intro OnlineKeyAt_member) (simp_all add: keys_listed_def)
  ultimately show ?thesis
    using assms(5,6) by (simp add: sameOnlineKeyMaterial_def)
qed

definition same_material_in :: "OnlineKey list \<Rightarrow> OnlineKey \<Rightarrow> bool" where
  "same_material_in keys k \<longleftrightarrow> (\<exists>l\<in>set keys. ok_Use l = ok_Use k \<and> sameOnlineKeyMaterial k l)"

lemma sameOnlineKeyMaterial_sym: "sameOnlineKeyMaterial a b \<longleftrightarrow> sameOnlineKeyMaterial b a"
  by (auto simp: sameOnlineKeyMaterial_def)

lemma continuity_keeps:
  assumes "IsEligible (validateVerifyOnlyContinuity before after use t c promoted retired)"
    and "k \<in> set before" and "ok_Use k = use" and "ok_State k = ''VERIFY_ONLY''" and "ok_KeyID k \<noteq> promoted"
    and "c < ok_NotAfter k"
  shows "same_material_in after k"
proof -
  have "before_key_ok after use t c promoted k"
    using assms(1,2) by (simp add: validateVerifyOnlyContinuity_def list_all_iff split: if_splits)
  then obtain l where "onlineKeyByID after use (ok_KeyID k) = Some l" and "sameOnlineKeyMaterial k l"
    using assms(3-6) by (auto simp: before_key_ok_def split: if_splits option.splits)
  moreover from this(1) have "l \<in> set after \<and> ok_Use l = use"
    by (auto simp: onlineKeyByID_def dest: sole_Some)
  ultimately show ?thesis
    using assms(3) by (auto simp: same_material_in_def)
qed

lemma rotation_same_key:
  assumes "IsEligible (validateOnlineRotationForUse before after use t c)"
    and "soleSigningKeyForUse before use = Some old" and "soleSigningKeyForUse after use = Some new"
    and "ok_KeyID old = ok_KeyID new"
  shows "sameOnlineKeyMaterial old new" and "IsEligible (validateVerifyOnlyContinuity before after use t c [] [])"
  using assms by (simp_all add: validateOnlineRotationForUse_def split: if_splits)

lemma rotation_new_key:
  assumes "IsEligible (validateOnlineRotationForUse before after use t c)"
    and "soleSigningKeyForUse before use = Some old" and "soleSigningKeyForUse after use = Some new"
    and "ok_KeyID old \<noteq> ok_KeyID new"
  obtains staged oldVerify where "findOnlineKey before use (ok_KeyID old) (ok_KeyID new) = Some staged"
    "findOnlineKey after use (ok_KeyID new) (ok_KeyID old) = Some oldVerify"
    "sameOnlineKeyMaterial staged new" "sameOnlineKeyMaterial old oldVerify"
    "\<not> time_sub (ok_NotBefore staged) t < 24 * hour" "ok_NotBefore staged \<le> c" "c + retention use \<le> ok_NotAfter oldVerify"
    "IsEligible (validateVerifyOnlyContinuity before after use t c (ok_KeyID staged) (ok_KeyID oldVerify))"
  using assms by (auto simp: validateOnlineRotationForUse_def split: if_splits option.splits)

lemma rotation_sole_keys:
  assumes "IsEligible (validateOnlineRotationForUse before after use t c)"
  obtains old new where "soleSigningKeyForUse before use = Some old" "soleSigningKeyForUse after use = Some new"
  using assms by (auto simp: validateOnlineRotationForUse_def split: option.splits)

lemma soleSigningKey_member:
  "soleSigningKeyForUse keys use = Some k \<Longrightarrow> k \<in> set keys \<and> ok_Use k = use \<and> ok_State k = ''SIGN'' \<and>
     (\<forall>l\<in>set keys. ok_Use l = use \<longrightarrow> ok_State l = ''SIGN'' \<longrightarrow> l = k)"
  by (auto simp: soleSigningKeyForUse_def dest: sole_Some)

lemma findOnlineKey_member:
  "findOnlineKey keys use x keyID = Some k \<Longrightarrow> k \<in> set keys \<and> ok_Use k = use \<and> ok_KeyID k = keyID"
  by (auto simp: findOnlineKey_def dest: sole_Some)

lemma rotation_publishes:
  assumes e: "IsEligible (validateOnlineRotationForUse before after use t c)" and "distinct (map ok_KeyID before)"
  shows "\<And>k. k \<in> set before \<Longrightarrow> ok_Use k = use \<Longrightarrow> ok_KeyID k \<noteq> [] \<Longrightarrow>
       ok_State k = ''SIGN'' \<or> ok_State k = ''VERIFY_ONLY'' \<and> c < ok_NotAfter k \<Longrightarrow> same_material_in after k"
    and "\<And>k. k \<in> set after \<Longrightarrow> ok_Use k = use \<Longrightarrow> ok_State k = ''SIGN'' \<Longrightarrow> same_material_in before k"
proof -
  obtain old new where o: "soleSigningKeyForUse before use = Some old" and n: "soleSigningKeyForUse after use = Some new"
    using e by (rule rotation_sole_keys)
  note om = soleSigningKey_member [OF o] and nm = soleSigningKey_member [OF n]
  have keep: "same_material_in after old \<and> same_material_in before new \<and>
      (\<forall>k\<in>set before. ok_Use k = use \<longrightarrow> ok_KeyID k \<noteq> [] \<longrightarrow> ok_State k = ''VERIFY_ONLY'' \<longrightarrow> c < ok_NotAfter k \<longrightarrow> same_material_in after k)"
  proof (cases "ok_KeyID old = ok_KeyID new")
    case True
    note same = rotation_same_key [OF e o n True]
    show ?thesis
      using same(1) om nm continuity_keeps [OF same(2)] sameOnlineKeyMaterial_sym [of old new]
      by (auto simp: same_material_in_def)
  next
    case False
    obtain staged oldVerify where s: "findOnlineKey before use (ok_KeyID old) (ok_KeyID new) = Some staged"
      and v: "findOnlineKey after use (ok_KeyID new) (ok_KeyID old) = Some oldVerify"
      and m: "sameOnlineKeyMaterial staged new" "sameOnlineKeyMaterial old oldVerify"
      and cont: "IsEligible (validateVerifyOnlyContinuity before after use t c (ok_KeyID staged) (ok_KeyID oldVerify))"
      using e o n False by (rule rotation_new_key)
    note sm = findOnlineKey_member [OF s] and vm = findOnlineKey_member [OF v]
    have "same_material_in after k" if "k \<in> set before" "ok_Use k = use" "ok_State k = ''VERIFY_ONLY''" "c < ok_NotAfter k" for k
    proof (cases "ok_KeyID k = ok_KeyID staged")
      case True
      then have "k = staged"
        using assms(2) that(1) sm by (blast intro: distinct_key)
      then show ?thesis
        using m(1) sm nm by (auto simp: same_material_in_def)
    qed (use continuity_keeps [OF cont] that in blast)
    moreover have "same_material_in after old" "same_material_in before new"
      using m om nm sm vm sameOnlineKeyMaterial_sym by (auto simp: same_material_in_def)
    ultimately show ?thesis
      by blast
  qed
  show "\<And>k. k \<in> set before \<Longrightarrow> ok_Use k = use \<Longrightarrow> ok_KeyID k \<noteq> [] \<Longrightarrow>
       ok_State k = ''SIGN'' \<or> ok_State k = ''VERIFY_ONLY'' \<and> c < ok_NotAfter k \<Longrightarrow> same_material_in after k"
    using keep om by blast
  show "\<And>k. k \<in> set after \<Longrightarrow> ok_Use k = use \<Longrightarrow> ok_State k = ''SIGN'' \<Longrightarrow> same_material_in before k"
    using keep nm by blast
qed

lemma ValidateOnlineRotation_iff:
  "IsEligible (ValidateOnlineRotation transition cutover) \<longleftrightarrow>
     (\<exists>m n t c before after.
        positiveInteger (lookup transition ''keyset_sequence'') = Inr m \<and> positiveInteger (lookup cutover ''keyset_sequence'') = Inr n \<and>
        m < n \<and> parseWireTime (objectString transition ''issued_at'') = Some t \<and>
        parseWireTime (objectString cutover ''issued_at'') = Some c \<and> t \<le> c \<and>
        parseOnlineKeys (lookup transition ''keys'') = Some before \<and> parseOnlineKeys (lookup cutover ''keys'') = Some after \<and>
        (\<forall>use\<in>{''A9_CONTROL'', ''SERVICE_AUTH''}. IsEligible (validateOnlineRotationForUse before after use t c)))"
proof -
  have two: "IsEligible (let v = validateOnlineRotationForUse before after ''A9_CONTROL'' t c in if \<not> IsEligible v then v
        else let w = validateOnlineRotationForUse before after ''SERVICE_AUTH'' t c in if \<not> IsEligible w then w else Eligible) \<longleftrightarrow>
      (\<forall>use\<in>{''A9_CONTROL'', ''SERVICE_AUTH''}. IsEligible (validateOnlineRotationForUse before after use t c))" for before after t c
    by (simp add: Let_def)
  show ?thesis
    unfolding ValidateOnlineRotation_def two
    by (simp only: guard_iff IsEligible_simps simp_thms not_le not_less two) blast
qed

section \<open>What a topic-key schedule provides\<close>

lemma schedule_loop_current:
  "schedule_loop e c a ds = Some (c', a') \<Longrightarrow>
     (case c of
        Some _ \<Rightarrow> c' = c \<and> filter (\<lambda>d. ck_TopicKeyEpoch d = Some e) ds = []
      | None \<Rightarrow> filter (\<lambda>d. ck_TopicKeyEpoch d = Some e) ds = (case c' of None \<Rightarrow> [] | Some d \<Rightarrow> [d]))"
  by (induction e c a ds rule: schedule_loop.induct) (auto split: option.splits if_splits)

lemma schedule_loop_adjacent:
  "schedule_loop e c a ds = Some (c', a') \<Longrightarrow> (a \<noteq> None \<longrightarrow> a' = a) \<and>
     (\<forall>d\<in>set ds. ck_TopicKeyEpoch d \<noteq> Some e \<longrightarrow> a' = Some d)"
  by (induction e c a ds rule: schedule_loop.induct) (auto split: option.splits if_splits)

lemma ValidateTopicKeySchedule_cases:
  assumes "IsEligible (ValidateTopicKeySchedule keyset)"
  obtains issued ds current adjacent where
    "parseWireTime (objectString keyset ''issued_at'') = Some issued"
    "parseCommitmentKeys (lookup keyset ''commitment_keys'') = Some ds"
    "schedule_loop (TopicEpoch issued) None None (filter (\<lambda>d. ck_Purpose d = ''TOPIC'') ds) = Some (Some current, adjacent)"
    "ck_NotBefore current \<le> issued" "issued < ck_NotAfter current"
    "\<And>a. adjacent = Some a \<Longrightarrow> adjacent_ok issued (TopicEpoch issued) current a"
  using assms by (fastforce simp: ValidateTopicKeySchedule_def Let_def not_less split: option.splits if_splits)

lemma schedule_issues:
  assumes "IsEligible (ValidateTopicKeySchedule keyset)" and "parseWireTime (objectString keyset ''issued_at'') = Some issued"
    and "parseCommitmentKeys (lookup keyset ''commitment_keys'') = Some ds"
  obtains key where "CommitmentKeyAt keyset ''TOPIC'' (Some (TopicEpoch issued)) issued True = Inr key"
    "\<And>d. d \<in> set ds \<Longrightarrow> ck_Purpose d = ''TOPIC'' \<Longrightarrow> ck_TopicKeyEpoch d = Some (TopicEpoch issued + 1) \<Longrightarrow>
       ck_NotBefore d = TopicEpochBoundary (TopicEpoch issued + 1) \<and>
       TopicEpochBoundary (TopicEpoch issued + 1) + 60 * second \<le> ck_NotAfter key"
proof -
  let ?e = "TopicEpoch issued" and ?topic = "filter (\<lambda>d. ck_Purpose d = ''TOPIC'') ds"
  obtain current adjacent where loop: "schedule_loop ?e None None ?topic = Some (Some current, adjacent)"
    and cur: "ck_NotBefore current \<le> issued" "issued < ck_NotAfter current"
    and adj: "\<And>a. adjacent = Some a \<Longrightarrow> adjacent_ok issued ?e current a"
    using ValidateTopicKeySchedule_cases [OF assms(1)] assms(2,3) by (metis option.inject)
  have one: "filter (\<lambda>d. ck_TopicKeyEpoch d = Some ?e) ?topic = [current]"
    using schedule_loop_current [OF loop] by simp
  have "commitment_at ''TOPIC'' (Some ?e) issued True d \<longleftrightarrow>
      ck_Purpose d = ''TOPIC'' \<and> ck_TopicKeyEpoch d = Some ?e \<and> ck_NotBefore d \<le> issued \<and> issued < ck_NotAfter d" for d
    by (auto simp: commitment_at_def sameEpoch_def TopicEpochUsable_def split: option.splits)
  then have "filter (commitment_at ''TOPIC'' (Some ?e) issued True) ds =
      filter (\<lambda>d. ck_NotBefore d \<le> issued \<and> issued < ck_NotAfter d) (filter (\<lambda>d. ck_TopicKeyEpoch d = Some ?e) ?topic)"
    by (auto intro: filter_cong)
  then have "filter (commitment_at ''TOPIC'' (Some ?e) issued True) ds = [current]"
    by (simp only: one) (simp add: cur)
  then have "CommitmentKeyAt keyset ''TOPIC'' (Some ?e) issued True = Inr current"
    using assms(3) by (simp add: CommitmentKeyAt_def)
  moreover have "ck_NotBefore d = TopicEpochBoundary (?e + 1) \<and> TopicEpochBoundary (?e + 1) + 60 * second \<le> ck_NotAfter current"
    if "d \<in> set ds" "ck_Purpose d = ''TOPIC''" "ck_TopicKeyEpoch d = Some (?e + 1)" for d
  proof -
    have "adjacent = Some d"
      using schedule_loop_adjacent [OF loop] that by simp
    then show ?thesis
      using adj that(3) by (auto simp: adjacent_ok_def Let_def)
  qed
  ultimately show thesis
    using that by blast
qed

section \<open>Properties\<close>

text \<open>
  C29. A keyset is accepted exactly when it is signed by the pinned root over its canonical text, names the
  protocol, schema, environment and root, is valid now for at most a day, lists between two and four distinct,
  ordered and self-identifying online keys with exactly one usable signing key per use, and lists one or two
  well-formed commitment keys per purpose.
\<close>

theorem ValidateKeyset_accepts:
  "IsEligible (ValidateKeyset verify obj root rootID environment now) \<longleftrightarrow>
     keyset_header_ok obj root rootID environment \<and>
     (\<exists>issued expires keys ds sig text. keyset_window obj now issued expires \<and>
        (\<exists>n. positiveInteger (lookup obj ''keyset_sequence'') = Inr n) \<and>
        online_keys_ok obj issued keys \<and> commitment_keys_ok obj ds \<and>
        lookup obj ''root_signature_base64url'' = AString (EncodeBase64URL sig) \<and> length sig = 64 \<and> length root = 32 \<and>
        Canonicalize (AMap (without_field ''root_signature_base64url'' obj)) = Inr text \<and>
        verify root (KeysetSignatureDomain @ text) sig)"
  unfolding ValidateKeyset_iff VerifyObject_iff eligible_sum_iff by blast

text \<open>Two keysets, the second of which promotes the control key that the first one staged.\<close>

definition online_item :: "OnlineKey \<Rightarrow> any" where
  "online_item k = AMap
     [(''key_id'', AString (ok_KeyID k)), (''use'', AString (ok_Use k)),
      (''public_key_base64url'', AString (EncodeBase64URL (ok_PublicKey k))),
      (''not_before'', AString (format_wire (ok_NotBefore k))), (''not_after'', AString (format_wire (ok_NotAfter k))),
      (''state'', AString (ok_State k))]"

lemma parse_online_item:
  assumes "length (ok_PublicKey k) = 32" and "parseWireTime (format_wire (ok_NotBefore k)) = Some (ok_NotBefore k)"
    and "parseWireTime (format_wire (ok_NotAfter k)) = Some (ok_NotAfter k)"
  shows "parseOnlineKey (online_item k) = Some k"
  using assms by (simp add: parseOnlineKey_def online_item_def objectString_def lookup_def DecodeBase64URL_Encode)

definition example_key :: "bytes \<Rightarrow> bytes \<Rightarrow> bytes \<Rightarrow> int \<Rightarrow> int \<Rightarrow> OnlineKey" where
  "example_key keyID use state notBefore notAfter =
     \<lparr>ok_KeyID = keyID, ok_Use = use, ok_PublicKey = replicate 32 (CHR ''k''), ok_NotBefore = example_day notBefore,
      ok_NotAfter = example_day notAfter, ok_State = state\<rparr>"

definition example_keyset :: "nat \<Rightarrow> int \<Rightarrow> OnlineKey list \<Rightarrow> object" where
  "example_keyset seqno issued keys =
     [(''keyset_sequence'', AUint64 (word_of_nat seqno)), (''issued_at'', AString (format_wire (example_day issued))),
      (''keys'', AArray (map online_item keys))]"

definition transition_keys :: "OnlineKey list" where
  "transition_keys = [example_key ''new'' ''A9_CONTROL'' ''VERIFY_ONLY'' 3 9, example_key ''old'' ''A9_CONTROL'' ''SIGN'' 1 5,
     example_key ''auth'' ''SERVICE_AUTH'' ''SIGN'' 1 9]"

definition cutover_keys :: "OnlineKey list" where
  "cutover_keys = [example_key ''new'' ''A9_CONTROL'' ''SIGN'' 3 9, example_key ''old'' ''A9_CONTROL'' ''VERIFY_ONLY'' 1 5,
     example_key ''auth'' ''SERVICE_AUTH'' ''SIGN'' 1 9]"

lemma example_key_parsed:
  "1 \<le> a \<Longrightarrow> a \<le> 31 \<Longrightarrow> 1 \<le> b \<Longrightarrow> b \<le> 31 \<Longrightarrow> parseOnlineKey (online_item (example_key i u s a b)) = Some (example_key i u s a b)"
  by (rule parse_online_item) (simp_all add: example_key_def parse_example_day)

lemma example_keys_listed: "keys_listed (example_keyset n d transition_keys) transition_keys" "keys_listed (example_keyset n d cutover_keys) cutover_keys"
  by (simp_all add: keys_listed_def example_keyset_def transition_keys_def cutover_keys_def lookup_def parseOnlineKeys_def example_key_parsed)
    (simp_all add: example_key_def)

lemma example_rotation:
  "IsEligible (ValidateOnlineRotation (example_keyset 1 1 transition_keys) (example_keyset 2 4 cutover_keys))"
proof -
  note day = example_day_shift [of 3] example_day_shift [of 4] example_day_shift [of 5] example_day_shift [of 9]
  have gap: "\<not> time_sub (example_day 3) (example_day 1) < 24 * hour"
    by (simp add: day time_sub_def duration_defs)
  have "IsEligible (validateOnlineRotationForUse transition_keys cutover_keys ''A9_CONTROL'' (example_day 1) (example_day 4))"
    using gap
    by (simp add: validateOnlineRotationForUse_def transition_keys_def cutover_keys_def example_key_def soleSigningKeyForUse_def sole_def
        findOnlineKey_def sameOnlineKeyMaterial_def retention_def validateVerifyOnlyContinuity_def before_key_ok_def after_key_ok_def)
      (simp add: day duration_defs)
  moreover have "IsEligible (validateOnlineRotationForUse transition_keys cutover_keys ''SERVICE_AUTH'' (example_day 1) (example_day 4))"
    by (simp add: validateOnlineRotationForUse_def transition_keys_def cutover_keys_def example_key_def soleSigningKeyForUse_def sole_def
        sameOnlineKeyMaterial_def validateVerifyOnlyContinuity_def before_key_ok_def after_key_ok_def)
  moreover have "example_day 1 \<le> example_day 4"
    by (simp add: day duration_defs)
  ultimately show ?thesis
    using example_keys_listed [of 1 1] example_keys_listed [of 2 4]
    by (simp add: ValidateOnlineRotation_iff keys_listed_def)
      (simp add: example_keyset_def lookup_def objectString_def positiveInteger_def parse_example_day maxIJSONInteger_def)
qed

text \<open>
  C28. A rotation of online keys strands no signature. Whenever a cutover keyset is accepted after a transition
  keyset, every key that signed before, and every verification key that has not expired at the cutover,
  verifies at every instant under the cutover exactly what it verified before; and the key that signs after the
  cutover was already known to the holders of the transition keyset, with the same public key and validity.
\<close>

theorem rotation_keeps_verifying:
  assumes "IsEligible (ValidateOnlineRotation transition cutover)"
    and "keys_listed transition before" and "keys_listed cutover after"
    and "parseWireTime (objectString cutover ''issued_at'') = Some c"
  shows "(\<forall>at. \<forall>k\<in>set before. ok_State k = ''SIGN'' \<or> c < ok_NotAfter k \<longrightarrow>
           OnlineKeyAt cutover (ok_KeyID k) (ok_Use k) at = OnlineKeyAt transition (ok_KeyID k) (ok_Use k) at) \<and>
         (\<forall>at. \<forall>k\<in>set after. ok_State k = ''SIGN'' \<longrightarrow>
           OnlineKeyAt transition (ok_KeyID k) (ok_Use k) at = OnlineKeyAt cutover (ok_KeyID k) (ok_Use k) at)"
proof -
  obtain t where r: "\<And>use. use \<in> {''A9_CONTROL'', ''SERVICE_AUTH''} \<Longrightarrow> IsEligible (validateOnlineRotationForUse before after use t c)"
    using assms unfolding ValidateOnlineRotation_iff keys_listed_def by auto
  note pub = rotation_publishes [OF r]
  have "\<forall>at. \<forall>k\<in>set before. ok_State k = ''SIGN'' \<or> c < ok_NotAfter k \<longrightarrow>
      OnlineKeyAt cutover (ok_KeyID k) (ok_Use k) at = OnlineKeyAt transition (ok_KeyID k) (ok_Use k) at"
  proof (intro allI ballI impI)
    fix at k
    assume k: "k \<in> set before" "ok_State k = ''SIGN'' \<or> c < ok_NotAfter k"
    then have "same_material_in after k"
      using assms(2) by (intro pub(1)) (auto simp: keys_listed_def)
    then show "OnlineKeyAt cutover (ok_KeyID k) (ok_Use k) at = OnlineKeyAt transition (ok_KeyID k) (ok_Use k) at"
      using same_material_verifies [OF assms(2,3) k(1)] by (auto simp: same_material_in_def)
  qed
  moreover have "\<forall>at. \<forall>k\<in>set after. ok_State k = ''SIGN'' \<longrightarrow>
      OnlineKeyAt transition (ok_KeyID k) (ok_Use k) at = OnlineKeyAt cutover (ok_KeyID k) (ok_Use k) at"
  proof (intro allI ballI impI)
    fix at k
    assume k: "k \<in> set after" "ok_State k = ''SIGN''"
    then have "same_material_in before k"
      using assms(2,3) by (intro pub(2)) (auto simp: keys_listed_def)
    then show "OnlineKeyAt transition (ok_KeyID k) (ok_Use k) at = OnlineKeyAt cutover (ok_KeyID k) (ok_Use k) at"
      using same_material_verifies [OF assms(3,2) k(1)] by (auto simp: same_material_in_def)
  qed
  ultimately show ?thesis
    by blast
qed

theorem rotation_keeps_verifying_witness:
  "IsEligible (ValidateOnlineRotation (example_keyset 1 1 transition_keys) (example_keyset 2 4 cutover_keys)) \<and>
   OnlineKeyAt (example_keyset 2 4 cutover_keys) ''old'' ''A9_CONTROL'' (example_day 4) =
     OnlineKeyAt (example_keyset 1 1 transition_keys) ''old'' ''A9_CONTROL'' (example_day 4) \<and>
   OnlineKeyAt (example_keyset 1 1 transition_keys) ''new'' ''A9_CONTROL'' (example_day 4) =
     OnlineKeyAt (example_keyset 2 4 cutover_keys) ''new'' ''A9_CONTROL'' (example_day 4)"
proof -
  have c: "parseWireTime (objectString (example_keyset 2 4 cutover_keys) ''issued_at'') = Some (example_day 4)"
    by (simp add: example_keyset_def objectString_def lookup_def parse_example_day)
  show ?thesis
    using rotation_keeps_verifying [OF example_rotation example_keys_listed c] example_rotation
    by (simp add: transition_keys_def cutover_keys_def example_key_def)
qed


definition example_topic_keyset :: object where
  "example_topic_keyset =
     [(''issued_at'', AString (format_wire (example_day 1))),
      (''commitment_keys'', AArray [AMap
        [(''purpose'', AString ''TOPIC''), (''key_id'', AString ''hmac''), (''topic_key_epoch'', AUint32 681),
         (''not_before'', AString (format_wire (example_day 1))), (''not_after'', AString (format_wire (example_day 9)))]])]"


end
