(* ===== verification/Trust_Topic_Keys.thy ===== *)
theory Trust_Topic_Keys
  imports Trust_Keyset
begin

text \<open>
  The locally provisioned trust material: \<open>pkg/a9trust/config.go\<close>. The theory holds the pin of the
  root key, the reader of the topic-key document with the redaction that runs before it is parsed, and the
  set of topic-commitment secrets with its erasure deadlines, in the order of the code. A locked section
  takes the wall reading \<open>now\<close> it is given and reads the steady clock as \<open>steady 0\<close>, \<open>steady 1\<close>, and so on;
  a pending timer is its delay. The theory shows that redaction leaves no secret in the text, that a secret
  whose deadline passed on either clock is never used again, even when the wall clock goes back, and what a
  reconciled set agrees on with the signed keyset.
\<close>

section \<open>The root pin\<close>

record RootPin =
  rp_KeyID :: bytes
  rp_PublicKey :: bytes

definition ParseRootPin :: "bytes \<Rightarrow> bytes \<Rightarrow> RootPin option" where
  "ParseRootPin publicKeyBase64URL keyID =
     (case DecodeBase64URL publicKeyBase64URL 32 of
        None \<Rightarrow> None
      | Some publicKey \<Rightarrow>
          if Ed25519KeyID publicKey \<noteq> Some keyID then None
          else Some \<lparr>rp_KeyID = keyID, rp_PublicKey = publicKey\<rparr>)"

section \<open>The state of a set of topic keys\<close>

record TopicKeyDescriptor =
  td_KeyID :: bytes
  td_TopicKeyEpoch :: uint32
  td_NotBefore :: time
  td_NotAfter :: time

record TopicBindingCandidate =
  tb_TopicKeyEpoch :: uint32
  tb_TopicBinding :: bytes

record topicKeyRecord =
  tr_descriptor :: TopicKeyDescriptor
  tr_key :: bytes
  tr_retireAt :: time
  tr_hardRetireAt :: time

record TopicKeySet =
  ts_environment :: bytes
  ts_records :: "topicKeyRecord list"
  ts_retireEpoch :: uint32
  ts_retireAt :: time
  ts_retireTimer :: "duration option"
  ts_recheck :: duration
  ts_retired :: "TopicKeyDescriptor option"
  ts_closed :: bool

definition maxRetirementClockRecheck :: duration where
  "maxRetirementClockRecheck = second"

abbreviation tr_epoch :: "topicKeyRecord \<Rightarrow> uint32" where
  "tr_epoch r \<equiv> td_TopicKeyEpoch (tr_descriptor r)"

section \<open>Redaction of the document\<close>

text \<open>
  Reading the document either fails with the content-free error or, as indexing past a buffer does in Go,
  panics.
\<close>

datatype config_error = ErrConfiguration | PanicIndexOutOfRange

definition topicKeySecretField :: bytes where
  "topicKeySecretField = ''key_base64url''"

definition redactedTopicKeyBase64URL :: bytes where
  "redactedTopicKeyBase64URL = replicate 43 (CHR ''A'')"

text \<open>The contents of a string, whether it has an escape, and the text after it; the opening quote is already read.\<close>

fun jsonStringEnd :: "bytes \<Rightarrow> (bytes \<times> bool \<times> bytes) option" where
  "jsonStringEnd [] = None"
| "jsonStringEnd (c # s) =
     (if c = CHR 0x5C then
        (case s of
           [] \<Rightarrow> None
         | d # s' \<Rightarrow> (case jsonStringEnd s' of None \<Rightarrow> None | Some (v, _, rest) \<Rightarrow> Some (c # d # v, True, rest)))
      else if c = CHR 0x22 then Some ([], False, s)
      else (case jsonStringEnd s of None \<Rightarrow> None | Some (v, escaped, rest) \<Rightarrow> Some (c # v, escaped, rest)))"

fun skipJSONSpace :: "bytes \<Rightarrow> bytes" where
  "skipJSONSpace [] = []"
| "skipJSONSpace (c # s) =
     (if c = CHR '' '' \<or> c = CHR 0x09 \<or> c = CHR 0x0D \<or> c = CHR 0x0A then skipJSONSpace s else c # s)"

text \<open>
  The decoder writes into a buffer of 32 bytes. The encoding of 33 bytes has the length of the padded
  encoding of 32, and decoding it writes past the buffer.
\<close>

definition decodeTopicSecret :: "bytes \<Rightarrow> config_error + bytes option" where
  "decodeTopicSecret encoded =
     (if length encoded = length redactedTopicKeyBase64URL then
        (case b64_decode_strict encoded of
           None \<Rightarrow> Inr None
         | Some key \<Rightarrow> if length key \<noteq> 32 then Inr None else Inr (Some key))
      else if length encoded = length redactedTopicKeyBase64URL + 1 then
        (if list_all (\<lambda>c. b64_index c \<noteq> None) encoded then Inl PanicIndexOutOfRange
         else if last encoded \<noteq> CHR ''='' then Inr None
         else (case b64_decode_strict (butlast encoded) of
            None \<Rightarrow> Inr None
          | Some key \<Rightarrow> if length key \<noteq> 32 then Inr None else Inr (Some key)))
      else Inr None)"

definition topicSecretLike :: "bytes \<Rightarrow> config_error + bool" where
  "topicSecretLike encoded = (case decodeTopicSecret encoded of Inl e \<Rightarrow> Inl e | Inr k \<Rightarrow> Inr (k \<noteq> None))"

lemma jsonStringEnd_length: "jsonStringEnd s = Some (v, e, rest) \<Longrightarrow> length rest < length s"
  by (induction s arbitrary: v e rest rule: jsonStringEnd.induct) (fastforce split: if_splits list.splits option.splits)+

lemma skipJSONSpace_length: "length (skipJSONSpace s) \<le> length s"
  by (induction s) auto

text \<open>
  What stands after a string token: a member name is followed by a colon and its value, which may be a
  string; anything else is left to the scan. A string value comes with the text up to its contents.
\<close>

datatype after_token = PlainString | NameOnly | NameString bytes bytes

definition after_string :: "bytes \<Rightarrow> after_token" where
  "after_string rest =
     (case skipJSONSpace rest of
        [] \<Rightarrow> PlainString
      | c # s \<Rightarrow>
          if c \<noteq> CHR '':'' then PlainString
          else (case skipJSONSpace s of
             [] \<Rightarrow> NameOnly
           | d # s' \<Rightarrow> if d \<noteq> CHR 0x22 then NameOnly else NameString (take (length rest - length s') rest) s'))"

lemma after_string_length: "after_string rest = NameString gap s' \<Longrightarrow> length s' < length rest"
  using skipJSONSpace_length [of rest] skipJSONSpace_length [of "tl (skipJSONSpace rest)"]
  by (auto simp: after_string_def split: list.splits if_splits)

type_synonym redaction = "config_error + bytes \<times> bytes list"

definition copied :: "bytes \<Rightarrow> redaction \<Rightarrow> redaction" where
  "copied p r = (case r of Inl e \<Rightarrow> Inl e | Inr (out, keys) \<Rightarrow> Inr (p @ out, keys))"

definition extracted :: "bytes \<Rightarrow> redaction \<Rightarrow> redaction" where
  "extracted key r = (case r of Inl e \<Rightarrow> Inl e | Inr (out, keys) \<Rightarrow> Inr (out, key # keys))"

abbreviation quote :: char where
  "quote \<equiv> CHR 0x22"

text \<open>The scan; the number is that of keys found so far.\<close>

function redact_loop :: "nat \<Rightarrow> bytes \<Rightarrow> redaction" where
  "redact_loop found [] = Inr ([], [])"
| "redact_loop found (c # s) =
     (if c \<noteq> quote then copied [c] (redact_loop found s)
      else (case jsonStringEnd s of
         None \<Rightarrow> Inl ErrConfiguration
       | Some (token, escaped, rest) \<Rightarrow>
           if escaped then Inl ErrConfiguration
           else (case topicSecretLike token of
              Inl e \<Rightarrow> Inl e
            | Inr True \<Rightarrow> Inl ErrConfiguration
            | Inr False \<Rightarrow>
                (case after_string rest of
                   PlainString \<Rightarrow> copied (quote # token @ [quote]) (redact_loop found rest)
                 | NameOnly \<Rightarrow>
                     if token = topicKeySecretField then Inl ErrConfiguration
                     else copied (quote # token @ [quote]) (redact_loop found rest)
                 | NameString gap v \<Rightarrow>
                     (case jsonStringEnd v of
                        None \<Rightarrow> Inl ErrConfiguration
                      | Some (val, valEscaped, rest') \<Rightarrow>
                          if valEscaped then Inl ErrConfiguration
                          else (case decodeTopicSecret val of
                             Inl e \<Rightarrow> Inl e
                           | Inr k \<Rightarrow>
                               if token = topicKeySecretField \<and> k \<noteq> None \<and> length val = length redactedTopicKeyBase64URL then
                                 (if 2 < found + 1 then Inl ErrConfiguration
                                  else copied (quote # token @ [quote] @ gap @ redactedTopicKeyBase64URL @ [quote])
                                         (extracted (the k) (redact_loop (found + 1) rest')))
                               else if token = topicKeySecretField \<or> k \<noteq> None then Inl ErrConfiguration
                               else copied (quote # token @ [quote] @ gap @ val @ [quote]) (redact_loop found rest')))))))"
  by pat_completeness auto

termination
  by (relation "measure (\<lambda>(_, s). length s)") (fastforce dest!: jsonStringEnd_length after_string_length)+

definition extractAndRedactTopicKeys :: "bytes \<Rightarrow> config_error + bytes \<times> bytes list" where
  "extractAndRedactTopicKeys raw =
     (case redact_loop 0 raw of
        Inl e \<Rightarrow> Inl e
      | Inr (out, keys) \<Rightarrow> if keys = [] then Inl ErrConfiguration else Inr (out, keys))"

section \<open>Erasure deadlines\<close>

definition retirable :: "topicKeyRecord \<Rightarrow> bool" where
  "retirable r \<longleftrightarrow> tr_epoch r \<noteq> - 1"

definition initializeRetirementDeadlines :: "time \<Rightarrow> time \<Rightarrow> topicKeyRecord \<Rightarrow> topicKeyRecord" where
  "initializeRetirementDeadlines now steadyNow r =
     (if \<not> retirable r then r
      else
        let r1 = (if tr_retireAt r = zero_time
                  then r\<lparr>tr_retireAt := TopicEpochBoundary (tr_epoch r + 1) + 60 * second\<rparr> else r)
        in if tr_hardRetireAt r1 = zero_time
           then r1\<lparr>tr_hardRetireAt := steadyNow + max 0 (time_sub (tr_retireAt r1) now)\<rparr> else r1)"

definition retire_due :: "time \<Rightarrow> time \<Rightarrow> topicKeyRecord \<Rightarrow> bool" where
  "retire_due now steadyNow r \<longleftrightarrow> retirable r \<and> (\<not> now < tr_retireAt r \<or> \<not> steadyNow < tr_hardRetireAt r)"

text \<open>The record with the first deadline; the code's zero time for "none yet" is None.\<close>

definition earliest_step :: "topicKeyRecord \<Rightarrow> topicKeyRecord option \<Rightarrow> topicKeyRecord option" where
  "earliest_step r best =
     (if \<not> retirable r then best
      else (case best of None \<Rightarrow> Some r | Some b \<Rightarrow> if tr_retireAt r < tr_retireAt b then Some r else best))"

definition earliest :: "topicKeyRecord list \<Rightarrow> topicKeyRecord option" where
  "earliest records = fold earliest_step records None"

definition note_retired :: "time \<Rightarrow> time \<Rightarrow> topicKeyRecord \<Rightarrow> TopicKeyDescriptor option \<Rightarrow> TopicKeyDescriptor option" where
  "note_retired now steadyNow r retired =
     (if retire_due now steadyNow r \<and>
         (case retired of None \<Rightarrow> True | Some d \<Rightarrow> tr_epoch r > td_TopicKeyEpoch d)
      then Some (tr_descriptor r) else retired)"

definition recheck_delay :: "TopicKeySet \<Rightarrow> duration" where
  "recheck_delay s =
     (if ts_recheck s \<le> 0 \<or> ts_recheck s > maxRetirementClockRecheck then maxRetirementClockRecheck else ts_recheck s)"

lemma earliest_Some: "earliest records = Some r \<Longrightarrow> r \<in> set records \<and> retirable r"
proof -
  have "fold earliest_step rs best = Some r \<Longrightarrow> best = Some r \<or> r \<in> set rs \<and> retirable r" for rs best
    by (induction rs arbitrary: best) (fastforce simp: earliest_step_def split: if_splits option.splits)+
  then show "earliest records = Some r \<Longrightarrow> r \<in> set records \<and> retirable r"
    by (auto simp: earliest_def)
qed

text \<open>Scheduling the next erasure and erasing what is due call each other, each round with fewer secrets.\<close>

function scheduleRetirementLocked :: "(nat \<Rightarrow> time) \<Rightarrow> nat \<Rightarrow> time \<Rightarrow> TopicKeySet \<Rightarrow> TopicKeySet"
and eraseRetiredLockedAt :: "(nat \<Rightarrow> time) \<Rightarrow> nat \<Rightarrow> time \<Rightarrow> time \<Rightarrow> TopicKeySet \<Rightarrow> TopicKeySet" where
  "scheduleRetirementLocked steady i now s =
     (if ts_closed s \<or> ts_records s = [] then s
      else
        let records = map (initializeRetirementDeadlines now (steady i)) (ts_records s) in
        (case earliest records of
           None \<Rightarrow> s\<lparr>ts_records := records\<rparr>
         | Some r \<Rightarrow>
             let s1 = s\<lparr>ts_records := records, ts_retireEpoch := tr_epoch r, ts_retireAt := tr_retireAt r\<rparr> in
             if \<not> now < tr_retireAt r \<or> \<not> steady i < tr_hardRetireAt r
             then eraseRetiredLockedAt steady (i + 1) now (steady i) s1
             else s1\<lparr>ts_retireTimer :=
               Some (min (min (time_sub (tr_retireAt r) now) (time_sub (tr_hardRetireAt r) (steady i))) (recheck_delay s1))\<rparr>))"
| "eraseRetiredLockedAt steady i now steadyNow s =
     (if ts_closed s \<or> ts_records s = [] then s
      else if \<not> list_ex (retire_due now steadyNow) (ts_records s) then
        (if ts_retireTimer s = None then scheduleRetirementLocked steady i now s else s)
      else scheduleRetirementLocked steady i now
        (s\<lparr>ts_records := filter (\<lambda>r. \<not> retire_due now steadyNow r) (ts_records s),
           ts_retired := fold (note_retired now steadyNow) (ts_records s) (ts_retired s),
           ts_retireEpoch := 0, ts_retireAt := zero_time, ts_retireTimer := None\<rparr>))"
  by pat_completeness auto

termination
proof (relation "measures [\<lambda>x. case x of Inl (_, _, _, s) \<Rightarrow> length (ts_records s) | Inr (_, _, _, _, s) \<Rightarrow> length (ts_records s),
    \<lambda>x. case x of Inl _ \<Rightarrow> 1 | Inr (_, _, now, st, s) \<Rightarrow> if list_ex (retire_due now st) (ts_records s) then 0 else (2::nat)]", goal_cases)
  case (2 steady i now s records r s1)
  then show ?case
    using earliest_Some [of records r] by (auto simp: list_ex_iff retire_due_def)
next
  case (4 steady i now steadyNow s)
  then show ?case
    by (auto simp: list_ex_iff length_filter_less)
qed auto

definition eraseRetiredLocked :: "(nat \<Rightarrow> time) \<Rightarrow> time \<Rightarrow> TopicKeySet \<Rightarrow> TopicKeySet" where
  "eraseRetiredLocked steady now s =
     (if ts_closed s \<or> ts_records s = [] then s
      else eraseRetiredLockedAt (\<lambda>i. steady (Suc i)) 0 now (steady 0)
             (s\<lparr>ts_records := map (initializeRetirementDeadlines now (steady 0)) (ts_records s)\<rparr>))"

definition startRetirement :: "(nat \<Rightarrow> time) \<Rightarrow> time \<Rightarrow> TopicKeySet \<Rightarrow> TopicKeySet" where
  "startRetirement steady now s =
     (if ts_closed s \<or> ts_records s = [] then s else scheduleRetirementLocked steady 0 now s)"

text \<open>The timer runs the erasure again; a callback that lost the race with \<open>Stop\<close> does the same.\<close>

definition retire_timer_fires :: "(nat \<Rightarrow> time) \<Rightarrow> time \<Rightarrow> TopicKeySet \<Rightarrow> TopicKeySet" where
  "retire_timer_fires steady now s = eraseRetiredLocked steady now (s\<lparr>ts_retireTimer := None\<rparr>)"

section \<open>Reading the document\<close>

definition topicKeyRecordFields :: "bytes list" where
  "topicKeyRecordFields =
     [''environment'', ''purpose'', ''key_id'', ''topic_key_epoch'', ''key_base64url'', ''not_before'', ''not_after'']"

definition hasExactFields :: "object \<Rightarrow> bytes list \<Rightarrow> bool" where
  "hasExactFields obj names \<longleftrightarrow> length obj = length names \<and> list_all (\<lambda>(name, _). name \<in> set names) obj"

definition parseTopicKeyRecord :: "any \<Rightarrow> bytes \<Rightarrow> bytes \<Rightarrow> topicKeyRecord option" where
  "parseTopicKeyRecord item environment key =
     (if length key \<noteq> 32 then None
      else (case item of
         AMap obj \<Rightarrow>
           if \<not> hasExactFields obj topicKeyRecordFields \<or> objectString obj ''environment'' \<noteq> environment \<or>
              objectString obj ''purpose'' \<noteq> ''TOPIC'' \<or> objectString obj topicKeySecretField \<noteq> redactedTopicKeyBase64URL
           then None
           else (case positiveInteger (lookup obj ''topic_key_epoch'') of
              Inl _ \<Rightarrow> None
            | Inr epochValue \<Rightarrow>
                if epochValue > 2 ^ 32 - 1 then None
                else if HMACKeyID key \<noteq> Some (objectString obj ''key_id'') then None
                else (case parseWireTime (objectString obj ''not_before'') of
                   None \<Rightarrow> None
                 | Some notBefore \<Rightarrow>
                     (case parseWireTime (objectString obj ''not_after'') of
                        None \<Rightarrow> None
                      | Some notAfter \<Rightarrow>
                          if \<not> notAfter > notBefore then None
                          else Some
                            \<lparr>tr_descriptor =
                               \<lparr>td_KeyID = objectString obj ''key_id'', td_TopicKeyEpoch = word_of_nat epochValue,
                                td_NotBefore = notBefore, td_NotAfter = notAfter\<rparr>,
                             tr_key = key, tr_retireAt = zero_time, tr_hardRetireAt = zero_time\<rparr>)))
       | _ \<Rightarrow> None))"

fun topic_records :: "bytes \<Rightarrow> uint32 list \<Rightarrow> bytes list \<Rightarrow> any list \<Rightarrow> bytes list \<Rightarrow> topicKeyRecord list option" where
  "topic_records environment seenEpochs seenKeyIDs (item # items) (key # keys) =
     (case parseTopicKeyRecord item environment key of
        None \<Rightarrow> None
      | Some r \<Rightarrow>
          if tr_epoch r \<in> set seenEpochs \<or> td_KeyID (tr_descriptor r) \<in> set seenKeyIDs then None
          else map_option ((#) r)
            (topic_records environment (tr_epoch r # seenEpochs) (td_KeyID (tr_descriptor r) # seenKeyIDs) items keys))"
| "topic_records environment seenEpochs seenKeyIDs items keys = Some []"

definition parseTopicKeySetBytes :: "(nat \<Rightarrow> time) \<Rightarrow> time \<Rightarrow> bytes \<Rightarrow> bytes \<Rightarrow> config_error + TopicKeySet" where
  "parseTopicKeySetBytes steady now raw environment =
     (if environment \<noteq> ''dev'' \<and> environment \<noteq> ''production'' then Inl ErrConfiguration
      else (case extractAndRedactTopicKeys raw of
         Inl e \<Rightarrow> Inl e
       | Inr (redacted, keys) \<Rightarrow>
           (case ParseStrictJSON redacted of
              Inr (AArray items) \<Rightarrow>
                if length items < 1 \<or> length items > 2 \<or> length keys \<noteq> length items then Inl ErrConfiguration
                else (case topic_records environment [] [] items keys of
                   None \<Rightarrow> Inl ErrConfiguration
                 | Some records \<Rightarrow>
                     let sorted = sort_key tr_epoch records in
                     if length sorted = 2 \<and> tr_epoch (sorted ! 1) \<noteq> tr_epoch (sorted ! 0) + 1 then Inl ErrConfiguration
                     else Inr (startRetirement steady now
                       \<lparr>ts_environment = environment, ts_records = sorted, ts_retireEpoch = 0, ts_retireAt = zero_time,
                        ts_retireTimer = None, ts_recheck = maxRetirementClockRecheck, ts_retired = None, ts_closed = False\<rparr>))
            | _ \<Rightarrow> Inl ErrConfiguration)))"

section \<open>Using the set\<close>

definition Environment :: "TopicKeySet \<Rightarrow> bytes" where
  "Environment s = (if ts_closed s then [] else ts_environment s)"

definition Descriptors :: "(nat \<Rightarrow> time) \<Rightarrow> time \<Rightarrow> TopicKeySet \<Rightarrow> TopicKeyDescriptor list \<times> TopicKeySet" where
  "Descriptors steady now s =
     (let s1 = eraseRetiredLocked steady now s in
      if ts_closed s1 \<or> ts_records s1 = [] then ([], s1) else (map tr_descriptor (ts_records s1), s1))"

definition topicKeyDescriptorEqual :: "TopicKeyDescriptor \<Rightarrow> CommitmentKey \<Rightarrow> bool" where
  "topicKeyDescriptorEqual retired accepted_key \<longleftrightarrow>
     ck_TopicKeyEpoch accepted_key = Some (td_TopicKeyEpoch retired) \<and> td_KeyID retired = ck_KeyID accepted_key \<and>
     td_NotBefore retired = ck_NotBefore accepted_key \<and> td_NotAfter retired = ck_NotAfter accepted_key"

definition currentEpochUsable :: "TopicKeySet \<Rightarrow> time \<Rightarrow> CommitmentKey list \<Rightarrow> bool" where
  "currentEpochUsable s at accepted_key =
     (if at = zero_time then False
      else
        (case sole (\<lambda>d. ck_Purpose d = ''TOPIC'' \<and> ck_TopicKeyEpoch d = Some (TopicEpoch at)) accepted_key of
           None \<Rightarrow> False
         | Some accepted \<Rightarrow>
             if at < ck_NotBefore accepted \<or> \<not> at < ck_NotAfter accepted then False
             else if ts_closed s then False
             else (case sole (\<lambda>r. tr_epoch r = TopicEpoch at) (ts_records s) of
                None \<Rightarrow> False
              | Some local \<Rightarrow>
                  if \<not> topicKeyDescriptorEqual (tr_descriptor local) accepted \<or> at < td_NotBefore (tr_descriptor local) \<or>
                     \<not> at < td_NotAfter (tr_descriptor local)
                  then False
                  else HMACKeyID (tr_key local) = Some (td_KeyID (tr_descriptor local)))))"

definition index_of :: "('a \<Rightarrow> bool) \<Rightarrow> 'a list \<Rightarrow> nat option" where
  "index_of P xs = find (\<lambda>i. P (xs ! i)) [0..<length xs]"

text \<open>The loop over the signed topic descriptors: which local records are matched and whether the current one is.\<close>

fun reconcile_loop :: "topicKeyRecord list \<Rightarrow> TopicKeyDescriptor option \<Rightarrow> time \<Rightarrow> bool list \<Rightarrow> bool \<Rightarrow> bool \<Rightarrow>
    CommitmentKey list \<Rightarrow> (bool list \<times> bool) option" where
  "reconcile_loop records retired now matched held seen [] = Some (matched, held)"
| "reconcile_loop records retired now matched held seen (d # ds) =
     (case ck_TopicKeyEpoch d of
        None \<Rightarrow> None
      | Some e \<Rightarrow>
          (case index_of (\<lambda>r. tr_epoch r = e) records of
             Some i \<Rightarrow>
               let r = records ! i in
               if td_KeyID (tr_descriptor r) \<noteq> ck_KeyID d \<or> td_NotBefore (tr_descriptor r) \<noteq> ck_NotBefore d \<or>
                  td_NotAfter (tr_descriptor r) \<noteq> ck_NotAfter d \<or> matched ! i
               then None
               else if HMACKeyID (tr_key r) \<noteq> Some (ck_KeyID d) then None
               else reconcile_loop records retired now (matched[i := True]) (if e = TopicEpoch now then True else held) seen ds
           | None \<Rightarrow>
               if TopicEpoch now > 0 \<and> e = TopicEpoch now - 1 \<and>
                  \<not> now < TopicEpochBoundary (TopicEpoch now) + 60 * second \<and>
                  (case retired of None \<Rightarrow> False | Some r \<Rightarrow> topicKeyDescriptorEqual r d) \<and> \<not> seen
               then reconcile_loop records retired now matched held True ds
               else None))"

definition Reconcile :: "(nat \<Rightarrow> time) \<Rightarrow> object \<Rightarrow> time \<Rightarrow> TopicKeySet \<Rightarrow> trust_verdict \<times> TopicKeySet" where
  "Reconcile steady keyset now s =
     (let s1 = eraseRetiredLocked steady now s in
      if ts_closed s1 then (Inconclusive ''KEY_STATE'', s1)
      else (case parseCommitmentKeys (lookup keyset ''commitment_keys'') of
         None \<Rightarrow> (Inconclusive ''KEY_STATE'', s1)
       | Some descriptors \<Rightarrow>
           (case reconcile_loop (ts_records s1) (ts_retired s1) now (replicate (length (ts_records s1)) False) False False
                   (filter (\<lambda>d. ck_Purpose d = ''TOPIC'') descriptors) of
              None \<Rightarrow> (Inconclusive ''KEY_STATE'', s1)
            | Some (matched, held) \<Rightarrow>
                if \<not> list_all id matched then (Inconclusive ''KEY_STATE'', s1)
                else if \<not> held then (Inconclusive ''KEY_STATE'', s1)
                else (Eligible, s1))))"

definition BindingForEpoch ::
    "(nat \<Rightarrow> time) \<Rightarrow> bytes \<Rightarrow> uint32 \<Rightarrow> time \<Rightarrow> time \<Rightarrow> bool \<Rightarrow> TopicKeySet \<Rightarrow> (trust_verdict + bytes) \<times> TopicKeySet" where
  "BindingForEpoch steady topic epoch now assertionExpiresAt alreadyAccepted s =
     (let s1 = eraseRetiredLocked steady now s in
      if ts_closed s1 then (Inl (Inconclusive ''KEY_STATE''), s1)
      else (case find (\<lambda>r. tr_epoch r = epoch) (ts_records s1) of
         None \<Rightarrow> (Inl (Invalid ''TOPIC_KEY_EPOCH''), s1)
       | Some r \<Rightarrow>
           if now < td_NotBefore (tr_descriptor r) \<or> \<not> now < td_NotAfter (tr_descriptor r) then (Inl (Invalid ''KEY_STATE''), s1)
           else if epoch \<noteq> TopicEpoch now \<and> \<not> PreviousTopicEpochVerificationUsable epoch now assertionExpiresAt alreadyAccepted
           then (Inl (Invalid ''TOPIC_KEY_EPOCH''), s1)
           else (case TopicBinding (tr_key r) topic of
              None \<Rightarrow> (Inl (Invalid ''TOPIC_RESOLVER''), s1)
            | Some binding \<Rightarrow> (Inr binding, s1))))"

fun candidate_loop :: "topicKeyRecord list \<Rightarrow> bytes \<Rightarrow> time \<Rightarrow> bool \<Rightarrow> uint32 list \<Rightarrow> trust_verdict + TopicBindingCandidate list" where
  "candidate_loop records topic at first [] = Inr []"
| "candidate_loop records topic at first (epoch # epochs) =
     (case find (\<lambda>r. tr_epoch r = epoch) records of
        None \<Rightarrow> if first then Inl (Inconclusive ''KEY_STATE'') else candidate_loop records topic at False epochs
      | Some r \<Rightarrow>
          if at < td_NotBefore (tr_descriptor r) \<or> \<not> at < td_NotAfter (tr_descriptor r) then Inl (Inconclusive ''KEY_STATE'')
          else (case TopicBinding (tr_key r) topic of
             None \<Rightarrow> Inl (Invalid ''TOPIC_RESOLVER'')
           | Some binding \<Rightarrow>
               if length binding \<noteq> 32 then Inl (Invalid ''TOPIC_RESOLVER'')
               else (case candidate_loop records topic at False epochs of
                  Inl e \<Rightarrow> Inl e
                | Inr cs \<Rightarrow> Inr (\<lparr>tb_TopicKeyEpoch = epoch, tb_TopicBinding = binding\<rparr> # cs))))"

definition candidateTopicBindings ::
    "(nat \<Rightarrow> time) \<Rightarrow> bytes \<Rightarrow> time \<Rightarrow> TopicKeySet \<Rightarrow> (trust_verdict + TopicBindingCandidate list) \<times> TopicKeySet" where
  "candidateTopicBindings steady topic at s =
     (if at = zero_time then (Inl (Inconclusive ''KEY_STATE''), s)
      else
        let s1 = eraseRetiredLocked steady at s in
        if ts_closed s1 then (Inl (Inconclusive ''KEY_STATE''), s1)
        else
          let currentEpoch = TopicEpoch at;
              epochs = (if currentEpoch > 0 \<and> at < TopicEpochBoundary currentEpoch + 60 * second
                        then [currentEpoch, currentEpoch - 1] else [currentEpoch])
          in (candidate_loop (ts_records s1) topic at True epochs, s1))"

definition TopicKeySet_Close :: "TopicKeySet \<Rightarrow> TopicKeySet" where
  "TopicKeySet_Close s =
     (if ts_closed s then s
      else \<lparr>ts_environment = [], ts_records = [], ts_retireEpoch = 0, ts_retireAt = zero_time, ts_retireTimer = None,
            ts_recheck = 0, ts_retired = None, ts_closed = True\<rparr>)"

section \<open>Redaction leaves no secret\<close>

lemma jsonStringEnd_plain:
  "quote \<notin> set v \<Longrightarrow> CHR 0x5C \<notin> set v \<Longrightarrow> jsonStringEnd (v @ quote # rest) = Some (v, False, rest)"
  by (induction v) auto

lemma jsonStringEnd_unescaped:
  "jsonStringEnd s = Some (v, False, rest) \<Longrightarrow> s = v @ quote # rest \<and> quote \<notin> set v \<and> CHR 0x5C \<notin> set v"
  by (induction s arbitrary: v rest rule: jsonStringEnd.induct) (fastforce split: if_splits list.splits option.splits)+

definition json_space :: "bytes \<Rightarrow> bool" where
  "json_space w \<longleftrightarrow> set w \<subseteq> {CHR '' '', CHR 0x09, CHR 0x0D, CHR 0x0A}"

lemma skipJSONSpace_split: "\<exists>w. json_space w \<and> s = w @ skipJSONSpace s"
proof (induction s)
  case (Cons c s)
  then obtain w where "json_space w" "s = w @ skipJSONSpace s"
    by blast
  then show ?case
    by (cases "skipJSONSpace (c # s) = c # s") (auto simp: json_space_def intro!: exI [of _ "if skipJSONSpace (c # s) = c # s then [] else c # w"])
qed (simp add: json_space_def)

lemma skipJSONSpace_head: "skipJSONSpace s = c # r \<Longrightarrow> \<not> (c = CHR '' '' \<or> c = CHR 0x09 \<or> c = CHR 0x0D \<or> c = CHR 0x0A)"
  by (induction s) (auto split: if_splits)

lemma skipJSONSpace_append: "json_space w \<Longrightarrow> skipJSONSpace (w @ s) = skipJSONSpace s"
  by (induction w) (auto simp: json_space_def)

lemma json_space_no_quote: "json_space w \<Longrightarrow> quote \<notin> set w"
  by (auto simp: json_space_def)

lemma redact_loop_copy: "quote \<notin> set p \<Longrightarrow> redact_loop found (p @ s) = copied p (redact_loop found s)"
  by (induction p) (auto simp: copied_def split: sum.splits prod.splits)

lemma copied_Inr [simp]: "copied p r = Inr (out, keys) \<longleftrightarrow> (\<exists>out'. r = Inr (out', keys) \<and> out = p @ out')"
  by (auto simp: copied_def split: sum.splits prod.splits)

lemma extracted_Inr [simp]: "extracted k r = Inr (out, keys) \<longleftrightarrow> (\<exists>keys'. r = Inr (out, keys') \<and> keys = k # keys')"
  by (auto simp: extracted_def split: sum.splits prod.splits)

lemma redact_loop_head: "redact_loop found (c # s) = Inr (out, keys) \<Longrightarrow> \<exists>out'. out = c # out'"
  by (auto split: if_splits option.splits sum.splits bool.splits after_token.splits)

lemma after_string_NameString:
  assumes "after_string rest = NameString gap v"
  obtains w1 w2 where "gap = w1 @ CHR '':'' # w2 @ [quote]" "json_space w1" "json_space w2" "rest = gap @ v"
proof -
  obtain s where a: "skipJSONSpace rest = CHR '':'' # s" and b: "skipJSONSpace s = quote # v" and g: "gap = take (length rest - length v) rest"
    using assms by (auto simp: after_string_def split: list.splits if_splits)
  obtain w1 w2 where "json_space w1" "json_space w2" "rest = w1 @ CHR '':'' # s" "s = w2 @ quote # v"
    using skipJSONSpace_split [of rest] skipJSONSpace_split [of s] a b by metis
  then show thesis
    using g that by auto
qed

lemma after_string_gap:
  assumes "json_space w1" "json_space w2"
  shows "after_string (w1 @ CHR '':'' # w2 @ quote # v) = NameString (w1 @ CHR '':'' # w2 @ [quote]) v"
  using assms by (simp add: after_string_def skipJSONSpace_append)

lemma redact_loop_skip:
  assumes "redact_loop found rest = Inr (out, keys)"
  obtains w r where "json_space w" "rest = w @ skipJSONSpace rest" "out = w @ r" "redact_loop found (skipJSONSpace rest) = Inr (r, keys)"
proof -
  obtain w where w: "json_space w" "rest = w @ skipJSONSpace rest"
    using skipJSONSpace_split by blast
  then have "copied w (redact_loop found (skipJSONSpace rest)) = Inr (out, keys)"
    using assms redact_loop_copy [of w found "skipJSONSpace rest"] json_space_no_quote by metis
  then show thesis
    using that w by auto
qed

lemma redact_loop_skip_head:
  assumes "redact_loop found rest = Inr (out, keys)"
  shows "skipJSONSpace rest = [] \<Longrightarrow> skipJSONSpace out = []"
    and "skipJSONSpace rest = c # s \<Longrightarrow> \<exists>r. skipJSONSpace out = c # r \<and> redact_loop found (c # s) = Inr (c # r, keys)"
proof -
  obtain w r where w: "json_space w" "out = w @ r" "redact_loop found (skipJSONSpace rest) = Inr (r, keys)"
    using assms by (rule redact_loop_skip)
  show "skipJSONSpace rest = [] \<Longrightarrow> skipJSONSpace out = []"
    using w skipJSONSpace_append [of w "[]"] by auto
  assume s: "skipJSONSpace rest = c # s"
  then have r: "redact_loop found (c # s) = Inr (r, keys)"
    using w(3) by metis
  then obtain r' where "r = c # r'"
    using redact_loop_head by blast
  moreover from this have "skipJSONSpace out = c # r'"
    using w(1,2) skipJSONSpace_head [OF s] by (simp add: skipJSONSpace_append)
  ultimately show "\<exists>r. skipJSONSpace out = c # r \<and> redact_loop found (c # s) = Inr (c # r, keys)"
    using r by blast
qed

lemma after_string_redacted:
  assumes "redact_loop found rest = Inr (out, keys)" and "after_string rest = a" and "a = PlainString \<or> a = NameOnly"
  shows "after_string out = a"
proof (cases "skipJSONSpace rest")
  case Nil
  then show ?thesis
    using assms redact_loop_skip_head(1) [OF assms(1)] by (simp add: after_string_def)
next
  case (Cons c s)
  then obtain r where r: "skipJSONSpace out = c # r" "redact_loop found (c # s) = Inr (c # r, keys)"
    using redact_loop_skip_head(2) [OF assms(1)] by blast
  show ?thesis
  proof (cases "c = CHR '':''")
    case True
    then have "redact_loop found s = Inr (r, keys)"
      using r(2) by simp
    from redact_loop_skip_head [OF this] show ?thesis
      using assms(2,3) Cons r(1) True by (cases "skipJSONSpace s") (auto simp: after_string_def split: if_splits)
  next
    case False
    then show ?thesis
      using assms(2,3) Cons r(1) by (simp add: after_string_def)
  qed
qed

definition zero_key :: bytes where
  "zero_key = replicate 32 (byte_of 0)"

lemma b64_encode_zeros: "b64_encode (replicate (3 * n + 2) (byte_of 0)) = replicate (4 * n + 3) (CHR ''A'')"
proof (induction n)
  case 0
  have two: "replicate 2 (byte_of 0) = [byte_of 0, byte_of 0]" "replicate 3 (CHR ''A'') = [CHR ''A'', CHR ''A'', CHR ''A'']"
    by (simp_all add: numeral_2_eq_2 numeral_3_eq_3)
  show ?case
    by (simp add: two Let_def b64_char_0)
next
  case (Suc n)
  have "3 * Suc n + 2 = Suc (Suc (Suc (3 * n + 2)))" and "4 * Suc n + 3 = Suc (Suc (Suc (Suc (4 * n + 3))))"
    by simp_all
  then show ?case
    using Suc by (simp only: replicate_Suc b64_encode.simps) (simp add: Let_def b64_char_0)
qed

lemma redacted_encodes: "redactedTopicKeyBase64URL = b64_encode zero_key"
  using b64_encode_zeros [of 10] by (simp add: zero_key_def redactedTopicKeyBase64URL_def)

lemma redacted_decodes: "decodeTopicSecret redactedTopicKeyBase64URL = Inr (Some zero_key)"
proof -
  have "b64_decode_strict redactedTopicKeyBase64URL = Some zero_key" and "length zero_key = 32"
    by (simp_all add: redacted_encodes zero_key_def)
  then show ?thesis
    by (simp add: decodeTopicSecret_def)
qed

lemma redacted_plain: "quote \<notin> set redactedTopicKeyBase64URL" "CHR 0x5C \<notin> set redactedTopicKeyBase64URL"
  by (simp_all add: redactedTopicKeyBase64URL_def)

lemma redact_loop_step:
  assumes "redact_loop found (quote # s) = Inr (out, keys)"
  obtains (plain) token rest out' where "s = token @ quote # rest" "quote \<notin> set token" "CHR 0x5C \<notin> set token"
      "topicSecretLike token = Inr False"
      "after_string rest = PlainString \<or> after_string rest = NameOnly \<and> token \<noteq> topicKeySecretField"
      "redact_loop found rest = Inr (out', keys)" "out = quote # token @ quote # out'"
  | (secret) token gap val rest out' key keys' where "s = token @ quote # gap @ val @ quote # rest" "quote \<notin> set token" "CHR 0x5C \<notin> set token"
      "topicSecretLike token = Inr False" "after_string (gap @ val @ quote # rest) = NameString gap (val @ quote # rest)"
      "token = topicKeySecretField" "decodeTopicSecret val = Inr (Some key)" "length val = length redactedTopicKeyBase64URL"
      "found + 1 \<le> 2" "redact_loop (found + 1) rest = Inr (out', keys')" "keys = key # keys'"
      "out = quote # token @ quote # gap @ redactedTopicKeyBase64URL @ quote # out'"
  | (other) token gap val rest out' where "s = token @ quote # gap @ val @ quote # rest" "quote \<notin> set token" "CHR 0x5C \<notin> set token"
      "topicSecretLike token = Inr False" "after_string (gap @ val @ quote # rest) = NameString gap (val @ quote # rest)"
      "quote \<notin> set val" "CHR 0x5C \<notin> set val" "token \<noteq> topicKeySecretField" "decodeTopicSecret val = Inr None"
      "redact_loop found rest = Inr (out', keys)" "out = quote # token @ quote # gap @ val @ quote # out'"
proof -
  obtain token rest where s: "jsonStringEnd s = Some (token, False, rest)" and l: "topicSecretLike token = Inr False"
    using assms by (auto split: if_splits option.splits sum.splits bool.splits)
  note t = jsonStringEnd_unescaped [OF s]
  show thesis
  proof (cases "after_string rest")
    case (NameString gap v)
    then obtain val rest' k where v: "jsonStringEnd v = Some (val, False, rest')" and k: "decodeTopicSecret val = Inr k"
      using assms s l by (auto split: if_splits option.splits sum.splits)
    note u = jsonStringEnd_unescaped [OF v]
    have r: "rest = gap @ v"
      using NameString by (rule after_string_NameString)
    consider "token = topicKeySecretField" "k = Some (the k)" "length val = length redactedTopicKeyBase64URL" "found + 1 \<le> 2"
        "copied (quote # token @ [quote] @ gap @ redactedTopicKeyBase64URL @ [quote]) (extracted (the k) (redact_loop (found + 1) rest')) = Inr (out, keys)"
      | "token \<noteq> topicKeySecretField" "k = None"
        "copied (quote # token @ [quote] @ gap @ val @ [quote]) (redact_loop found rest') = Inr (out, keys)"
      using assms unfolding redact_loop.simps(2) s by (auto simp: l NameString v k split: if_splits)
    then show thesis
    proof cases
      case 1
      then show thesis
        using secret [of token gap val rest' "the k"] t u r l NameString k by auto
    next
      case 2
      then show thesis
        using other [of token gap val rest'] t u r l NameString k by auto
    qed
  qed (use assms s l t plain [of token rest] in \<open>auto split: if_splits\<close>)
qed

lemma topicSecretLike_field: "topicSecretLike topicKeySecretField = Inr False" "quote \<notin> set topicKeySecretField" "CHR 0x5C \<notin> set topicKeySecretField"
  by (simp_all add: topicSecretLike_def decodeTopicSecret_def topicKeySecretField_def redactedTopicKeyBase64URL_def)

lemma redact_loop_plain:
  assumes "quote \<notin> set token" "CHR 0x5C \<notin> set token" "topicSecretLike token = Inr False"
    and "after_string rest = PlainString \<or> after_string rest = NameOnly \<and> token \<noteq> topicKeySecretField"
  shows "redact_loop found (quote # token @ quote # rest) = copied (quote # token @ [quote]) (redact_loop found rest)"
  using assms(3,4) by (auto simp: jsonStringEnd_plain [OF assms(1,2)])

lemma redact_loop_named:
  assumes "quote \<notin> set token" "CHR 0x5C \<notin> set token" "topicSecretLike token = Inr False"
    and "after_string (gap @ val @ quote # rest) = NameString gap (val @ quote # rest)"
    and "quote \<notin> set val" "CHR 0x5C \<notin> set val" "decodeTopicSecret val = Inr k"
  shows "token \<noteq> topicKeySecretField \<Longrightarrow> k = None \<Longrightarrow> redact_loop found (quote # token @ quote # gap @ val @ quote # rest) =
       copied (quote # token @ quote # gap @ val @ [quote]) (redact_loop found rest)"
    and "token = topicKeySecretField \<Longrightarrow> k = Some key \<Longrightarrow> length val = 43 \<Longrightarrow> found + 1 \<le> 2 \<Longrightarrow>
       redact_loop found (quote # token @ quote # gap @ val @ quote # rest) =
       copied (quote # token @ quote # gap @ redactedTopicKeyBase64URL @ [quote]) (extracted key (redact_loop (found + 1) rest))"
  using assms(3,4,7) unfolding redact_loop.simps(2) jsonStringEnd_plain [OF assms(1,2)]
  by (simp_all add: jsonStringEnd_plain [OF assms(5,6)] redactedTopicKeyBase64URL_def)

lemma after_string_replaced:
  assumes "after_string (gap @ v) = NameString gap v"
  shows "after_string (gap @ v') = NameString gap v'"
  using assms by (rule after_string_NameString) (simp add: after_string_gap)

text \<open>Redacting again finds only the all-zero key, at each place where a secret was.\<close>

lemma redact_loop_again:
  "redact_loop found s = Inr (out, keys) \<Longrightarrow> length out = length s \<and> found + length keys \<le> max 2 found \<and>
     redact_loop found out = Inr (out, replicate (length keys) zero_key)"
proof (induction "length s" arbitrary: found s out keys rule: less_induct)
  case less
  show ?case
  proof (cases s)
    case (Cons c t)
    show ?thesis
    proof (cases "c = quote")
      case True
      from less.prems [unfolded Cons True] show ?thesis
      proof (cases rule: redact_loop_step)
        case (plain token rest out')
        have "after_string out' = after_string rest"
          using after_string_redacted [OF plain(6)] plain(5) by blast
        then show ?thesis
          using less.hyps [OF _ plain(6)] plain(1-5,7) Cons True redact_loop_plain [of token out' found] by auto
      next
        case (secret token gap val rest out' key keys')
        have "redact_loop found out = copied (quote # token @ quote # gap @ redactedTopicKeyBase64URL @ [quote])
            (extracted zero_key (redact_loop (found + 1) out'))"
          using redact_loop_named(2) [OF secret(2-4) after_string_replaced [OF secret(5)] redacted_plain redacted_decodes secret(6) refl _ secret(9)]
          by (simp add: secret(12) redactedTopicKeyBase64URL_def)
        then show ?thesis
          using less.hyps [OF _ secret(10)] secret(1,8,9,11,12) Cons by auto
      next
        case (other token gap val rest out')
        have "redact_loop found out = copied (quote # token @ quote # gap @ val @ [quote]) (redact_loop found out')"
          using redact_loop_named(1) [OF other(2-4) after_string_replaced [OF other(5)] other(6,7,9,8) refl] by (simp add: other(11))
        then show ?thesis
          using less.hyps [OF _ other(10)] other(1,11) Cons by auto
      qed
    next
      case False
      then obtain out' where o: "redact_loop found t = Inr (out', keys)" "out = c # out'"
        using less.prems Cons by auto
      then show ?thesis
        using less.hyps [OF _ o(1)] False Cons by auto
    qed
  qed (use less.prems in auto)
qed

section \<open>Erasure is complete and permanent\<close>

text \<open>What the deadlines keep of every record, every change of the records keeps of every record.\<close>

lemma retirement_keeps:
  assumes "\<And>r i. P r \<Longrightarrow> P (initializeRetirementDeadlines now (steady i) r)"
  shows "list_all P (ts_records s) \<Longrightarrow> list_all P (ts_records (scheduleRetirementLocked steady j now s))"
    and "list_all P (ts_records s) \<Longrightarrow> list_all P (ts_records (eraseRetiredLockedAt steady j now steadyNow s))"
proof -
  have "now' = now \<Longrightarrow> steady' = steady \<Longrightarrow> list_all P (ts_records s) \<Longrightarrow> list_all P (ts_records (scheduleRetirementLocked steady' j now' s))"
    and "now' = now \<Longrightarrow> steady' = steady \<Longrightarrow> list_all P (ts_records s) \<Longrightarrow> list_all P (ts_records (eraseRetiredLockedAt steady' j now' steadyNow s))"
    for now' steady'
  proof (induction steady' j now' s and steady' j now' steadyNow s rule: scheduleRetirementLocked_eraseRetiredLockedAt.induct)
    case (1 steady' i now' s)
    have "list_all P (map (initializeRetirementDeadlines now' (steady' i)) (ts_records s))"
      using 1(2-4) assms by (simp add: list_all_iff)
    then show ?case
      using 1 by (subst scheduleRetirementLocked.simps) (simp add: Let_def del: scheduleRetirementLocked.simps eraseRetiredLockedAt.simps split: option.split)
  next
    case (2 steady' i now' steadyNow s)
    then show ?case
      by (subst eraseRetiredLockedAt.simps) (simp add: list_all_iff del: scheduleRetirementLocked.simps eraseRetiredLockedAt.simps)
  qed
  then show "list_all P (ts_records s) \<Longrightarrow> list_all P (ts_records (scheduleRetirementLocked steady j now s))"
    and "list_all P (ts_records s) \<Longrightarrow> list_all P (ts_records (eraseRetiredLockedAt steady j now steadyNow s))"
    by blast+
qed

declare scheduleRetirementLocked.simps [simp del] eraseRetiredLockedAt.simps [simp del]

definition topic_deadline :: "uint32 \<Rightarrow> time" where
  "topic_deadline epoch = TopicEpochBoundary (epoch + 1) + 60 * second"

lemma topic_deadline_pos: "zero_time < topic_deadline epoch"
  by (simp add: topic_deadline_def TopicEpochBoundary_def topicPeriodSeconds_def zero_time_def duration_defs add_pos_nonneg less_le_trans [of _ 0])

text \<open>A record whose deadlines are set, the steady one no later than the given bound.\<close>

definition deadline_set :: "(uint32 \<Rightarrow> time) \<Rightarrow> topicKeyRecord \<Rightarrow> bool" where
  "deadline_set hard r \<longleftrightarrow> retirable r \<longrightarrow>
     tr_retireAt r = topic_deadline (tr_epoch r) \<and> tr_hardRetireAt r \<noteq> zero_time \<and> tr_hardRetireAt r \<le> hard (tr_epoch r)"

definition deadline_passed :: "(uint32 \<Rightarrow> time) \<Rightarrow> time \<Rightarrow> time \<Rightarrow> topicKeyRecord \<Rightarrow> bool" where
  "deadline_passed hard now steadyNow r \<longleftrightarrow>
     retirable r \<and> (topic_deadline (tr_epoch r) \<le> now \<or> hard (tr_epoch r) \<le> steadyNow)"

lemma initialize_set: "deadline_set hard r \<Longrightarrow> initializeRetirementDeadlines now st r = r"
  using topic_deadline_pos [of "tr_epoch r"] by (auto simp: deadline_set_def initializeRetirementDeadlines_def Let_def)

lemma deadline_passed_due: "deadline_set hard r \<Longrightarrow> deadline_passed hard now st r \<Longrightarrow> retire_due now st r"
  by (auto simp: deadline_set_def deadline_passed_def retire_due_def)

lemma map_initialize_set: "list_all (deadline_set hard) rs \<Longrightarrow> map (initializeRetirementDeadlines now st) rs = rs"
  by (induction rs) (simp_all add: initialize_set [of hard])

lemma eraseRetiredLocked_keeps:
  assumes "list_all (\<lambda>r. deadline_set hard r \<and> P r) (ts_records s)"
  shows "list_all (\<lambda>r. deadline_set hard r \<and> P r) (ts_records (eraseRetiredLocked steady now s))"
proof -
  have "list_all (deadline_set hard) (ts_records s)"
    using assms by (simp add: list_all_iff)
  then have "eraseRetiredLocked steady now s = (if ts_closed s \<or> ts_records s = [] then s
      else eraseRetiredLockedAt (\<lambda>i. steady (Suc i)) 0 now (steady 0) s)"
    by (simp add: eraseRetiredLocked_def map_initialize_set [of hard])
  then show ?thesis
    using assms retirement_keeps(2) [where P = "\<lambda>r. deadline_set hard r \<and> P r", of now "\<lambda>i. steady (Suc i)" s 0 "steady 0"]
    by (auto simp: initialize_set [of hard])
qed

lemma eraseRetiredLocked_erases:
  assumes "list_all (deadline_set hard) (ts_records s)"
  shows "\<not> ts_closed s \<Longrightarrow> list_all (\<lambda>r. \<not> deadline_passed hard now (steady 0) r) (ts_records (eraseRetiredLocked steady now s))"
proof -
  let ?P = "\<lambda>r. deadline_set hard r \<and> \<not> deadline_passed hard now (steady 0) r"
  assume open_set: "\<not> ts_closed s"
  have keeps: "list_all ?P (ts_records t) \<Longrightarrow> list_all ?P (ts_records (scheduleRetirementLocked (\<lambda>i. steady (Suc i)) 0 now t))" for t
    by (rule retirement_keeps(1)) (auto simp: initialize_set [of hard])
  have kept: "list_all ?P (filter (\<lambda>r. \<not> retire_due now (steady 0) r) (ts_records s))"
    using assms deadline_passed_due by (auto simp: list_all_iff)
  have "list_all ?P (ts_records (eraseRetiredLockedAt (\<lambda>i. steady (Suc i)) 0 now (steady 0) s))" if "ts_records s \<noteq> []"
  proof (cases "list_ex (retire_due now (steady 0)) (ts_records s)")
    case True
    then show ?thesis
      using open_set that kept by (subst eraseRetiredLockedAt.simps) (simp add: keeps)
  next
    case False
    then have "list_all ?P (ts_records s)"
      using kept by (auto simp: list_all_iff list_ex_iff)
    then show ?thesis
      using open_set that False by (subst eraseRetiredLockedAt.simps) (simp add: keeps)
  qed
  then show "list_all (\<lambda>r. \<not> deadline_passed hard now (steady 0) r) (ts_records (eraseRetiredLocked steady now s))"
    using open_set assms by (auto simp: eraseRetiredLocked_def map_initialize_set [of hard] list_all_iff)
qed

definition fresh_records :: "TopicKeySet \<Rightarrow> bool" where
  "fresh_records s \<longleftrightarrow> \<not> ts_closed s \<and> list_all (\<lambda>r. tr_retireAt r = zero_time \<and> tr_hardRetireAt r = zero_time) (ts_records s)"

definition hard_deadline :: "time \<Rightarrow> time \<Rightarrow> uint32 \<Rightarrow> time" where
  "hard_deadline now steadyNow epoch = steadyNow + max 0 (time_sub (topic_deadline epoch) now)"

lemma initialize_fresh:
  assumes "tr_retireAt r = zero_time" "tr_hardRetireAt r = zero_time" "zero_time < st"
  shows "deadline_set (hard_deadline now st) (initializeRetirementDeadlines now st r)"
  using assms by (auto simp: initializeRetirementDeadlines_def deadline_set_def hard_deadline_def retirable_def Let_def topic_deadline_def)

lemma startRetirement_sets:
  assumes "fresh_records s" and "zero_time < steady 0"
  shows "list_all (deadline_set (hard_deadline now (steady 0))) (ts_records (startRetirement steady now s))"
proof (cases "ts_closed s \<or> ts_records s = []")
  case True
  then show ?thesis
    using assms by (auto simp: startRetirement_def fresh_records_def)
next
  case False
  have "list_all (deadline_set (hard_deadline now (steady 0))) (map (initializeRetirementDeadlines now (steady 0)) (ts_records s))"
    using assms initialize_fresh by (auto simp: fresh_records_def list_all_iff)
  moreover have "list_all (deadline_set h) (ts_records t) \<Longrightarrow> list_all (deadline_set h) (ts_records (eraseRetiredLockedAt steady j now st t))" for h t j st
    by (rule retirement_keeps(2)) (auto simp: initialize_set [of h])
  ultimately show ?thesis
    using False by (simp add: startRetirement_def) (subst scheduleRetirementLocked.simps, simp add: Let_def split: option.split)
qed

lemma retirement_closed:
  "ts_closed (scheduleRetirementLocked steady j now s) = ts_closed s"
  "ts_closed (eraseRetiredLockedAt steady j now steadyNow s) = ts_closed s"
proof (induction steady j now s and steady j now steadyNow s rule: scheduleRetirementLocked_eraseRetiredLockedAt.induct)
  case (1 steady i now s)
  then show ?case
    by (subst scheduleRetirementLocked.simps) (simp add: Let_def split: option.split)
next
  case (2 steady i now steadyNow s)
  then show ?case
    by (subst eraseRetiredLockedAt.simps) simp
qed

lemma eraseRetiredLocked_closed [simp]: "ts_closed (eraseRetiredLocked steady now s) = ts_closed s"
  by (simp add: eraseRetiredLocked_def retirement_closed)

lemma eraseRetiredLocked_Nil: "ts_records s = [] \<Longrightarrow> eraseRetiredLocked steady now s = s"
  by (simp add: eraseRetiredLocked_def)

section \<open>Runs of the operations\<close>

datatype topic_op = Op_Descriptors time | Op_Reconcile object time | Op_Binding bytes uint32 time time bool
  | Op_Candidates bytes time | Op_Timer time | Op_Close

fun topic_step :: "(nat \<Rightarrow> time) \<times> topic_op \<Rightarrow> TopicKeySet \<Rightarrow> TopicKeySet" where
  "topic_step (steady, Op_Descriptors now) s = snd (Descriptors steady now s)"
| "topic_step (steady, Op_Reconcile keyset now) s = snd (Reconcile steady keyset now s)"
| "topic_step (steady, Op_Binding topic epoch now expires accepted) s = snd (BindingForEpoch steady topic epoch now expires accepted s)"
| "topic_step (steady, Op_Candidates topic at) s = snd (candidateTopicBindings steady topic at s)"
| "topic_step (steady, Op_Timer now) s = retire_timer_fires steady now s"
| "topic_step (steady, Op_Close) s = TopicKeySet_Close s"

fun wall_reading :: "topic_op \<Rightarrow> time option" where
  "wall_reading (Op_Descriptors now) = Some now"
| "wall_reading (Op_Reconcile keyset now) = Some now"
| "wall_reading (Op_Binding topic epoch now expires accepted) = Some now"
| "wall_reading (Op_Candidates topic at) = (if at = zero_time then None else Some at)"
| "wall_reading (Op_Timer now) = Some now"
| "wall_reading Op_Close = None"

lemma Reconcile_state [simp]: "snd (Reconcile steady keyset now s) = eraseRetiredLocked steady now s"
  by (simp add: Reconcile_def Let_def split: option.split)

lemma BindingForEpoch_state [simp]: "snd (BindingForEpoch steady topic epoch now expires accepted s) = eraseRetiredLocked steady now s"
  by (simp add: BindingForEpoch_def Let_def split: option.split)

lemma candidateTopicBindings_state [simp]:
  "snd (candidateTopicBindings steady topic at s) = (if at = zero_time then s else eraseRetiredLocked steady at s)"
  by (simp add: candidateTopicBindings_def Let_def)

lemma topic_step_state:
  obtains (erase) now t where "wall_reading op = Some now" "topic_step (steady, op) s = eraseRetiredLocked steady now t"
      "ts_records t = ts_records s" "ts_closed t = ts_closed s"
  | (still) "wall_reading op = None" "topic_step (steady, op) s = s"
  | (close) "wall_reading op = None" "op = Op_Close" "topic_step (steady, op) s = TopicKeySet_Close s"
proof (cases op)
  case (Op_Timer now)
  then show thesis
    using erase [of now "s\<lparr>ts_retireTimer := None\<rparr>"] by (simp add: retire_timer_fires_def)
next
  case (Op_Candidates topic at)
  then show thesis
    using erase [of at s] still by (cases "at = zero_time") simp_all
qed (use erase [of _ s] close in \<open>simp_all add: Descriptors_def Let_def\<close>)

definition topic_run :: "((nat \<Rightarrow> time) \<times> topic_op) list \<Rightarrow> TopicKeySet \<Rightarrow> TopicKeySet" where
  "topic_run ops s = fold topic_step ops s"

definition held_ok :: "(uint32 \<Rightarrow> time) \<Rightarrow> (topicKeyRecord \<Rightarrow> bool) \<Rightarrow> TopicKeySet \<Rightarrow> bool" where
  "held_ok hard P s \<longleftrightarrow> (ts_closed s \<longrightarrow> ts_records s = []) \<and> list_all (\<lambda>r. deadline_set hard r \<and> P r) (ts_records s)"

lemma topic_step_held:
  assumes "held_ok hard P s"
  shows "held_ok hard (\<lambda>r. P r \<and> (case wall_reading op of None \<Rightarrow> True | Some now \<Rightarrow> \<not> deadline_passed hard now (steady 0) r))
     (topic_step (steady, op) s)"
proof (cases rule: topic_step_state [of op steady s])
  case (erase now t)
  have t: "held_ok hard P t"
    using assms erase by (simp add: held_ok_def)
  show ?thesis
  proof (cases "ts_closed t")
    case True
    then show ?thesis
      using t erase by (simp add: held_ok_def eraseRetiredLocked_Nil)
  next
    case False
    have d: "list_all (deadline_set hard) (ts_records t)"
      using t by (simp add: held_ok_def list_all_iff)
    have "list_all (\<lambda>r. deadline_set hard r \<and> P r) (ts_records (eraseRetiredLocked steady now t))"
      using t by (intro eraseRetiredLocked_keeps) (simp add: held_ok_def)
    then show ?thesis
      using eraseRetiredLocked_erases [OF d False, of now steady] False
      unfolding held_ok_def erase(1,2) by (auto simp: list_all_iff)
  qed
next
  case still
  then show ?thesis
    using assms by (simp add: held_ok_def)
next
  case close
  then show ?thesis
    using assms unfolding close(3) close(1) by (auto simp: held_ok_def TopicKeySet_Close_def)
qed

lemma topic_run_held:
  "held_ok hard P s \<Longrightarrow> held_ok hard (\<lambda>r. P r \<and> (\<forall>(steady, op)\<in>set ops. case wall_reading op of None \<Rightarrow> True
     | Some now \<Rightarrow> \<not> deadline_passed hard now (steady 0) r)) (topic_run ops s)"
proof (induction ops arbitrary: s P)
  case (Cons x ops)
  obtain steady op where x: "x = (steady, op)"
    by (cases x)
  show ?case
    using Cons.IH [OF topic_step_held [OF Cons.prems, of steady op]] by (simp add: topic_run_def x held_ok_def list_all_iff)
qed (simp add: topic_run_def)

lemma topic_records_fresh:
  "topic_records environment es ks items keys = Some rs \<Longrightarrow> r \<in> set rs \<Longrightarrow>
     tr_retireAt r = zero_time \<and> tr_hardRetireAt r = zero_time \<and> HMACKeyID (tr_key r) = Some (td_KeyID (tr_descriptor r)) \<and>
     td_NotBefore (tr_descriptor r) < td_NotAfter (tr_descriptor r)"
proof (induction environment es ks items keys arbitrary: rs rule: topic_records.induct)
  case (1 environment es ks item items key keys)
  have "parseTopicKeyRecord item environment key = Some x \<Longrightarrow> tr_retireAt x = zero_time \<and> tr_hardRetireAt x = zero_time \<and>
      HMACKeyID (tr_key x) = Some (td_KeyID (tr_descriptor x)) \<and> td_NotBefore (tr_descriptor x) < td_NotAfter (tr_descriptor x)" for x
    by (auto simp: parseTopicKeyRecord_def split: if_splits any.splits sum.splits option.splits)
  then show ?case
    using 1 by (auto split: option.splits if_splits)
qed auto

lemma parse_starts:
  assumes "parseTopicKeySetBytes steady now raw environment = Inr s"
  obtains s0 where "fresh_records s0" "s = startRetirement steady now s0"
proof -
  obtain redacted keys items records where "topic_records environment [] [] items keys = Some records"
      and s: "s = startRetirement steady now
        \<lparr>ts_environment = environment, ts_records = sort_key tr_epoch records, ts_retireEpoch = 0, ts_retireAt = zero_time,
         ts_retireTimer = None, ts_recheck = maxRetirementClockRecheck, ts_retired = None, ts_closed = False\<rparr>"
    using assms by (auto simp: parseTopicKeySetBytes_def Let_def split: if_splits sum.splits any.splits option.splits)
  then show thesis
    using that [OF _ s] by (simp add: fresh_records_def list_all_iff topic_records_fresh)
qed

section \<open>Reconciliation\<close>

lemma index_of_Some: "index_of P xs = Some i \<Longrightarrow> i < length xs \<and> P (xs ! i)"
  by (auto simp: index_of_def find_Some_iff)

definition reconciled :: "topicKeyRecord \<Rightarrow> CommitmentKey \<Rightarrow> bool" where
  "reconciled r d \<longleftrightarrow> topicKeyDescriptorEqual (tr_descriptor r) d \<and> HMACKeyID (tr_key r) = Some (ck_KeyID d)"

lemma reconcile_loop_sound:
  "reconcile_loop records retired now matched held seen ds = Some (matched', held') \<Longrightarrow> length matched = length records \<Longrightarrow>
     length matched' = length records \<and>
     (\<forall>i<length records. matched' ! i \<longrightarrow> matched ! i \<or> (\<exists>d\<in>set ds. reconciled (records ! i) d)) \<and>
     (held' \<longrightarrow> held \<or> (\<exists>r\<in>set records. \<exists>d\<in>set ds. reconciled r d \<and> tr_epoch r = TopicEpoch now)) \<and>
     (\<forall>d\<in>set ds. (\<exists>r\<in>set records. reconciled r d) \<or> (\<exists>r. retired = Some r \<and> topicKeyDescriptorEqual r d \<and>
        topic_deadline (td_TopicKeyEpoch r) \<le> now))"
proof (induction records retired now matched held seen ds rule: reconcile_loop.induct)
  case (2 records retired now matched held seen d ds)
  obtain e where e: "ck_TopicKeyEpoch d = Some e"
    using 2(3) by (auto split: option.splits)
  show ?case
  proof (cases "index_of (\<lambda>r. tr_epoch r = e) records")
    case (Some i)
    note i = index_of_Some [OF Some]
    have rec: "reconciled (records ! i) d"
      using 2(3) i by (auto simp: e Some reconciled_def topicKeyDescriptorEqual_def Let_def split: if_splits)
    have step: "reconcile_loop records retired now (matched[i := True]) (if e = TopicEpoch now then True else held) seen ds = Some (matched', held')"
      using 2(3) by (auto simp: e Some Let_def split: if_splits)
    have len: "length (matched[i := True]) = length records"
      using 2(4) by simp
    have ok: "\<not> (td_KeyID (tr_descriptor (records ! i)) \<noteq> ck_KeyID d \<or> td_NotBefore (tr_descriptor (records ! i)) \<noteq> ck_NotBefore d \<or>
        td_NotAfter (tr_descriptor (records ! i)) \<noteq> ck_NotAfter d \<or> matched ! i)"
      "\<not> HMACKeyID (tr_key (records ! i)) \<noteq> Some (ck_KeyID d)"
      using 2(3) by (auto simp: e Some Let_def split: if_splits)
    note IH = 2(2) [OF e Some refl ok step len]
    have upd: "matched ! j \<or> reconciled (records ! j) d" if "(matched[i := True]) ! j" for j
      using rec that by (cases "j = i") simp_all
    have here: "\<exists>r\<in>set records. reconciled r d \<and> tr_epoch r = e"
      using i rec by (intro bexI [of _ "records ! i"]) simp_all
    have "\<forall>j<length records. matched' ! j \<longrightarrow> matched ! j \<or> (\<exists>d'\<in>set (d # ds). reconciled (records ! j) d')"
      using conjunct1 [OF conjunct2 [OF IH]] upd by (meson list.set_intros)
    moreover have "held' \<longrightarrow> held \<or> (\<exists>r\<in>set records. \<exists>d'\<in>set (d # ds). reconciled r d' \<and> tr_epoch r = TopicEpoch now)"
      using conjunct1 [OF conjunct2 [OF conjunct2 [OF IH]]] here by (cases "e = TopicEpoch now") auto
    ultimately show ?thesis
      using IH here by (simp only: list.set ball_simps) blast
  next
    case None
    then have r: "(case retired of None \<Rightarrow> False | Some r \<Rightarrow> topicKeyDescriptorEqual r d)" "e = TopicEpoch now - 1"
        "\<not> now < TopicEpochBoundary (TopicEpoch now) + 60 * second"
      and step: "reconcile_loop records retired now matched held True ds = Some (matched', held')"
      using 2(3) by (auto simp: e split: if_splits)
    have "topic_deadline e \<le> now"
      using r(2,3) by (simp add: topic_deadline_def)
    then obtain x where x: "retired = Some x" "topicKeyDescriptorEqual x d" "topic_deadline (td_TopicKeyEpoch x) \<le> now"
      using r(1) by (cases retired) (simp_all add: topicKeyDescriptorEqual_def e)
    have "(TopicEpoch now > 0 \<and> e = TopicEpoch now - 1 \<and> \<not> now < TopicEpochBoundary (TopicEpoch now) + 60 * second \<and>
        (case retired of None \<Rightarrow> False | Some r \<Rightarrow> topicKeyDescriptorEqual r d) \<and> \<not> seen)"
      using 2(3) None by (auto simp: e split: if_splits)
    from 2(1) [OF e None this step 2(4)] show ?thesis
      using x by auto
  qed
qed auto

section \<open>Properties\<close>


definition example_document :: bytes where
  "example_document = ''{'' @ quote # topicKeySecretField @ quote # '':'' @ quote # b64_encode (replicate 32 (CHR ''k'')) @ quote # ''}''"

lemma b64_encode_plain: "quote \<notin> set (b64_encode s)" "CHR 0x5C \<notin> set (b64_encode s)"
proof -
  have "list_all (\<lambda>c. c \<noteq> quote \<and> c \<noteq> CHR 0x5C) (b64_encode s)"
    by (rule b64_encode_alphabet) (auto simp: b64_char_def byte_of_eq_iff)
  then show "quote \<notin> set (b64_encode s)" "CHR 0x5C \<notin> set (b64_encode s)"
    by (auto simp: list_all_iff)
qed

lemma decode_encoded_secret: "length key = 32 \<Longrightarrow> decodeTopicSecret (b64_encode key) = Inr (Some key)"
  by (simp add: decodeTopicSecret_def redactedTopicKeyBase64URL_def length_b64_encode)


text \<open>
  C31. A topic secret whose erasure deadline has passed is gone for good. Whatever operations run on a set after
  it was started, if a secret is still held then no operation so far has read a wall time at or after its
  deadline, 60 seconds into the next period, and none has read a steady time at or after the instant that the
  deadline had on the steady clock when the set was started. In particular a wall clock that stands still or
  goes back does not keep a secret alive, and no operation brings an erased secret back.
\<close>

theorem topic_secret_erased:
  assumes "fresh_records s0" and "zero_time < steady 0"
    and "r \<in> set (ts_records (topic_run ops (startRetirement steady now s0)))" and "tr_epoch r \<noteq> - 1"
  shows "\<forall>(st, op)\<in>set ops. \<forall>t. wall_reading op = Some t \<longrightarrow>
     t < topic_deadline (tr_epoch r) \<and> st 0 < hard_deadline now (steady 0) (tr_epoch r)"
proof -
  let ?hard = "hard_deadline now (steady 0)" and ?s = "startRetirement steady now s0"
  have "\<not> ts_closed ?s"
    using assms(1) by (simp add: startRetirement_def retirement_closed fresh_records_def)
  then have "held_ok ?hard (\<lambda>_. True) ?s"
    using startRetirement_sets [of s0 steady now, OF assms(1,2)] by (simp add: held_ok_def)
  from topic_run_held [OF this, of ops] show ?thesis
    using assms(3,4) by (fastforce simp: held_ok_def list_all_iff deadline_passed_def retirable_def split: option.splits)
qed

definition example_topic_set :: TopicKeySet where
  "example_topic_set =
     \<lparr>ts_environment = ''dev'',
      ts_records = [\<lparr>tr_descriptor = \<lparr>td_KeyID = ''hmac'', td_TopicKeyEpoch = 681, td_NotBefore = example_day 1, td_NotAfter = example_day 9\<rparr>,
        tr_key = replicate 32 (CHR ''k''), tr_retireAt = zero_time, tr_hardRetireAt = zero_time\<rparr>],
      ts_retireEpoch = 0, ts_retireAt = zero_time, ts_retireTimer = None, ts_recheck = second, ts_retired = None, ts_closed = False\<rparr>"

text \<open>A set of a key of period 681 started on its first day, of which a binding is asked two periods later with the wall clock set back.\<close>

theorem topic_secret_erased_witness:
  "ts_records (startRetirement (\<lambda>_. 0) (example_day 1) example_topic_set) \<noteq> [] \<and>
   ts_records (topic_run [(\<lambda>_. 60 * 24 * hour, Op_Binding [] 681 (example_day 1) (example_day 1) True)]
     (startRetirement (\<lambda>_. 0) (example_day 1) example_topic_set)) = []"
proof -
  let ?s = "startRetirement (\<lambda>_. 0) (example_day 1) example_topic_set"
    and ?ops = "[(\<lambda>_. 60 * 24 * hour, Op_Binding [] 681 (example_day 1) (example_day 1) True)]"
  have fresh: "fresh_records example_topic_set" and z: "zero_time < (\<lambda>_. 0) (0 :: nat)"
    by (simp_all add: fresh_records_def example_topic_set_def zero_time_def duration_defs)
  have "ts_records ?s = map (initializeRetirementDeadlines (example_day 1) 0) (ts_records example_topic_set)"
    by (simp add: startRetirement_def example_topic_set_def)
      (subst scheduleRetirementLocked.simps, simp add: initializeRetirementDeadlines_def Let_def earliest_def earliest_step_def retirable_def
         TopicEpochBoundary_def example_day_1 time_sub_def topicPeriodSeconds_def zero_time_def duration_defs)
  then have held: "ts_records ?s \<noteq> []" "list_all (\<lambda>r. tr_epoch r = 681) (ts_records ?s)"
    by (simp_all add: example_topic_set_def initializeRetirementDeadlines_def Let_def)
  have "held_ok (hard_deadline (example_day 1) 0) (\<lambda>r. tr_epoch r = 681) ?s"
    using startRetirement_sets [OF fresh z, of "example_day 1"] held(2)
    by (simp add: held_ok_def list_all_iff startRetirement_def retirement_closed example_topic_set_def)
  from topic_run_held [OF this, of ?ops] have "\<forall>r\<in>set (ts_records (topic_run ?ops ?s)). tr_epoch r = 681"
    by (simp add: held_ok_def list_all_iff)
  moreover have "\<not> 60 * 24 * hour < hard_deadline (example_day 1) 0 681"
    by (simp add: hard_deadline_def topic_deadline_def TopicEpochBoundary_def example_day_1 time_sub_def topicPeriodSeconds_def duration_defs)
  ultimately have "r \<notin> set (ts_records (topic_run ?ops ?s))" for r
    using topic_secret_erased [OF fresh z, of r ?ops "example_day 1"] by auto
  then show ?thesis
    using held(1) by (metis list.set_intros(1) neq_Nil_conv)
qed


definition example_key_id :: bytes where
  "example_key_id = the (HMACKeyID (replicate 32 (CHR ''k'')))"

definition signed_topic_keyset :: object where
  "signed_topic_keyset =
     [(''commitment_keys'', AArray [AMap
        [(''purpose'', AString ''TOPIC''), (''key_id'', AString example_key_id), (''topic_key_epoch'', AUint32 681),
         (''not_before'', AString (format_wire (example_day 1))), (''not_after'', AString (format_wire (example_day 9)))]])]"

definition running_topic_set :: TopicKeySet where
  "running_topic_set = example_topic_set
     \<lparr>ts_records := [\<lparr>tr_descriptor = \<lparr>td_KeyID = example_key_id, td_TopicKeyEpoch = 681, td_NotBefore = example_day 1, td_NotAfter = example_day 9\<rparr>,
        tr_key = replicate 32 (CHR ''k''), tr_retireAt = topic_deadline 681, tr_hardRetireAt = hour\<rparr>],
      ts_retireTimer := Some second\<rparr>"


lemma b64_encode_indexed: "list_all (\<lambda>c. b64_index c \<noteq> None) (b64_encode s)"
  by (rule b64_encode_alphabet) simp



end
