(* ===== verification/Trust_Store.thy ===== *)
theory Trust_Store
  imports Trust_Keyset
begin

text \<open>
  The durable keyset store: \<open>A9KeysetStore\<close> of \<open>pkg/db/a9_store.go\<close> over the keyset tables of migration
  00012. A table is the list of its rows; a statement that violates a constraint of the migration fails. The
  transactions are serializable and hold an advisory lock for the environment, so each runs as one step on the
  tables; an attempt of a transaction may also fail without effect, with or without a serialization failure, or
  commit although an error is reported. The theory shows that the tables keep their constraints, that the
  high-water mark never goes back and the history is only appended to, that uncertainty is never left again,
  and that the store implements a register with three kinds of contents.
\<close>

section \<open>Tables\<close>

record accepted_row =
  ar_environment :: nat
  ar_sequence :: int
  ar_hash :: bytes
  ar_jcs :: bytes
  ar_root_key_id :: bytes
  ar_issued_at :: time
  ar_expires_at :: time

record online_row =
  onr_environment :: nat
  onr_sequence :: int
  onr_use :: nat
  onr_state :: nat
  onr_key_id :: bytes
  onr_public_key :: bytes
  onr_not_before :: time
  onr_not_after :: time

record commitment_row =
  cr_environment :: nat
  cr_sequence :: int
  cr_purpose :: nat
  cr_key_id :: bytes
  cr_epoch :: "int option"
  cr_not_before :: time
  cr_not_after :: time

record state_row =
  sr_environment :: nat
  sr_sequence :: int
  sr_hash :: "bytes option"
  sr_state :: nat
  sr_reason :: nat
  sr_expires_at :: "time option"
  sr_refreshed_at :: time

record keyset_db =
  kd_accepted :: "accepted_row list"
  kd_online :: "online_row list"
  kd_commitments :: "commitment_row list"
  kd_states :: "state_row list"

section \<open>The values of the store\<close>

record AcceptedKeyset =
  aks_Environment :: bytes
  aks_Sequence :: nat
  aks_ObjectHash :: bytes
  aks_CanonicalSignedObject :: bytes
  aks_IssuedAt :: time
  aks_ExpiresAt :: time
  aks_RootKeyID :: bytes
  aks_OnlineKeys :: "OnlineKey list"
  aks_CommitmentKeys :: "CommitmentKey list"

record KeysetState =
  kst_Environment :: bytes
  kst_Sequence :: nat
  kst_ObjectHash :: bytes
  kst_ExpiresAt :: time
  kst_Uncertain :: bool

definition zeroKeysetState :: KeysetState where
  "zeroKeysetState = \<lparr>kst_Environment = [], kst_Sequence = 0, kst_ObjectHash = [], kst_ExpiresAt = zero_time, kst_Uncertain = False\<rparr>"

datatype store_error = ErrKeysetRejected | errA9DatabaseUnavailable

definition a9SafeIntegerMaximum :: nat where "a9SafeIntegerMaximum = 9007199254740991"
definition a9SerializableAttempts :: nat where "a9SerializableAttempts = 5"
definition a9KeysetStateCurrent :: nat where "a9KeysetStateCurrent = 1"
definition a9KeysetStateUncertain :: nat where "a9KeysetStateUncertain = 2"
definition a9UncertaintyKeyState :: nat where "a9UncertaintyKeyState = 1"
definition a9UncertaintyRollback :: nat where "a9UncertaintyRollback = 2"
definition a9UncertaintyRotation :: nat where "a9UncertaintyRotation = 3"

definition a9EnvironmentID :: "bytes \<Rightarrow> nat option" where
  "a9EnvironmentID environment = (if environment = ''dev'' then Some 1 else if environment = ''production'' then Some 2 else None)"

definition a9OnlineUseCode :: "bytes \<Rightarrow> nat option" where
  "a9OnlineUseCode use = (if use = ''A9_CONTROL'' then Some 1 else if use = ''SERVICE_AUTH'' then Some 2 else None)"

definition a9OnlineStateCode :: "bytes \<Rightarrow> nat option" where
  "a9OnlineStateCode state = (if state = ''SIGN'' then Some 1 else if state = ''VERIFY_ONLY'' then Some 2 else None)"

definition a9CommitmentPurposeCode :: "bytes \<Rightarrow> nat option" where
  "a9CommitmentPurposeCode purpose =
     (if purpose = ''ROSTER'' then Some 1 else if purpose = ''TUPLE'' then Some 2 else if purpose = ''TOPIC'' then Some 3 else None)"

definition a9UncertaintyReason :: "bytes \<Rightarrow> nat" where
  "a9UncertaintyReason reason =
     (if reason = ''KEYSET_ROLLBACK'' then a9UncertaintyRollback
      else if reason = ''ONLINE_ROTATION'' then a9UncertaintyRotation else a9UncertaintyKeyState)"

section \<open>Validation of a candidate\<close>

definition a9ObjectString :: "object \<Rightarrow> bytes \<Rightarrow> bytes" where
  "a9ObjectString obj field = (case lookup obj field of AString s \<Rightarrow> s | _ \<Rightarrow> [])"

definition a9ObjectUint :: "object \<Rightarrow> bytes \<Rightarrow> nat" where
  "a9ObjectUint obj field =
     (case lookup obj field of
        ANumber s \<Rightarrow> (case parse_uint s of None \<Rightarrow> 0 | Some n \<Rightarrow> if n > a9SafeIntegerMaximum then 0 else n)
      | _ \<Rightarrow> 0)"

definition parseA9WireTime :: "bytes \<Rightarrow> time option" where
  "parseA9WireTime v =
     (if length v \<noteq> 24 then None
      else (case parse_wire v of None \<Rightarrow> None | Some t \<Rightarrow> if format_wire t \<noteq> v then None else Some t))"

definition decodeA9Base64URL :: "bytes \<Rightarrow> nat \<Rightarrow> bytes option" where
  "decodeA9Base64URL v width =
     (case b64_decode_loose v of
        None \<Rightarrow> None
      | Some d \<Rightarrow> if length d \<noteq> width \<or> b64_encode d \<noteq> v then None else Some d)"

definition decodeA9LowerHex :: "bytes \<Rightarrow> bytes \<Rightarrow> bytes option" where
  "decodeA9LowerHex v prefix =
     (if \<not> hasPrefix v prefix then None
      else let raw = trimPrefix v prefix in
        if length raw \<noteq> 64 \<or> map ascii_lower raw \<noteq> raw then None
        else (case hex_decode raw of
           None \<Rightarrow> None
         | Some d \<Rightarrow> if length d \<noteq> 32 \<or> hex_encode d \<noteq> raw then None else Some d))"

definition decodeA9BareHash :: "bytes \<Rightarrow> bytes option" where
  "decodeA9BareHash v = decodeA9LowerHex v []"

definition sameA9TopicEpoch :: "uint32 option \<Rightarrow> uint32 option \<Rightarrow> bool" where
  "sameA9TopicEpoch left right \<longleftrightarrow>
     (case (left, right) of (Some l, Some r) \<Rightarrow> l = r | _ \<Rightarrow> left = None \<and> right = None)"

definition parseA9CanonicalObject :: "bytes \<Rightarrow> object option" where
  "parseA9CanonicalObject raw =
     (case ParseStrictJSON raw of
        Inl _ \<Rightarrow> None
      | Inr v \<Rightarrow>
          (case Canonicalize v of
             Inl _ \<Rightarrow> None
           | Inr canonical \<Rightarrow>
               if canonical \<noteq> raw then None else (case v of AMap obj \<Rightarrow> Some obj | _ \<Rightarrow> None)))"

record a9ValidatedOnlineKey =
  vo_use :: nat
  vo_state :: nat
  vo_keyID :: bytes
  vo_publicKey :: bytes
  vo_notBefore :: time
  vo_notAfter :: time

record a9ValidatedCommitmentKey =
  vc_purpose :: nat
  vc_keyID :: bytes
  vc_topicKeyEpoch :: "int option"
  vc_notBefore :: time
  vc_notAfter :: time

record a9ValidatedCandidate =
  vd_environmentID :: nat
  vd_objectHash :: bytes
  vd_rootKeyID :: bytes
  vd_object :: object
  vd_online :: "a9ValidatedOnlineKey list"
  vd_commitments :: "a9ValidatedCommitmentKey list"

definition validateA9OnlineKey :: "bytes list \<Rightarrow> any \<Rightarrow> OnlineKey \<Rightarrow> a9ValidatedOnlineKey option" where
  "validateA9OnlineKey seen item expectedKey = (case item of
     AMap obj \<Rightarrow>
       let keyID = a9ObjectString obj ''key_id''; use = a9ObjectString obj ''use''; state = a9ObjectString obj ''state'' in
       (case decodeA9Base64URL (a9ObjectString obj ''public_key_base64url'') 32 of
          None \<Rightarrow> None
        | Some publicKey \<Rightarrow>
       (case parseA9WireTime (a9ObjectString obj ''not_before'') of
          None \<Rightarrow> None
        | Some notBefore \<Rightarrow>
       (case parseA9WireTime (a9ObjectString obj ''not_after'') of
          None \<Rightarrow> None
        | Some notAfter \<Rightarrow>
            if \<not> notAfter > notBefore then None
            else
       (case decodeA9LowerHex keyID ''ed25519-sha256:'' of
          None \<Rightarrow> None
        | Some keyIDBytes \<Rightarrow>
            if Ed25519KeyID publicKey \<noteq> Some keyID then None
            else
       (case a9OnlineUseCode use of
          None \<Rightarrow> None
        | Some useCode \<Rightarrow>
       (case a9OnlineStateCode state of
          None \<Rightarrow> None
        | Some stateCode \<Rightarrow>
            if keyID \<in> set seen then None
            else if ok_KeyID expectedKey \<noteq> keyID \<or> ok_Use expectedKey \<noteq> use \<or> ok_State expectedKey \<noteq> state \<or>
              ok_PublicKey expectedKey \<noteq> publicKey \<or> ok_NotBefore expectedKey \<noteq> notBefore \<or> ok_NotAfter expectedKey \<noteq> notAfter
            then None
            else Some \<lparr>vo_use = useCode, vo_state = stateCode, vo_keyID = keyIDBytes, vo_publicKey = publicKey,
                       vo_notBefore = notBefore, vo_notAfter = notAfter\<rparr>))))))
   | _ \<Rightarrow> None)"

fun online_key_loop :: "bytes list \<Rightarrow> any list \<Rightarrow> OnlineKey list \<Rightarrow> a9ValidatedOnlineKey list option" where
  "online_key_loop seen (item # items) (key # keys) =
     (case validateA9OnlineKey seen item key of
        None \<Rightarrow> None
      | Some v \<Rightarrow> map_option ((#) v) (online_key_loop (ok_KeyID key # seen) items keys))"
| "online_key_loop seen items keys = Some []"

definition validateA9OnlineKeys :: "any \<Rightarrow> OnlineKey list \<Rightarrow> a9ValidatedOnlineKey list option" where
  "validateA9OnlineKeys raw expected = (case raw of
     AArray items \<Rightarrow> if length items \<noteq> length expected then None else online_key_loop [] items expected
   | _ \<Rightarrow> None)"

definition a9TopicEpoch :: "any \<Rightarrow> nat option option" where
  "a9TopicEpoch v = (case v of
     ANil \<Rightarrow> Some None
   | ANumber s \<Rightarrow> (case parse_uint s of None \<Rightarrow> None | Some n \<Rightarrow> if n > 2 ^ 32 - 1 \<or> n = 0 then None else Some (Some n))
   | _ \<Rightarrow> None)"

definition validateA9CommitmentKey :: "bytes list \<Rightarrow> any \<Rightarrow> CommitmentKey \<Rightarrow> a9ValidatedCommitmentKey option" where
  "validateA9CommitmentKey seen item expectedKey = (case item of
     AMap obj \<Rightarrow>
       let purpose = a9ObjectString obj ''purpose''; keyID = a9ObjectString obj ''key_id'' in
       (case decodeA9LowerHex keyID ''hmac-sha256:'' of
          None \<Rightarrow> None
        | Some keyIDBytes \<Rightarrow>
       (case a9CommitmentPurposeCode purpose of
          None \<Rightarrow> None
        | Some purposeCode \<Rightarrow>
       (case a9TopicEpoch (lookup obj ''topic_key_epoch'') of
          None \<Rightarrow> None
        | Some epoch \<Rightarrow>
            if (purpose = ''TOPIC'') \<noteq> (epoch \<noteq> None) then None
            else
       (case parseA9WireTime (a9ObjectString obj ''not_before'') of
          None \<Rightarrow> None
        | Some notBefore \<Rightarrow>
       (case parseA9WireTime (a9ObjectString obj ''not_after'') of
          None \<Rightarrow> None
        | Some notAfter \<Rightarrow>
            if \<not> notAfter > notBefore then None
            else if keyID \<in> set seen then None
            else if ck_KeyID expectedKey \<noteq> keyID \<or> ck_Purpose expectedKey \<noteq> purpose \<or>
              \<not> sameA9TopicEpoch (ck_TopicKeyEpoch expectedKey) (map_option word_of_nat epoch) \<or>
              ck_NotBefore expectedKey \<noteq> notBefore \<or> ck_NotAfter expectedKey \<noteq> notAfter
            then None
            else Some \<lparr>vc_purpose = purposeCode, vc_keyID = keyIDBytes, vc_topicKeyEpoch = map_option int epoch,
                       vc_notBefore = notBefore, vc_notAfter = notAfter\<rparr>)))))
   | _ \<Rightarrow> None)"

fun commitment_key_loop :: "bytes list \<Rightarrow> any list \<Rightarrow> CommitmentKey list \<Rightarrow> a9ValidatedCommitmentKey list option" where
  "commitment_key_loop seen (item # items) (key # keys) =
     (case validateA9CommitmentKey seen item key of
        None \<Rightarrow> None
      | Some v \<Rightarrow> map_option ((#) v) (commitment_key_loop (ck_KeyID key # seen) items keys))"
| "commitment_key_loop seen items keys = Some []"

definition validateA9CommitmentKeys :: "any \<Rightarrow> CommitmentKey list \<Rightarrow> a9ValidatedCommitmentKey list option" where
  "validateA9CommitmentKeys raw expected = (case raw of
     AArray items \<Rightarrow> if length items \<noteq> length expected then None else commitment_key_loop [] items expected
   | _ \<Rightarrow> None)"

definition candidate_fields_ok :: "AcceptedKeyset \<Rightarrow> bool" where
  "candidate_fields_ok candidate \<longleftrightarrow>
     \<not> (aks_Sequence candidate = 0 \<or> aks_Sequence candidate > a9SafeIntegerMaximum \<or> aks_IssuedAt candidate = zero_time \<or>
        aks_ExpiresAt candidate = zero_time \<or> \<not> aks_ExpiresAt candidate > aks_IssuedAt candidate \<or>
        time_sub (aks_ExpiresAt candidate) (aks_IssuedAt candidate) > 24 * hour \<or>
        length (aks_CanonicalSignedObject candidate) = 0 \<or> length (aks_CanonicalSignedObject candidate) > 262144)"

definition validateA9AcceptedKeyset :: "AcceptedKeyset \<Rightarrow> a9ValidatedCandidate option" where
  "validateA9AcceptedKeyset candidate =
     (case a9EnvironmentID (aks_Environment candidate) of
        None \<Rightarrow> None
      | Some environmentID \<Rightarrow>
          if \<not> candidate_fields_ok candidate then None
          else
     (case parseA9CanonicalObject (aks_CanonicalSignedObject candidate) of
        None \<Rightarrow> None
      | Some obj \<Rightarrow>
          if SHA256LowerHex (aks_CanonicalSignedObject candidate) \<noteq> aks_ObjectHash candidate \<or>
             a9ObjectString obj ''environment'' \<noteq> aks_Environment candidate \<or>
             a9ObjectUint obj ''keyset_sequence'' \<noteq> aks_Sequence candidate \<or>
             a9ObjectString obj ''root_signing_key_id'' \<noteq> aks_RootKeyID candidate
          then None
          else if parseA9WireTime (a9ObjectString obj ''issued_at'') \<noteq> Some (aks_IssuedAt candidate) then None
          else if parseA9WireTime (a9ObjectString obj ''expires_at'') \<noteq> Some (aks_ExpiresAt candidate) then None
          else
     (case decodeA9LowerHex (aks_ObjectHash candidate) [] of
        None \<Rightarrow> None
      | Some objectHash \<Rightarrow>
     (case decodeA9LowerHex (aks_RootKeyID candidate) ''ed25519-sha256:'' of
        None \<Rightarrow> None
      | Some rootKeyID \<Rightarrow>
     (case validateA9OnlineKeys (lookup obj ''keys'') (aks_OnlineKeys candidate) of
        None \<Rightarrow> None
      | Some online \<Rightarrow>
     (case validateA9CommitmentKeys (lookup obj ''commitment_keys'') (aks_CommitmentKeys candidate) of
        None \<Rightarrow> None
      | Some commitments \<Rightarrow>
          Some \<lparr>vd_environmentID = environmentID, vd_objectHash = objectHash, vd_rootKeyID = rootKeyID, vd_object = obj,
                vd_online = online, vd_commitments = commitments\<rparr>))))))"

section \<open>Statements\<close>

text \<open>A statement that fails reports whether its error is one that a new attempt may clear.\<close>

type_synonym 'a stmt = "bool + 'a"

definition accepted_row_ok :: "accepted_row \<Rightarrow> bool" where
  "accepted_row_ok r \<longleftrightarrow> ar_environment r \<in> {1, 2} \<and> 1 \<le> ar_sequence r \<and> ar_sequence r \<le> 9007199254740991 \<and>
     length (ar_hash r) = 32 \<and> 1 \<le> length (ar_jcs r) \<and> length (ar_jcs r) \<le> 262144 \<and> length (ar_root_key_id r) = 32 \<and>
     ar_expires_at r > ar_issued_at r \<and> ar_expires_at r \<le> ar_issued_at r + 24 * hour"

definition insert_accepted :: "accepted_row \<Rightarrow> keyset_db \<Rightarrow> keyset_db stmt" where
  "insert_accepted r db =
     (if \<not> accepted_row_ok r then Inl False
      else if list_ex (\<lambda>x. ar_environment x = ar_environment r \<and> ar_sequence x = ar_sequence r) (kd_accepted db) then Inl True
      else if list_ex (\<lambda>x. ar_environment x = ar_environment r \<and> ar_hash x = ar_hash r) (kd_accepted db) then Inl False
      else Inr (db\<lparr>kd_accepted := kd_accepted db @ [r]\<rparr>))"

definition online_row_ok :: "online_row \<Rightarrow> bool" where
  "online_row_ok r \<longleftrightarrow> onr_environment r \<in> {1, 2} \<and> 1 \<le> onr_sequence r \<and> onr_sequence r \<le> 9007199254740991 \<and>
     onr_use r \<in> {1, 2} \<and> onr_state r \<in> {1, 2} \<and> length (onr_key_id r) = 32 \<and> length (onr_public_key r) = 32 \<and>
     onr_not_after r > onr_not_before r"

definition same_online_set :: "online_row \<Rightarrow> online_row \<Rightarrow> bool" where
  "same_online_set r x \<longleftrightarrow> onr_environment x = onr_environment r \<and> onr_sequence x = onr_sequence r"

definition insert_online :: "online_row \<Rightarrow> keyset_db \<Rightarrow> keyset_db stmt" where
  "insert_online r db =
     (if \<not> online_row_ok r then Inl False
      else if list_ex (\<lambda>x. same_online_set r x \<and> onr_key_id x = onr_key_id r) (kd_online db) then Inl False
      else if onr_state r = 1 \<and> list_ex (\<lambda>x. same_online_set r x \<and> onr_use x = onr_use r \<and> onr_state x = 1) (kd_online db) then Inl False
      else if \<not> list_ex (\<lambda>x. ar_environment x = onr_environment r \<and> ar_sequence x = onr_sequence r) (kd_accepted db) then Inl False
      else Inr (db\<lparr>kd_online := kd_online db @ [r]\<rparr>))"

definition commitment_row_ok :: "commitment_row \<Rightarrow> bool" where
  "commitment_row_ok r \<longleftrightarrow> cr_environment r \<in> {1, 2} \<and> 1 \<le> cr_sequence r \<and> cr_sequence r \<le> 9007199254740991 \<and>
     cr_purpose r \<in> {1, 2, 3} \<and> length (cr_key_id r) = 32 \<and> cr_not_after r > cr_not_before r \<and>
     (cr_purpose r \<in> {1, 2} \<and> cr_epoch r = None \<or>
      cr_purpose r = 3 \<and> (case cr_epoch r of None \<Rightarrow> False | Some e \<Rightarrow> 1 \<le> e \<and> e \<le> 4294967295))"

definition insert_commitment :: "commitment_row \<Rightarrow> keyset_db \<Rightarrow> keyset_db stmt" where
  "insert_commitment r db =
     (if \<not> commitment_row_ok r then Inl False
      else if list_ex (\<lambda>x. cr_environment x = cr_environment r \<and> cr_sequence x = cr_sequence r \<and> cr_key_id x = cr_key_id r)
                (kd_commitments db) then Inl False
      else if \<not> list_ex (\<lambda>x. ar_environment x = cr_environment r \<and> ar_sequence x = cr_sequence r) (kd_accepted db) then Inl False
      else Inr (db\<lparr>kd_commitments := kd_commitments db @ [r]\<rparr>))"

definition state_row_ok :: "state_row \<Rightarrow> bool" where
  "state_row_ok r \<longleftrightarrow> sr_environment r \<in> {1, 2} \<and> 0 \<le> sr_sequence r \<and> sr_sequence r \<le> 9007199254740991 \<and>
     (sr_state r = 1 \<and> 1 \<le> sr_sequence r \<and> (case sr_hash r of None \<Rightarrow> False | Some h \<Rightarrow> length h = 32) \<and> sr_expires_at r \<noteq> None \<and>
        sr_reason r = 0 \<or>
      sr_state r = 2 \<and> 1 \<le> sr_reason r \<and> sr_reason r \<le> 16 \<and>
        (sr_sequence r = 0 \<and> sr_hash r = None \<and> sr_expires_at r = None \<or>
         1 \<le> sr_sequence r \<and> (case sr_hash r of None \<Rightarrow> False | Some h \<Rightarrow> length h = 32) \<and> sr_expires_at r \<noteq> None))"

text \<open>The foreign key of the state row, which a null hash satisfies.\<close>

definition state_refers :: "accepted_row list \<Rightarrow> state_row \<Rightarrow> bool" where
  "state_refers accepted r \<longleftrightarrow> (case sr_hash r of
     None \<Rightarrow> True
   | Some h \<Rightarrow> list_ex (\<lambda>x. ar_environment x = sr_environment r \<and> ar_sequence x = sr_sequence r \<and> ar_hash x = h) accepted)"

definition insert_state :: "state_row \<Rightarrow> keyset_db \<Rightarrow> keyset_db stmt" where
  "insert_state r db =
     (if \<not> state_row_ok r \<or> \<not> state_refers (kd_accepted db) r then Inl False
      else if list_ex (\<lambda>x. sr_environment x = sr_environment r) (kd_states db) then Inl True
      else Inr (db\<lparr>kd_states := kd_states db @ [r]\<rparr>))"

text \<open>An update of the state rows that satisfy a condition, with the number of rows.\<close>

definition update_state :: "(state_row \<Rightarrow> bool) \<Rightarrow> (state_row \<Rightarrow> state_row) \<Rightarrow> keyset_db \<Rightarrow> (keyset_db \<times> nat) stmt" where
  "update_state cond f db =
     (let rows = map (\<lambda>r. if cond r then f r else r) (kd_states db) in
      if \<not> list_all (\<lambda>r. state_row_ok r \<and> state_refers (kd_accepted db) r) rows then Inl False
      else Inr (db\<lparr>kd_states := rows\<rparr>, length (filter cond (kd_states db))))"

section \<open>Reading the state\<close>

datatype 'a read = NoRows | ReadFailed | Row 'a

text \<open>The state row joined with the text of the accepted keyset it names.\<close>

definition joined_jcs :: "keyset_db \<Rightarrow> state_row \<Rightarrow> bytes option" where
  "joined_jcs db r = map_option ar_jcs (find (\<lambda>x. ar_environment x = sr_environment r \<and> ar_sequence x = sr_sequence r \<and>
     Some (ar_hash x) = sr_hash r) (kd_accepted db))"

definition scanA9KeysetState :: "bytes \<Rightarrow> state_row \<Rightarrow> bytes option \<Rightarrow> (KeysetState \<times> bytes) read" where
  "scanA9KeysetState environment r canonical =
     (if sr_sequence r < 0 \<or> nat (sr_sequence r) > a9SafeIntegerMaximum \<or>
         (sr_state r \<noteq> a9KeysetStateCurrent \<and> sr_state r \<noteq> a9KeysetStateUncertain) then ReadFailed
      else
        let result = zeroKeysetState\<lparr>kst_Environment := environment, kst_Sequence := nat (sr_sequence r),
              kst_Uncertain := (sr_state r = a9KeysetStateUncertain)\<rparr> in
        if sr_sequence r = 0 then
          (if sr_state r \<noteq> a9KeysetStateUncertain \<or> length (case sr_hash r of None \<Rightarrow> [] | Some h \<Rightarrow> h) \<noteq> 0 \<or> sr_expires_at r \<noteq> None \<or>
              length (case canonical of None \<Rightarrow> [] | Some c \<Rightarrow> c) \<noteq> 0 then ReadFailed
           else Row (result, []))
        else
          (case (sr_hash r, sr_expires_at r, canonical) of
             (Some h, Some expiresAt, Some c) \<Rightarrow>
               if length h \<noteq> 32 \<or> length c = 0 then ReadFailed
               else Row (result\<lparr>kst_ObjectHash := hex_encode h, kst_ExpiresAt := expiresAt\<rparr>, c)
           | _ \<Rightarrow> ReadFailed))"

definition readA9KeysetStateForUpdate :: "bytes \<Rightarrow> nat \<Rightarrow> keyset_db \<Rightarrow> (KeysetState \<times> bytes) read" where
  "readA9KeysetStateForUpdate environment environmentID db =
     (case find (\<lambda>r. sr_environment r = environmentID) (kd_states db) of
        None \<Rightarrow> NoRows
      | Some r \<Rightarrow> scanA9KeysetState environment r (joined_jcs db r))"

section \<open>Changing the state\<close>

definition latchA9KeysetStateTx :: "time \<Rightarrow> KeysetState \<Rightarrow> nat \<Rightarrow> nat \<Rightarrow> keyset_db \<Rightarrow> (keyset_db \<times> KeysetState) stmt" where
  "latchA9KeysetStateTx now current environmentID reason db =
     (case update_state (\<lambda>r. sr_environment r = environmentID \<and> sr_state r = 1)
             (\<lambda>r. r\<lparr>sr_state := 2, sr_reason := reason, sr_refreshed_at := now\<rparr>) db of
        Inl e \<Rightarrow> Inl e
      | Inr (db', rows) \<Rightarrow> if rows \<noteq> 1 then Inl False else Inr (db', current\<lparr>kst_Uncertain := True\<rparr>))"

definition current_row :: "nat \<Rightarrow> KeysetState \<Rightarrow> state_row \<Rightarrow> bool" where
  "current_row environmentID current r \<longleftrightarrow>
     sr_environment r = environmentID \<and> sr_sequence r = int (kst_Sequence current) \<and>
     sr_hash r \<noteq> None \<and> sr_hash r = decodeA9BareHash (kst_ObjectHash current) \<and> sr_state r = 1"

definition refreshA9KeysetStateTx :: "time \<Rightarrow> KeysetState \<Rightarrow> nat \<Rightarrow> keyset_db \<Rightarrow> keyset_db stmt" where
  "refreshA9KeysetStateTx now current environmentID db =
     (case update_state (current_row environmentID current) (\<lambda>r. r\<lparr>sr_refreshed_at := now\<rparr>) db of
        Inl e \<Rightarrow> Inl e
      | Inr (db', rows) \<Rightarrow> if rows \<noteq> 1 then Inl False else Inr db')"

fun insert_all :: "('a \<Rightarrow> keyset_db \<Rightarrow> keyset_db stmt) \<Rightarrow> 'a list \<Rightarrow> keyset_db \<Rightarrow> keyset_db stmt" where
  "insert_all ins [] db = Inr db"
| "insert_all ins (r # rs) db = (case ins r db of Inl e \<Rightarrow> Inl e | Inr db' \<Rightarrow> insert_all ins rs db')"

definition accepted_of :: "AcceptedKeyset \<Rightarrow> a9ValidatedCandidate \<Rightarrow> accepted_row" where
  "accepted_of candidate validated =
     \<lparr>ar_environment = vd_environmentID validated, ar_sequence = int (aks_Sequence candidate), ar_hash = vd_objectHash validated,
      ar_jcs = aks_CanonicalSignedObject candidate, ar_root_key_id = vd_rootKeyID validated,
      ar_issued_at = aks_IssuedAt candidate, ar_expires_at = aks_ExpiresAt candidate\<rparr>"

definition online_of :: "AcceptedKeyset \<Rightarrow> a9ValidatedCandidate \<Rightarrow> a9ValidatedOnlineKey \<Rightarrow> online_row" where
  "online_of candidate validated key =
     \<lparr>onr_environment = vd_environmentID validated, onr_sequence = int (aks_Sequence candidate), onr_use = vo_use key,
      onr_state = vo_state key, onr_key_id = vo_keyID key, onr_public_key = vo_publicKey key,
      onr_not_before = vo_notBefore key, onr_not_after = vo_notAfter key\<rparr>"

definition commitment_of :: "AcceptedKeyset \<Rightarrow> a9ValidatedCandidate \<Rightarrow> a9ValidatedCommitmentKey \<Rightarrow> commitment_row" where
  "commitment_of candidate validated key =
     \<lparr>cr_environment = vd_environmentID validated, cr_sequence = int (aks_Sequence candidate), cr_purpose = vc_purpose key,
      cr_key_id = vc_keyID key, cr_epoch = vc_topicKeyEpoch key, cr_not_before = vc_notBefore key, cr_not_after = vc_notAfter key\<rparr>"

definition appendA9KeysetTx ::
    "time \<Rightarrow> AcceptedKeyset \<Rightarrow> a9ValidatedCandidate \<Rightarrow> KeysetState \<Rightarrow> bool \<Rightarrow> keyset_db \<Rightarrow> keyset_db stmt" where
  "appendA9KeysetTx now candidate validated current hasCurrent db =
     (case insert_accepted (accepted_of candidate validated) db of
        Inl e \<Rightarrow> Inl e
      | Inr db1 \<Rightarrow>
     (case insert_all insert_online (map (online_of candidate validated) (vd_online validated)) db1 of
        Inl e \<Rightarrow> Inl e
      | Inr db2 \<Rightarrow>
     (case insert_all insert_commitment (map (commitment_of candidate validated) (vd_commitments validated)) db2 of
        Inl e \<Rightarrow> Inl e
      | Inr db3 \<Rightarrow>
          if \<not> hasCurrent then
            insert_state \<lparr>sr_environment = vd_environmentID validated, sr_sequence = int (aks_Sequence candidate),
              sr_hash = Some (vd_objectHash validated), sr_state = 1, sr_reason = 0,
              sr_expires_at = Some (aks_ExpiresAt candidate), sr_refreshed_at = now\<rparr> db3
          else
            (case update_state (current_row (vd_environmentID validated) current)
                    (\<lambda>r. r\<lparr>sr_sequence := int (aks_Sequence candidate), sr_hash := Some (vd_objectHash validated), sr_state := 1,
                       sr_reason := 0, sr_expires_at := Some (aks_ExpiresAt candidate), sr_refreshed_at := now\<rparr>) db3 of
               Inl e \<Rightarrow> Inl e
             | Inr (db4, rows) \<Rightarrow> if rows \<noteq> 1 then Inl False else Inr db4))))"

section \<open>Transactions\<close>

text \<open>A transaction that commits gives the tables, the state and whether the candidate was rejected.\<close>

definition rejecting :: "(keyset_db \<times> KeysetState) stmt \<Rightarrow> (keyset_db \<times> KeysetState \<times> bool) stmt" where
  "rejecting r = (case r of Inl e \<Rightarrow> Inl e | Inr (db, state) \<Rightarrow> Inr (db, state, True))"

definition rotation_ok :: "bytes \<Rightarrow> object \<Rightarrow> bool" where
  "rotation_ok previousCanonical obj \<longleftrightarrow>
     (case parseA9CanonicalObject previousCanonical of
        None \<Rightarrow> False
      | Some previous \<Rightarrow> IsEligible (ValidateOnlineRotation previous obj))"

definition accepted_state :: "AcceptedKeyset \<Rightarrow> KeysetState" where
  "accepted_state candidate =
     \<lparr>kst_Environment = aks_Environment candidate, kst_Sequence = aks_Sequence candidate, kst_ObjectHash = aks_ObjectHash candidate,
      kst_ExpiresAt = aks_ExpiresAt candidate, kst_Uncertain = False\<rparr>"

definition append_result :: "AcceptedKeyset \<Rightarrow> keyset_db stmt \<Rightarrow> (keyset_db \<times> KeysetState \<times> bool) stmt" where
  "append_result candidate r = (case r of Inl e \<Rightarrow> Inl e | Inr db \<Rightarrow> Inr (db, accepted_state candidate, False))"

definition acceptKeysetOnce ::
    "time \<Rightarrow> AcceptedKeyset \<Rightarrow> a9ValidatedCandidate \<Rightarrow> keyset_db \<Rightarrow> (keyset_db \<times> KeysetState \<times> bool) stmt" where
  "acceptKeysetOnce now candidate validated db =
     (case readA9KeysetStateForUpdate (aks_Environment candidate) (vd_environmentID validated) db of
        ReadFailed \<Rightarrow> Inl False
      | NoRows \<Rightarrow>
          append_result candidate (appendA9KeysetTx now candidate validated
            (zeroKeysetState\<lparr>kst_Environment := aks_Environment candidate\<rparr>) False db)
      | Row (current, previousCanonical) \<Rightarrow>
          if kst_Uncertain current then Inr (db, current, True)
          else if aks_Sequence candidate < kst_Sequence current \<or>
            (aks_Sequence candidate = kst_Sequence current \<and> aks_ObjectHash candidate \<noteq> kst_ObjectHash current)
          then rejecting (latchA9KeysetStateTx now current (vd_environmentID validated) a9UncertaintyRollback db)
          else if aks_Sequence candidate = kst_Sequence current then
            (if aks_ExpiresAt candidate \<noteq> kst_ExpiresAt current
             then rejecting (latchA9KeysetStateTx now current (vd_environmentID validated) a9UncertaintyRollback db)
             else (case refreshA9KeysetStateTx now current (vd_environmentID validated) db of
                Inl e \<Rightarrow> Inl e
              | Inr db' \<Rightarrow> Inr (db', current, False)))
          else if \<not> rotation_ok previousCanonical (vd_object validated)
          then rejecting (latchA9KeysetStateTx now current (vd_environmentID validated) a9UncertaintyRotation db)
          else append_result candidate (appendA9KeysetTx now candidate validated current True db))"

definition latchKeysetUncertaintyOnce :: "time \<Rightarrow> bytes \<Rightarrow> nat \<Rightarrow> nat \<Rightarrow> keyset_db \<Rightarrow> keyset_db stmt" where
  "latchKeysetUncertaintyOnce now environment environmentID reason db =
     (case readA9KeysetStateForUpdate environment environmentID db of
        ReadFailed \<Rightarrow> Inl False
      | NoRows \<Rightarrow>
          insert_state \<lparr>sr_environment = environmentID, sr_sequence = 0, sr_hash = None, sr_state = 2, sr_reason = reason,
            sr_expires_at = None, sr_refreshed_at = now\<rparr> db
      | Row (state, _) \<Rightarrow>
          if kst_Uncertain state then Inr db
          else (case latchA9KeysetStateTx now state environmentID reason db of Inl e \<Rightarrow> Inl e | Inr (db', _) \<Rightarrow> Inr db'))"

text \<open>
  What the connection does to one attempt: it runs; or the attempt fails without effect, with a serialization
  failure or another error; or it commits and an error is reported, which is never a serialization failure.
\<close>

datatype attempt = Runs | Fails bool | Lost

datatype 'a attempt_result = Done 'a | Retry | Stop

definition run_attempt :: "attempt \<Rightarrow> (keyset_db \<times> 'a) stmt \<Rightarrow> keyset_db \<Rightarrow> keyset_db \<times> 'a attempt_result" where
  "run_attempt a tx db =
     (case a of
        Fails serialization \<Rightarrow> (db, if serialization then Retry else Stop)
      | Runs \<Rightarrow> (case tx of Inl serialization \<Rightarrow> (db, if serialization then Retry else Stop) | Inr (db', x) \<Rightarrow> (db', Done x))
      | Lost \<Rightarrow> (case tx of Inl _ \<Rightarrow> (db, Stop) | Inr (db', x) \<Rightarrow> (db', Stop)))"

text \<open>The loop over the attempts; it gives None for the error of the store.\<close>

fun attempt_loop :: "nat \<Rightarrow> attempt list \<Rightarrow> (time \<Rightarrow> keyset_db \<Rightarrow> (keyset_db \<times> 'a) stmt) \<Rightarrow> (nat \<Rightarrow> time) \<Rightarrow> keyset_db \<Rightarrow> keyset_db \<times> 'a option" where
  "attempt_loop 0 attempts tx clock db = (db, None)"
| "attempt_loop (Suc n) attempts tx clock db =
     (case run_attempt (case attempts of [] \<Rightarrow> Runs | a # _ \<Rightarrow> a) (tx (clock n) db) db of
        (db', Done x) \<Rightarrow> (db', Some x)
      | (db', Stop) \<Rightarrow> (db', None)
      | (db', Retry) \<Rightarrow> if n = 0 then (db', None) else attempt_loop n (drop 1 attempts) tx clock db')"

record store_env =
  se_context_ok :: bool
  se_clock :: "nat \<Rightarrow> time"
  se_attempts :: "attempt list"

definition LatchKeysetUncertainty :: "store_env \<Rightarrow> bytes \<Rightarrow> bytes \<Rightarrow> keyset_db \<Rightarrow> keyset_db \<times> store_error option" where
  "LatchKeysetUncertainty env environment reason db =
     (case a9EnvironmentID environment of
        None \<Rightarrow> (db, Some errA9DatabaseUnavailable)
      | Some environmentID \<Rightarrow>
          if \<not> se_context_ok env then (db, Some errA9DatabaseUnavailable)
          else (case attempt_loop a9SerializableAttempts (se_attempts env)
                      (\<lambda>now d. case latchKeysetUncertaintyOnce now environment environmentID (a9UncertaintyReason reason) d of
                         Inl e \<Rightarrow> Inl e | Inr d' \<Rightarrow> Inr (d', ())) (se_clock env) db of
             (db', Some _) \<Rightarrow> (db', None)
           | (db', None) \<Rightarrow> (db', Some errA9DatabaseUnavailable)))"

definition AcceptKeyset :: "store_env \<Rightarrow> AcceptedKeyset \<Rightarrow> keyset_db \<Rightarrow> keyset_db \<times> KeysetState \<times> store_error option" where
  "AcceptKeyset env candidate db =
     (case validateA9AcceptedKeyset candidate of
        None \<Rightarrow>
          (if a9EnvironmentID (aks_Environment candidate) \<noteq> None then
             (case LatchKeysetUncertainty env (aks_Environment candidate) ''KEY_STATE'' db of
                (db', Some _) \<Rightarrow> (db', zeroKeysetState, Some errA9DatabaseUnavailable)
              | (db', None) \<Rightarrow> (db', zeroKeysetState, Some ErrKeysetRejected))
           else (db, zeroKeysetState, Some ErrKeysetRejected))
      | Some validated \<Rightarrow>
          if \<not> se_context_ok env then (db, zeroKeysetState, Some errA9DatabaseUnavailable)
          else (case attempt_loop a9SerializableAttempts (se_attempts env)
                      (\<lambda>now d. acceptKeysetOnce now candidate validated d) (se_clock env) db of
             (db', None) \<Rightarrow> (db', zeroKeysetState, Some errA9DatabaseUnavailable)
           | (db', Some (state, rejected)) \<Rightarrow> (db', state, if rejected then Some ErrKeysetRejected else None)))"

definition CurrentKeysetState :: "bool \<Rightarrow> bytes \<Rightarrow> keyset_db \<Rightarrow> store_error + KeysetState" where
  "CurrentKeysetState query_ok environment db =
     (case a9EnvironmentID environment of
        None \<Rightarrow> Inl errA9DatabaseUnavailable
      | Some environmentID \<Rightarrow>
          if \<not> query_ok then Inl errA9DatabaseUnavailable
          else (case readA9KeysetStateForUpdate environment environmentID db of
             Row (state, _) \<Rightarrow> Inr state
           | _ \<Rightarrow> Inl errA9DatabaseUnavailable))"

section \<open>The constraints of the tables\<close>

definition keyset_tables_ok :: "keyset_db \<Rightarrow> bool" where
  "keyset_tables_ok db \<longleftrightarrow>
     list_all accepted_row_ok (kd_accepted db) \<and>
     distinct (map (\<lambda>x. (ar_environment x, ar_sequence x)) (kd_accepted db)) \<and>
     distinct (map (\<lambda>x. (ar_environment x, ar_hash x)) (kd_accepted db)) \<and>
     list_all online_row_ok (kd_online db) \<and>
     distinct (map (\<lambda>x. (onr_environment x, onr_sequence x, onr_key_id x)) (kd_online db)) \<and>
     distinct (map (\<lambda>x. (onr_environment x, onr_sequence x, onr_use x)) (filter (\<lambda>x. onr_state x = 1) (kd_online db))) \<and>
     list_all commitment_row_ok (kd_commitments db) \<and>
     distinct (map (\<lambda>x. (cr_environment x, cr_sequence x, cr_key_id x)) (kd_commitments db)) \<and>
     list_all (\<lambda>r. state_row_ok r \<and> state_refers (kd_accepted db) r) (kd_states db) \<and>
     distinct (map sr_environment (kd_states db))"

lemma state_refers_append: "state_refers a r \<Longrightarrow> state_refers (a @ b) r"
  by (auto simp: state_refers_def split: option.splits)

lemma distinct_map_snoc: "distinct (map f (xs @ [r])) \<longleftrightarrow> distinct (map f xs) \<and> \<not> list_ex (\<lambda>x. f x = f r) xs"
  by (simp add: list_ex_iff image_iff) metis

lemma list_ex_filter: "list_ex P (filter Q xs) \<longleftrightarrow> list_ex (\<lambda>x. P x \<and> Q x) xs"
  by (auto simp: list_ex_iff)

lemma insert_accepted_ok:
  "insert_accepted r db = Inr db' \<Longrightarrow> keyset_tables_ok db \<Longrightarrow> keyset_tables_ok db' \<and>
     kd_states db' = kd_states db \<and> kd_accepted db' = kd_accepted db @ [r]"
  unfolding insert_accepted_def keyset_tables_ok_def
  by (auto simp del: map_append simp: distinct_map_snoc state_refers_append list_all_iff split: if_splits)

lemma insert_online_ok:
  "insert_online r db = Inr db' \<Longrightarrow> keyset_tables_ok db \<Longrightarrow> keyset_tables_ok db' \<and>
     kd_states db' = kd_states db \<and> kd_accepted db' = kd_accepted db"
  unfolding insert_online_def keyset_tables_ok_def same_online_set_def
  by (auto simp del: map_append simp: distinct_map_snoc list_ex_filter split: if_splits)

lemma insert_commitment_ok:
  "insert_commitment r db = Inr db' \<Longrightarrow> keyset_tables_ok db \<Longrightarrow> keyset_tables_ok db' \<and>
     kd_states db' = kd_states db \<and> kd_accepted db' = kd_accepted db"
  unfolding insert_commitment_def keyset_tables_ok_def
  by (auto simp del: map_append simp: distinct_map_snoc split: if_splits)

lemma insert_all_ok:
  assumes "\<And>r db db'. ins r db = Inr db' \<Longrightarrow> keyset_tables_ok db \<Longrightarrow> keyset_tables_ok db' \<and>
     kd_states db' = kd_states db \<and> kd_accepted db' = kd_accepted db"
  shows "insert_all ins rs db = Inr db' \<Longrightarrow> keyset_tables_ok db \<Longrightarrow> keyset_tables_ok db' \<and>
     kd_states db' = kd_states db \<and> kd_accepted db' = kd_accepted db"
proof (induction rs arbitrary: db)
  case (Cons r rs)
  then obtain d where d: "ins r db = Inr d" "insert_all ins rs d = Inr db'"
    by (auto split: sum.splits)
  from assms [OF d(1) Cons.prems(2)] Cons.IH [OF d(2)] show ?case
    by simp
qed simp

lemma insert_state_ok:
  "insert_state r db = Inr db' \<Longrightarrow> keyset_tables_ok db \<Longrightarrow> keyset_tables_ok db' \<and>
     kd_states db' = kd_states db @ [r] \<and> kd_accepted db' = kd_accepted db \<and> sr_environment r \<notin> sr_environment ` set (kd_states db)"
  unfolding insert_state_def keyset_tables_ok_def
  by (auto simp del: map_append simp: distinct_map_snoc list_ex_iff split: if_splits)

lemma update_state_ok:
  assumes "update_state cond f db = Inr (db', n)" and "keyset_tables_ok db" and "\<And>r. sr_environment (f r) = sr_environment r"
  shows "keyset_tables_ok db' \<and> kd_states db' = map (\<lambda>r. if cond r then f r else r) (kd_states db) \<and> kd_accepted db' = kd_accepted db \<and>
     n = length (filter cond (kd_states db))"
proof -
  have "map sr_environment (map (\<lambda>r. if cond r then f r else r) (kd_states db)) = map sr_environment (kd_states db)"
    using assms(3) by simp
  then show ?thesis
    using assms(1,2) by (auto simp: update_state_def Let_def keyset_tables_ok_def simp del: map_map split: if_splits)
qed

section \<open>The register of an environment\<close>

datatype trust_register = Unset | Holding nat bytes time bytes | Latched nat nat

definition state_of :: "nat \<Rightarrow> keyset_db \<Rightarrow> state_row option" where
  "state_of e db = find (\<lambda>r. sr_environment r = e) (kd_states db)"

definition register_row :: "keyset_db \<Rightarrow> state_row \<Rightarrow> trust_register" where
  "register_row db r =
     (if sr_state r = 2 then Latched (sr_reason r) (nat (sr_sequence r))
      else Holding (nat (sr_sequence r)) (hex_encode (the (sr_hash r))) (the (sr_expires_at r)) (the (joined_jcs db r)))"

definition register_of :: "nat \<Rightarrow> keyset_db \<Rightarrow> trust_register" where
  "register_of e db = (case state_of e db of None \<Rightarrow> Unset | Some r \<Rightarrow> register_row db r)"

lemma state_of_Some: "state_of e db = Some r \<Longrightarrow> r \<in> set (kd_states db) \<and> sr_environment r = e"
  by (auto simp: state_of_def find_Some_iff)

lemma state_of_iff:
  assumes "keyset_tables_ok db"
  shows "state_of e db = Some r \<longleftrightarrow> r \<in> set (kd_states db) \<and> sr_environment r = e"
proof
  assume r: "r \<in> set (kd_states db) \<and> sr_environment r = e"
  have "\<And>y. y \<in> set (kd_states db) \<Longrightarrow> sr_environment y = e \<Longrightarrow> y = r"
    using assms r by (auto simp: keyset_tables_ok_def intro: distinct_key [of sr_environment "kd_states db"])
  then show "state_of e db = Some r"
    using r by (simp add: state_of_def find_unique)
qed (rule state_of_Some)

lemma joined_jcs_iff:
  assumes "keyset_tables_ok db" and "sr_hash r = Some h"
  shows "joined_jcs db r = Some c \<longleftrightarrow> (\<exists>x\<in>set (kd_accepted db). ar_environment x = sr_environment r \<and> ar_sequence x = sr_sequence r \<and>
     ar_hash x = h \<and> ar_jcs x = c)"
proof -
  let ?P = "\<lambda>x. ar_environment x = sr_environment r \<and> ar_sequence x = sr_sequence r \<and> Some (ar_hash x) = sr_hash r"
  have u: "x = y" if "x \<in> set (kd_accepted db)" "y \<in> set (kd_accepted db)" "?P x" "?P y" for x y
    using assms(1) that by (intro distinct_key [of "\<lambda>x. (ar_environment x, ar_sequence x)" "kd_accepted db"]) (simp_all add: keyset_tables_ok_def)
  show ?thesis
  proof
    assume "joined_jcs db r = Some c"
    then obtain x where "find ?P (kd_accepted db) = Some x" "ar_jcs x = c"
      by (auto simp: joined_jcs_def)
    then show "\<exists>x\<in>set (kd_accepted db). ar_environment x = sr_environment r \<and> ar_sequence x = sr_sequence r \<and> ar_hash x = h \<and> ar_jcs x = c"
      using assms(2) by (auto simp: find_Some_iff)
  next
    assume "\<exists>x\<in>set (kd_accepted db). ar_environment x = sr_environment r \<and> ar_sequence x = sr_sequence r \<and> ar_hash x = h \<and> ar_jcs x = c"
    then obtain x where x: "x \<in> set (kd_accepted db)" "?P x" "ar_jcs x = c"
      using assms(2) by auto
    then have "find ?P (kd_accepted db) = Some x"
      using u by (intro find_unique) blast+
    then show "joined_jcs db r = Some c"
      using x(3) by (simp add: joined_jcs_def)
  qed
qed

lemma joined_jcs_kept:
  assumes "keyset_tables_ok db" and "keyset_tables_ok db'" and "kd_accepted db' = kd_accepted db @ a"
    and "r \<in> set (kd_states db)" and "sr_hash r = Some h"
  shows "joined_jcs db' r = joined_jcs db r"
proof -
  have "state_refers (kd_accepted db) r"
    using assms(1,4) by (simp add: keyset_tables_ok_def list_all_iff)
  then obtain c where c: "joined_jcs db r = Some c"
    using joined_jcs_iff [OF assms(1,5)] assms(5) by (auto simp: state_refers_def list_ex_iff)
  then have "joined_jcs db' r = Some c"
    using joined_jcs_iff [OF assms(1,5)] joined_jcs_iff [OF assms(2,5)] assms(3) by auto
  then show ?thesis
    using c by simp
qed

lemma current_hash: "state_row_ok r \<Longrightarrow> sr_state r \<noteq> 2 \<Longrightarrow> \<exists>h. sr_hash r = Some h \<and> length h = 32 \<and> (\<exists>t. sr_expires_at r = Some t) \<and> 1 \<le> sr_sequence r \<and> sr_state r = 1"
  by (auto simp: state_row_ok_def split: option.splits)

lemma register_row_kept:
  assumes "keyset_tables_ok db" and "keyset_tables_ok db'" and "kd_accepted db' = kd_accepted db @ a" and "r \<in> set (kd_states db)"
  shows "register_row db' r = register_row db r"
proof (cases "sr_state r = 2")
  case False
  then obtain h where "sr_hash r = Some h"
    using assms(1,4) current_hash [of r] by (auto simp: keyset_tables_ok_def list_all_iff)
  then show ?thesis
    using joined_jcs_kept [OF assms] by (simp add: register_row_def)
qed (simp add: register_row_def)

text \<open>What reading the state gives is the register.\<close>

lemma read_Holding:
  assumes "keyset_tables_ok db"
  shows "readA9KeysetStateForUpdate environment e db =
     (case register_of e db of
        Unset \<Rightarrow> NoRows
      | Holding s h t c \<Rightarrow> Row (\<lparr>kst_Environment = environment, kst_Sequence = s, kst_ObjectHash = h, kst_ExpiresAt = t, kst_Uncertain = False\<rparr>, c)
      | Latched _ _ \<Rightarrow> readA9KeysetStateForUpdate environment e db)"
    and "register_of e db = Latched reason s \<Longrightarrow> \<exists>st c. readA9KeysetStateForUpdate environment e db = Row (st, c) \<and>
        kst_Uncertain st \<and> kst_Sequence st = s \<and> kst_Environment st = environment"
proof -
  have row: "state_row_ok r \<and> state_refers (kd_accepted db) r" if "state_of e db = Some r" for r
    using assms state_of_Some [OF that] by (simp add: keyset_tables_ok_def list_all_iff)
  have jcs: "\<exists>c. joined_jcs db r = Some c \<and> c \<noteq> []" if r: "state_of e db = Some r" and h: "sr_hash r = Some h" for r h
  proof -
    obtain x where x: "x \<in> set (kd_accepted db)" "ar_environment x = sr_environment r" "ar_sequence x = sr_sequence r" "ar_hash x = h"
      using row [OF r] h by (auto simp: state_refers_def list_ex_iff)
    moreover have "ar_jcs x \<noteq> []"
      using assms x(1) by (auto simp: keyset_tables_ok_def list_all_iff accepted_row_ok_def)
    ultimately show ?thesis
      using joined_jcs_iff [OF assms h] by blast
  qed
  show "readA9KeysetStateForUpdate environment e db =
     (case register_of e db of
        Unset \<Rightarrow> NoRows
      | Holding s h t c \<Rightarrow> Row (\<lparr>kst_Environment = environment, kst_Sequence = s, kst_ObjectHash = h, kst_ExpiresAt = t, kst_Uncertain = False\<rparr>, c)
      | Latched _ _ \<Rightarrow> readA9KeysetStateForUpdate environment e db)"
  proof (cases "state_of e db")
    case None
    then show ?thesis
      by (simp add: readA9KeysetStateForUpdate_def register_of_def state_of_def)
  next
    case (Some r)
    show ?thesis
    proof (cases "sr_state r = 2")
      case False
      then obtain h t where r: "sr_hash r = Some h" "length h = 32" "sr_expires_at r = Some t" "1 \<le> sr_sequence r" "sr_state r = 1"
        using row [OF Some] current_hash by blast
      obtain c where "joined_jcs db r = Some c" "c \<noteq> []"
        using jcs [OF Some r(1)] by blast
      moreover have "sr_sequence r \<le> 9007199254740991"
        using row [OF Some] by (simp add: state_row_ok_def)
      ultimately show ?thesis
        using Some r by (simp add: readA9KeysetStateForUpdate_def register_of_def state_of_def register_row_def scanA9KeysetState_def Let_def
            a9SafeIntegerMaximum_def a9KeysetStateCurrent_def a9KeysetStateUncertain_def zeroKeysetState_def)
    qed (use Some in \<open>simp add: register_of_def register_row_def\<close>)
  qed
  assume l: "register_of e db = Latched reason s"
  then obtain r where r: "state_of e db = Some r" "sr_state r = 2" "s = nat (sr_sequence r)"
    by (auto simp: register_of_def register_row_def split: option.splits if_splits)
  then consider "sr_sequence r = 0" "sr_hash r = None" "sr_expires_at r = None"
    | h t where "1 \<le> sr_sequence r" "sr_sequence r \<le> 9007199254740991" "sr_hash r = Some h" "length h = 32" "sr_expires_at r = Some t"
    using row [OF r(1)] by (auto simp: state_row_ok_def split: option.splits)
  then show "\<exists>st c. readA9KeysetStateForUpdate environment e db = Row (st, c) \<and> kst_Uncertain st \<and> kst_Sequence st = s \<and> kst_Environment st = environment"
  proof cases
    case 1
    then have "joined_jcs db r = None"
      by (auto simp: joined_jcs_def find_None_iff)
    then show ?thesis
      using r 1 by (simp add: readA9KeysetStateForUpdate_def state_of_def scanA9KeysetState_def Let_def a9SafeIntegerMaximum_def
          a9KeysetStateCurrent_def a9KeysetStateUncertain_def zeroKeysetState_def)
  next
    case 2
    then obtain c where "joined_jcs db r = Some c" "c \<noteq> []"
      using jcs [OF r(1)] by blast
    then show ?thesis
      using r 2 by (simp add: readA9KeysetStateForUpdate_def state_of_def scanA9KeysetState_def Let_def a9SafeIntegerMaximum_def
          a9KeysetStateCurrent_def a9KeysetStateUncertain_def zeroKeysetState_def)
  qed
qed

section \<open>The specification: a register\<close>

definition holding_of :: "AcceptedKeyset \<Rightarrow> trust_register" where
  "holding_of c = Holding (aks_Sequence c) (aks_ObjectHash c) (aks_ExpiresAt c) (aks_CanonicalSignedObject c)"

fun spec_accept :: "AcceptedKeyset \<Rightarrow> object \<Rightarrow> trust_register \<Rightarrow> trust_register \<times> bool" where
  "spec_accept c obj Unset = (holding_of c, False)"
| "spec_accept c obj (Latched reason s) = (Latched reason s, True)"
| "spec_accept c obj (Holding s h t doc) =
     (if aks_Sequence c < s \<or> aks_Sequence c = s \<and> (aks_ObjectHash c \<noteq> h \<or> aks_ExpiresAt c \<noteq> t)
      then (Latched a9UncertaintyRollback s, True)
      else if aks_Sequence c = s then (Holding s h t doc, False)
      else if \<not> rotation_ok doc obj then (Latched a9UncertaintyRotation s, True)
      else (holding_of c, False))"

fun spec_latch :: "nat \<Rightarrow> trust_register \<Rightarrow> trust_register" where
  "spec_latch reason Unset = Latched reason 0"
| "spec_latch reason (Holding s h t doc) = Latched reason s"
| "spec_latch reason (Latched r s) = Latched r s"

section \<open>The statements on the register\<close>

lemma lower_fixed: "list_all is_lower_hex s \<Longrightarrow> map ascii_lower s = s"
  by (induction s) (auto simp: is_lower_hex_def ascii_lower_def)

lemma decodeA9LowerHex_hex: "length d = 32 \<Longrightarrow> decodeA9LowerHex (p @ hex_encode d) p = Some d"
  by (simp add: decodeA9LowerHex_def hasPrefix_def trimPrefix_def Let_def lower_fixed hex_encode_lower)

lemma decodeA9LowerHex_iff: "decodeA9LowerHex v p = Some d \<longleftrightarrow> v = p @ hex_encode d \<and> length d = 32"
proof
  assume a: "decodeA9LowerHex v p = Some d"
  then have "hasPrefix v p" "hex_encode d = trimPrefix v p" "length d = 32"
    by (auto simp: decodeA9LowerHex_def Let_def split: if_splits option.splits)
  then show "v = p @ hex_encode d \<and> length d = 32"
    by (auto simp: hasPrefix_def trimPrefix_def split: if_splits) (metis append_take_drop_id)
qed (auto simp: decodeA9LowerHex_hex)

lemma state_of_map:
  assumes "\<And>r. sr_environment (g r) = sr_environment r" and "kd_states db' = map g (kd_states db)"
  shows "state_of e db' = map_option g (state_of e db)"
proof -
  have "find (\<lambda>r. sr_environment r = e) (map g rows) = map_option g (find (\<lambda>r. sr_environment r = e) rows)" for rows
    using assms(1) by (induction rows) auto
  then show ?thesis
    using assms(2) by (simp add: state_of_def)
qed

lemma tables_row: "keyset_tables_ok db \<Longrightarrow> x \<in> set (kd_states db) \<Longrightarrow> state_row_ok x \<and> state_refers (kd_accepted db) x"
  by (simp add: keyset_tables_ok_def list_all_iff)

lemma latched_row_ok:
  "state_row_ok x \<Longrightarrow> sr_state x = 1 \<Longrightarrow> 1 \<le> reason \<Longrightarrow> reason \<le> 16 \<Longrightarrow> state_row_ok (x\<lparr>sr_state := 2, sr_reason := reason, sr_refreshed_at := now\<rparr>)"
  by (auto simp: state_row_ok_def)

lemma state_refers_cong:
  "sr_environment y = sr_environment x \<Longrightarrow> sr_sequence y = sr_sequence x \<Longrightarrow> sr_hash y = sr_hash x \<Longrightarrow> state_refers a y = state_refers a x"
  by (cases "sr_hash x") (simp_all add: state_refers_def)

text \<open>An update of the row of one environment.\<close>

lemma update_row:
  assumes ok: "keyset_tables_ok db" and r: "state_of e db = Some r" and "cond r" and cond: "\<And>x. cond x \<Longrightarrow> sr_environment x = e"
    and env: "\<And>x. sr_environment (f x) = sr_environment x" and "state_row_ok (f r)" and "state_refers (kd_accepted db) (f r)"
  obtains db' where "update_state cond f db = Inr (db', 1)" "keyset_tables_ok db'" "kd_accepted db' = kd_accepted db"
    "state_of e db' = Some (f r)" "\<And>e'. e' \<noteq> e \<Longrightarrow> state_of e' db' = state_of e' db"
proof -
  have u: "x = r" if "x \<in> set (kd_states db)" "cond x" for x
    using ok r cond [OF that(2)] that(1) state_of_iff by (metis option.inject)
  have "distinct (kd_states db)"
    using ok by (simp add: keyset_tables_ok_def distinct_map)
  moreover have "set (filter cond (kd_states db)) = {r}"
    using state_of_Some [OF r] assms(3) u by auto
  ultimately have "length (filter cond (kd_states db)) = 1"
    by (metis distinct_card distinct_filter card.insert card.empty finite.emptyI empty_iff One_nat_def)
  moreover have "state_row_ok (if cond x then f x else x) \<and> state_refers (kd_accepted db) (if cond x then f x else x)"
    if "x \<in> set (kd_states db)" for x
    using assms(6,7) u [OF that] tables_row [OF ok that] by auto
  then have "list_all (\<lambda>x. state_row_ok x \<and> state_refers (kd_accepted db) x) (map (\<lambda>x. if cond x then f x else x) (kd_states db))"
    by (simp only: list_all_iff set_map ball_simps) blast
  ultimately obtain db' where up: "update_state cond f db = Inr (db', 1)"
    by (simp add: update_state_def Let_def)
  note p = update_state_ok [OF up ok env]
  have st: "state_of e' db' = map_option (\<lambda>x. if cond x then f x else x) (state_of e' db)" for e'
    using p env by (intro state_of_map) auto
  show thesis
  proof (rule that [OF up])
    show "state_of e db' = Some (f r)"
      using st [of e] r assms(3) by simp
    show "state_of e' db' = state_of e' db" if "e' \<noteq> e" for e'
      using st [of e'] that cond state_of_Some [of e' db] by (cases "state_of e' db") auto
  qed (use p in simp_all)
qed

lemma register_of_other:
  assumes "keyset_tables_ok db" and "keyset_tables_ok db'" and "kd_accepted db' = kd_accepted db @ a" and "state_of e db' = state_of e db"
  shows "register_of e db' = register_of e db"
  using register_row_kept [OF assms(1-3)] assms(4) state_of_Some [of e db] by (auto simp: register_of_def split: option.splits)

lemma register_Holding:
  assumes "keyset_tables_ok db" and "register_of e db = Holding s h t doc"
  obtains r hash where "state_of e db = Some r" "sr_environment r = e" "sr_state r = 1" "sr_sequence r = int s" "sr_hash r = Some hash"
    "h = hex_encode hash" "length hash = 32" "sr_expires_at r = Some t" "joined_jcs db r = Some doc" "state_row_ok r" "state_refers (kd_accepted db) r"
proof -
  obtain r where r: "state_of e db = Some r" "sr_state r \<noteq> 2" "s = nat (sr_sequence r)" "h = hex_encode (the (sr_hash r))"
      "t = the (sr_expires_at r)" "doc = the (joined_jcs db r)"
    using assms(2) by (auto simp: register_of_def register_row_def split: option.splits if_splits)
  have rr: "r \<in> set (kd_states db)" "sr_environment r = e"
    using state_of_Some [OF r(1)] by simp_all
  note row = tables_row [OF assms(1) rr(1)]
  then obtain hash t' where hash: "sr_hash r = Some hash" "length hash = 32" "sr_expires_at r = Some t'" "1 \<le> sr_sequence r" "sr_state r = 1"
    using r(2) current_hash by blast
  moreover obtain c where "joined_jcs db r = Some c"
    using row joined_jcs_iff [OF assms(1) hash(1)] hash(1) by (auto simp: state_refers_def list_ex_iff)
  ultimately show thesis
    using that [OF r(1) rr(2), of hash] r row by simp
qed

text \<open>Latching succeeds on a register that holds a keyset and touches no other environment.\<close>

lemma latch_holding:
  assumes ok: "keyset_tables_ok db" and h: "register_of e db = Holding s h t doc" and reason: "1 \<le> reason" "reason \<le> 16"
  obtains db' where "latchA9KeysetStateTx now current e reason db = Inr (db', current\<lparr>kst_Uncertain := True\<rparr>)"
    "keyset_tables_ok db'" "kd_accepted db' = kd_accepted db" "register_of e db' = Latched reason s"
    "\<And>e'. e' \<noteq> e \<Longrightarrow> register_of e' db' = register_of e' db"
proof -
  let ?f = "\<lambda>x. x\<lparr>sr_state := 2, sr_reason := reason, sr_refreshed_at := now\<rparr>"
  obtain r where r: "state_of e db = Some r" "sr_environment r = e" "sr_state r = 1" "sr_sequence r = int s" "state_row_ok r" "state_refers (kd_accepted db) r"
    using register_Holding [OF ok h] by metis
  have refers: "state_refers (kd_accepted db) (?f r)"
    using r(6) state_refers_cong [of "?f r" r] by simp
  obtain db' where u: "update_state (\<lambda>x. sr_environment x = e \<and> sr_state x = 1) ?f db = Inr (db', 1)" "keyset_tables_ok db'"
      "kd_accepted db' = kd_accepted db" "state_of e db' = Some (?f r)" "\<And>e'. e' \<noteq> e \<Longrightarrow> state_of e' db' = state_of e' db"
    by (rule update_row [OF ok r(1), of "\<lambda>x. sr_environment x = e \<and> sr_state x = 1" ?f])
      (use r refers latched_row_ok reason in auto)
  show thesis
  proof (rule that)
    show "latchA9KeysetStateTx now current e reason db = Inr (db', current\<lparr>kst_Uncertain := True\<rparr>)"
      using u(1) by (simp add: latchA9KeysetStateTx_def)
    show "register_of e db' = Latched reason s"
      using u(4) r by (simp add: register_of_def register_row_def)
    show "register_of e' db' = register_of e' db" if "e' \<noteq> e" for e'
      using register_of_other [OF ok u(2) _ u(5) [OF that], of "[]"] u(3) by simp
  qed (use u in simp_all)
qed

lemma refresh_holding:
  assumes ok: "keyset_tables_ok db" and h: "register_of e db = Holding s h t doc"
    and "kst_Sequence current = s" and "kst_ObjectHash current = h"
  obtains db' where "refreshA9KeysetStateTx now current e db = Inr db'" "keyset_tables_ok db'" "kd_accepted db' = kd_accepted db"
    "\<And>e'. register_of e' db' = register_of e' db"
proof -
  let ?f = "\<lambda>x. x\<lparr>sr_refreshed_at := now\<rparr>"
  obtain r hash where r: "state_of e db = Some r" "sr_environment r = e" "sr_state r = 1" "sr_sequence r = int s" "sr_hash r = Some hash"
      "h = hex_encode hash" "length hash = 32" "state_row_ok r" "state_refers (kd_accepted db) r"
    using register_Holding [OF ok h] by metis
  have refers: "state_refers (kd_accepted db) (?f r)" "state_row_ok (?f r)"
    using r(8,9) state_refers_cong [of "?f r" r] by (simp_all add: state_row_ok_def)
  have bare: "decodeA9BareHash h = Some hash"
    using r(6,7) by (simp add: decodeA9BareHash_def decodeA9LowerHex_iff)
  obtain db' where u: "update_state (current_row e current) ?f db = Inr (db', 1)" "keyset_tables_ok db'"
      "kd_accepted db' = kd_accepted db" "state_of e db' = Some (?f r)" "\<And>e'. e' \<noteq> e \<Longrightarrow> state_of e' db' = state_of e' db"
    by (rule update_row [OF ok r(1), of "current_row e current" ?f])
      (use r refers bare assms(3,4) in \<open>auto simp: current_row_def\<close>)
  have "register_of e db' = register_of e db"
    using u(3,4) r(1) by (simp add: register_of_def register_row_def joined_jcs_def)
  then have "register_of e' db' = register_of e' db" for e'
    using register_of_other [OF ok u(2) _ u(5), of "[]" e'] u(3) by (cases "e' = e") auto
  then show thesis
    using that u by (simp add: refreshA9KeysetStateTx_def)
qed

lemma validated_hash: "validateA9AcceptedKeyset c = Some v \<Longrightarrow> hex_encode (vd_objectHash v) = aks_ObjectHash c \<and> length (vd_objectHash v) = 32"
  by (auto simp: validateA9AcceptedKeyset_def decodeA9LowerHex_iff split: if_splits option.splits)

lemma validated_environment: "validateA9AcceptedKeyset c = Some v \<Longrightarrow> a9EnvironmentID (aks_Environment c) = Some (vd_environmentID v)"
  by (auto simp: validateA9AcceptedKeyset_def split: if_splits option.splits)

definition new_state_row :: "time \<Rightarrow> AcceptedKeyset \<Rightarrow> a9ValidatedCandidate \<Rightarrow> state_row" where
  "new_state_row now c v = \<lparr>sr_environment = vd_environmentID v, sr_sequence = int (aks_Sequence c), sr_hash = Some (vd_objectHash v),
     sr_state = 1, sr_reason = 0, sr_expires_at = Some (aks_ExpiresAt c), sr_refreshed_at = now\<rparr>"

lemma append_register:
  assumes "validateA9AcceptedKeyset c = Some v" and "keyset_tables_ok db'" and "accepted_of c v \<in> set (kd_accepted db')"
    and "state_of (vd_environmentID v) db' = Some (new_state_row now c v)"
  shows "register_of (vd_environmentID v) db' = holding_of c"
proof -
  have "joined_jcs db' (new_state_row now c v) = Some (aks_CanonicalSignedObject c)"
    using joined_jcs_iff [OF assms(2), of "new_state_row now c v" "vd_objectHash v"] assms(3)
    by (auto simp: new_state_row_def accepted_of_def intro!: bexI [of _ "accepted_of c v"])
  then show ?thesis
    using assms(4) validated_hash [OF assms(1)] by (simp add: register_of_def register_row_def holding_of_def) (simp add: new_state_row_def)
qed

lemma append_tables:
  assumes "appendA9KeysetTx now c v current hasCurrent db = Inr db'" and ok: "keyset_tables_ok db"
  obtains db3 where "keyset_tables_ok db3" "kd_states db3 = kd_states db" "kd_accepted db3 = kd_accepted db @ [accepted_of c v]"
    "\<not> hasCurrent \<Longrightarrow> insert_state (new_state_row now c v) db3 = Inr db'"
    "hasCurrent \<Longrightarrow> update_state (current_row (vd_environmentID v) current) (\<lambda>r. r\<lparr>sr_sequence := int (aks_Sequence c),
        sr_hash := Some (vd_objectHash v), sr_state := 1, sr_reason := 0, sr_expires_at := Some (aks_ExpiresAt c), sr_refreshed_at := now\<rparr>) db3 = Inr (db', 1)"
proof -
  obtain db1 db2 db3 where i: "insert_accepted (accepted_of c v) db = Inr db1"
      "insert_all insert_online (map (online_of c v) (vd_online v)) db1 = Inr db2"
      "insert_all insert_commitment (map (commitment_of c v) (vd_commitments v)) db2 = Inr db3"
    using assms(1) by (auto simp: appendA9KeysetTx_def split: sum.splits)
  note a = insert_accepted_ok [OF i(1) ok] and b = insert_all_ok [OF insert_online_ok i(2)] and d = insert_all_ok [OF insert_commitment_ok i(3)]
  show thesis
    by (rule that [of db3])
      (use assms(1) i a b d in \<open>auto simp: appendA9KeysetTx_def new_state_row_def split: if_splits sum.splits\<close>)
qed

lemma find_snoc: "find P (xs @ [x]) = (case find P xs of None \<Rightarrow> if P x then Some x else None | Some y \<Rightarrow> Some y)"
  by (induction xs) auto

lemma append_refines:
  assumes v: "validateA9AcceptedKeyset c = Some v" and app: "appendA9KeysetTx now c v current hasCurrent db = Inr db'" and ok: "keyset_tables_ok db"
  shows "keyset_tables_ok db' \<and> kd_accepted db' = kd_accepted db @ [accepted_of c v] \<and>
     register_of (vd_environmentID v) db' = holding_of c \<and> (\<forall>e'. e' \<noteq> vd_environmentID v \<longrightarrow> register_of e' db' = register_of e' db)"
proof -
  obtain db3 where d: "keyset_tables_ok db3" "kd_states db3 = kd_states db" "kd_accepted db3 = kd_accepted db @ [accepted_of c v]"
    and ins: "\<not> hasCurrent \<Longrightarrow> insert_state (new_state_row now c v) db3 = Inr db'"
    and upd: "hasCurrent \<Longrightarrow> update_state (current_row (vd_environmentID v) current) (\<lambda>r. r\<lparr>sr_sequence := int (aks_Sequence c),
        sr_hash := Some (vd_objectHash v), sr_state := 1, sr_reason := 0, sr_expires_at := Some (aks_ExpiresAt c), sr_refreshed_at := now\<rparr>) db3 = Inr (db', 1)"
    using append_tables [OF app ok] by blast
  have "keyset_tables_ok db' \<and> kd_accepted db' = kd_accepted db3 \<and> state_of (vd_environmentID v) db' = Some (new_state_row now c v) \<and>
      (\<forall>e'. e' \<noteq> vd_environmentID v \<longrightarrow> state_of e' db' = state_of e' db)"
  proof (cases hasCurrent)
    case False
    note p = insert_state_ok [OF ins [OF False] d(1)]
    have none: "find (\<lambda>r. sr_environment r = vd_environmentID v) (kd_states db3) = None"
      using p by (force simp: find_None_iff new_state_row_def)
    have "find (\<lambda>r. sr_environment r = e) (kd_states db3 @ [new_state_row now c v]) =
        (if e = vd_environmentID v then Some (new_state_row now c v) else find (\<lambda>r. sr_environment r = e) (kd_states db3))" for e
      using none by (cases "e = vd_environmentID v") (auto simp: find_snoc new_state_row_def split: option.split)
    then show ?thesis
      using p d(2) by (simp add: state_of_def)
  next
    case True
    let ?f = "\<lambda>r. r\<lparr>sr_sequence := int (aks_Sequence c), sr_hash := Some (vd_objectHash v), sr_state := 1, sr_reason := 0,
      sr_expires_at := Some (aks_ExpiresAt c), sr_refreshed_at := now\<rparr>" and ?c = "current_row (vd_environmentID v) current"
    note p = update_state_ok [OF upd [OF True] d(1)]
    have st: "state_of e' db' = map_option (\<lambda>x. if ?c x then ?f x else x) (state_of e' db)" for e'
      using p d(2) by (intro state_of_map) auto
    have "length (filter ?c (kd_states db3)) = 1"
      using p by simp
    then obtain r where r: "r \<in> set (kd_states db)" "?c r"
      using d(2) by (metis filter_empty_conv length_0_conv zero_neq_one)
    moreover from this have "state_of (vd_environmentID v) db = Some r" and "sr_environment r = vd_environmentID v"
      using ok by (simp_all add: state_of_iff current_row_def)
    ultimately have "state_of (vd_environmentID v) db' = Some (new_state_row now c v)"
      using st [of "vd_environmentID v"] by (simp add: new_state_row_def)
    moreover have "state_of e' db' = state_of e' db" if "e' \<noteq> vd_environmentID v" for e'
      using st [of e'] that state_of_Some [of e' db] by (cases "state_of e' db") (auto simp: current_row_def)
    ultimately show ?thesis
      using p by simp
  qed
  then show ?thesis
    using append_register [OF v, of db' now] register_of_other [OF ok, of db' "[accepted_of c v]"] d(3) by simp
qed

section \<open>The transactions refine the specification\<close>

lemma accept_refines:
  assumes v: "validateA9AcceptedKeyset c = Some v" and ok: "keyset_tables_ok db"
    and acc: "acceptKeysetOnce now c v db = Inr (db', st, rejected)"
  shows "keyset_tables_ok db' \<and> (\<exists>a. kd_accepted db' = kd_accepted db @ a) \<and>
     (register_of (vd_environmentID v) db', rejected) = spec_accept c (vd_object v) (register_of (vd_environmentID v) db) \<and>
     (\<forall>e'. e' \<noteq> vd_environmentID v \<longrightarrow> register_of e' db' = register_of e' db) \<and>
     (\<not> rejected \<longrightarrow> st = accepted_state c)"
proof (cases "register_of (vd_environmentID v) db")
  case Unset
  then have "append_result c (appendA9KeysetTx now c v (zeroKeysetState\<lparr>kst_Environment := aks_Environment c\<rparr>) False db) = Inr (db', st, rejected)"
    using acc read_Holding(1) [OF ok, of "aks_Environment c" "vd_environmentID v"] by (simp add: acceptKeysetOnce_def)
  then obtain d where "appendA9KeysetTx now c v (zeroKeysetState\<lparr>kst_Environment := aks_Environment c\<rparr>) False db = Inr d" "d = db'" "st = accepted_state c" "\<not> rejected"
    by (auto simp: append_result_def split: sum.splits)
  with append_refines [OF v this(1) ok] Unset show ?thesis
    by simp
next
  case (Latched reason s)
  then show ?thesis
    using acc read_Holding(2) [OF ok Latched, of "aks_Environment c"] ok by (auto simp: acceptKeysetOnce_def)
next
  case (Holding s h t doc)
  let ?e = "vd_environmentID v" and ?cur = "\<lparr>kst_Environment = aks_Environment c, kst_Sequence = s, kst_ObjectHash = h, kst_ExpiresAt = t, kst_Uncertain = False\<rparr>"
  have read: "readA9KeysetStateForUpdate (aks_Environment c) ?e db = Row (?cur, doc)"
    using read_Holding(1) [OF ok, of "aks_Environment c" ?e] Holding by simp
  have latch: "keyset_tables_ok db' \<and> kd_accepted db' = kd_accepted db \<and> register_of ?e db' = Latched reason s \<and> rejected \<and>
      (\<forall>e'. e' \<noteq> ?e \<longrightarrow> register_of e' db' = register_of e' db)"
    if "rejecting (latchA9KeysetStateTx now ?cur ?e reason db) = Inr (db', st, rejected)" "1 \<le> reason" "reason \<le> 16" for reason
    by (rule latch_holding [OF ok Holding that(2,3), of now ?cur]) (use that(1) in \<open>simp add: rejecting_def\<close>)
  consider (rollback) "aks_Sequence c < s \<or> aks_Sequence c = s \<and> (aks_ObjectHash c \<noteq> h \<or> aks_ExpiresAt c \<noteq> t)"
    | (same) "aks_Sequence c = s" "aks_ObjectHash c = h" "aks_ExpiresAt c = t"
    | (rotation) "s < aks_Sequence c" "\<not> rotation_ok doc (vd_object v)"
    | (append) "s < aks_Sequence c" "rotation_ok doc (vd_object v)"
    by linarith
  then show ?thesis
  proof cases
    case rollback
    then have "rejecting (latchA9KeysetStateTx now ?cur ?e a9UncertaintyRollback db) = Inr (db', st, rejected)"
      using acc by (auto simp: acceptKeysetOnce_def read split: if_splits)
    from latch [OF this] rollback Holding show ?thesis
      by (simp add: a9UncertaintyRollback_def)
  next
    case same
    obtain d where "refreshA9KeysetStateTx now ?cur ?e db = Inr d" "keyset_tables_ok d" "kd_accepted d = kd_accepted db"
        "\<And>e'. register_of e' d = register_of e' db"
      using refresh_holding [OF ok Holding, of ?cur now] by auto
    then show ?thesis
      using acc same Holding by (simp add: acceptKeysetOnce_def read accepted_state_def)
  next
    case rotation
    then have "rejecting (latchA9KeysetStateTx now ?cur ?e a9UncertaintyRotation db) = Inr (db', st, rejected)"
      using acc by (auto simp: acceptKeysetOnce_def read)
    from latch [OF this] rotation Holding show ?thesis
      by (simp add: a9UncertaintyRotation_def)
  next
    case append
    then obtain d where "appendA9KeysetTx now c v ?cur True db = Inr d" "d = db'" "st = accepted_state c" "\<not> rejected"
      using acc by (auto simp: acceptKeysetOnce_def read append_result_def split: sum.splits)
    with append_refines [OF v this(1) ok] append Holding show ?thesis
      by simp
  qed
qed

text \<open>A candidate that the specification rejects is rejected by every transaction that runs.\<close>

lemma accept_rejects:
  assumes ok: "keyset_tables_ok db" and spec: "snd (spec_accept c (vd_object v) (register_of (vd_environmentID v) db))"
  obtains db' st where "acceptKeysetOnce now c v db = Inr (db', st, True)"
proof (cases "register_of (vd_environmentID v) db")
  case (Latched reason s)
  then show thesis
    using read_Holding(2) [OF ok Latched, of "aks_Environment c"] that by (auto simp: acceptKeysetOnce_def)
next
  case (Holding s h t doc)
  let ?e = "vd_environmentID v" and ?cur = "\<lparr>kst_Environment = aks_Environment c, kst_Sequence = s, kst_ObjectHash = h, kst_ExpiresAt = t, kst_Uncertain = False\<rparr>"
  have read: "readA9KeysetStateForUpdate (aks_Environment c) ?e db = Row (?cur, doc)"
    using read_Holding(1) [OF ok, of "aks_Environment c" ?e] Holding by simp
  have latch: "\<exists>d st. rejecting (latchA9KeysetStateTx now ?cur ?e reason db) = Inr (d, st, True)" if "1 \<le> reason" "reason \<le> 16" for reason
    by (rule latch_holding [OF ok Holding that, of now ?cur]) (simp add: rejecting_def)
  have two: "\<exists>d st. rejecting (latchA9KeysetStateTx now ?cur ?e a9UncertaintyRollback db) = Inr (d, st, True)"
      "\<exists>d st. rejecting (latchA9KeysetStateTx now ?cur ?e a9UncertaintyRotation db) = Inr (d, st, True)"
    by (rule latch; simp add: a9UncertaintyRollback_def a9UncertaintyRotation_def)+
  have "acceptKeysetOnce now c v db = rejecting (latchA9KeysetStateTx now ?cur ?e a9UncertaintyRollback db) \<or>
      acceptKeysetOnce now c v db = rejecting (latchA9KeysetStateTx now ?cur ?e a9UncertaintyRotation db)"
    using spec Holding by (auto simp: acceptKeysetOnce_def read split: if_splits)
  then show thesis
    using two that by metis
qed (use spec in simp)

lemma reason_range: "1 \<le> a9UncertaintyReason reason \<and> a9UncertaintyReason reason \<le> 16"
  by (simp add: a9UncertaintyReason_def a9UncertaintyRollback_def a9UncertaintyRotation_def a9UncertaintyKeyState_def)

lemma latch_refines:
  assumes ok: "keyset_tables_ok db" and e: "e = 1 \<or> e = 2" and reason: "1 \<le> reason" "reason \<le> 16"
  obtains db' where "latchKeysetUncertaintyOnce now environment e reason db = Inr db'" "keyset_tables_ok db'"
    "kd_accepted db' = kd_accepted db" "register_of e db' = spec_latch reason (register_of e db)"
    "\<And>e'. e' \<noteq> e \<Longrightarrow> register_of e' db' = register_of e' db"
proof (cases "register_of e db")
  case Unset
  let ?r = "\<lparr>sr_environment = e, sr_sequence = 0, sr_hash = None, sr_state = 2, sr_reason = reason, sr_expires_at = None, sr_refreshed_at = now\<rparr>"
  have none: "state_of e db = None"
    using Unset by (auto simp: register_of_def register_row_def split: option.splits if_splits)
  then have "\<not> list_ex (\<lambda>x. sr_environment x = e) (kd_states db)"
    by (auto simp: state_of_def find_None_iff list_ex_iff)
  moreover have "state_row_ok ?r" "state_refers (kd_accepted db) ?r"
    using e reason by (auto simp: state_row_ok_def state_refers_def)
  ultimately have ins: "insert_state ?r db = Inr (db\<lparr>kd_states := kd_states db @ [?r]\<rparr>)" (is "_ = Inr ?db")
    by (simp add: insert_state_def)
  note p = insert_state_ok [OF ins ok]
  have st: "state_of e' ?db = (if e' = e then Some ?r else state_of e' db)" for e'
    using none by (auto simp: state_of_def find_snoc split: option.split)
  show thesis
  proof (rule that)
    show "latchKeysetUncertaintyOnce now environment e reason db = Inr ?db"
      using ins read_Holding(1) [OF ok, of environment e] Unset by (simp add: latchKeysetUncertaintyOnce_def)
    show "register_of e ?db = spec_latch reason (register_of e db)"
      using st [of e] by (simp add: register_of_def register_row_def Unset [unfolded register_of_def])
    show "register_of e' ?db = register_of e' db" if "e' \<noteq> e" for e'
      using register_of_other [OF ok conjunct1 [OF p], of "[]" e'] st [of e'] that by simp
  qed (use p in simp_all)
next
  case (Holding s h t doc)
  let ?cur = "\<lparr>kst_Environment = environment, kst_Sequence = s, kst_ObjectHash = h, kst_ExpiresAt = t, kst_Uncertain = False\<rparr>"
  obtain d where d: "latchA9KeysetStateTx now ?cur e reason db = Inr (d, ?cur\<lparr>kst_Uncertain := True\<rparr>)"
      "keyset_tables_ok d" "kd_accepted d = kd_accepted db" "register_of e d = Latched reason s"
      "\<And>e'. e' \<noteq> e \<Longrightarrow> register_of e' d = register_of e' db"
    using latch_holding [OF ok Holding reason, of now ?cur] by blast
  show thesis
    by (rule that [of d]) (use d read_Holding(1) [OF ok, of environment e] Holding in \<open>simp_all add: latchKeysetUncertaintyOnce_def\<close>)
next
  case (Latched r s)
  then show thesis
    using read_Holding(2) [OF ok Latched, of environment] that [of db] ok by (auto simp: latchKeysetUncertaintyOnce_def)
qed

section \<open>Attempts\<close>

lemma attempt_loop_cases:
  assumes "attempt_loop n attempts tx clock db = (db', res)"
  obtains (failed) "db' = db" "res = None"
  | (ran) now x where "tx now db = Inr (db', x)" "res = None \<or> res = Some x"
proof -
  have "attempt_loop n attempts tx clock db = (db', res) \<Longrightarrow>
      db' = db \<and> res = None \<or> (\<exists>now x. tx now db = Inr (db', x) \<and> (res = None \<or> res = Some x))"
  proof (induction n arbitrary: attempts)
    case (Suc n)
    then show ?case
      by (auto simp: run_attempt_def split: attempt.splits sum.splits if_splits list.splits) blast+
  qed simp
  then show thesis
    using assms failed ran by blast
qed

lemma attempt_loop_runs: "tx (clock n) db = Inr (db', x) \<Longrightarrow> attempt_loop (Suc n) [] tx clock db = (db', Some x)"
  by (simp add: run_attempt_def)

section \<open>The operations refine the specification\<close>

definition spec_step :: "nat \<Rightarrow> AcceptedKeyset \<Rightarrow> trust_register \<Rightarrow> trust_register" where
  "spec_step e c reg =
     (if a9EnvironmentID (aks_Environment c) \<noteq> Some e then reg
      else (case validateA9AcceptedKeyset c of
         None \<Rightarrow> spec_latch a9UncertaintyKeyState reg
       | Some v \<Rightarrow> fst (spec_accept c (vd_object v) reg)))"

text \<open>
  An operation on the tables keeps their constraints, only appends to the history, and leaves every register as
  it was or takes the step of the specification; the history and the other environments are not touched otherwise.
\<close>

definition step_ok :: "keyset_db \<Rightarrow> keyset_db \<Rightarrow> nat \<Rightarrow> (trust_register \<Rightarrow> trust_register) \<Rightarrow> bool" where
  "step_ok db db' e f \<longleftrightarrow> keyset_tables_ok db' \<and> (\<exists>a. kd_accepted db' = kd_accepted db @ a) \<and>
     (register_of e db' = register_of e db \<or> register_of e db' = f (register_of e db)) \<and>
     (\<forall>e'. e' \<noteq> e \<longrightarrow> register_of e' db' = register_of e' db)"

lemma environment_ids: "a9EnvironmentID environment = Some e \<Longrightarrow> e = 1 \<or> e = 2"
  by (auto simp: a9EnvironmentID_def split: if_splits)

lemma LatchKeysetUncertainty_refines:
  assumes ok: "keyset_tables_ok db" and e: "a9EnvironmentID environment = Some e"
    and op: "LatchKeysetUncertainty env environment reason db = (db', err)"
  shows "step_ok db db' e (spec_latch (a9UncertaintyReason reason))"
    and "err = None \<Longrightarrow> register_of e db' = spec_latch (a9UncertaintyReason reason) (register_of e db)"
proof -
  let ?tx = "\<lambda>now d. case latchKeysetUncertaintyOnce now environment e (a9UncertaintyReason reason) d of Inl e \<Rightarrow> Inl e | Inr d' \<Rightarrow> Inr (d', ())"
  have run: "step_ok db d e (spec_latch (a9UncertaintyReason reason)) \<and> register_of e d = spec_latch (a9UncertaintyReason reason) (register_of e db)"
    if "?tx now db = Inr (d, u)" for now d u
    by (rule latch_refines [OF ok environment_ids [OF e] conjunct1 [OF reason_range] conjunct2 [OF reason_range], of now environment reason])
      (use that in \<open>auto simp: step_ok_def\<close>)
  have same: "step_ok db db e f" for f
    using ok by (simp add: step_ok_def)
  have "step_ok db db' e (spec_latch (a9UncertaintyReason reason)) \<and>
      (err = None \<longrightarrow> register_of e db' = spec_latch (a9UncertaintyReason reason) (register_of e db))"
  proof (cases "se_context_ok env")
    case True
    obtain res where l: "attempt_loop a9SerializableAttempts (se_attempts env) ?tx (se_clock env) db = (db', res)"
        "err = None \<longrightarrow> res \<noteq> None"
      using op e True by (auto simp: LatchKeysetUncertainty_def split: prod.splits option.splits)
    from l(1) show ?thesis
    proof (cases rule: attempt_loop_cases)
      case failed
      then show ?thesis
        using same l(2) by auto
    next
      case (ran now x)
      then show ?thesis
        using run by blast
    qed
  qed (use op e same in \<open>auto simp: LatchKeysetUncertainty_def\<close>)
  then show "step_ok db db' e (spec_latch (a9UncertaintyReason reason))"
    and "err = None \<Longrightarrow> register_of e db' = spec_latch (a9UncertaintyReason reason) (register_of e db)"
    by blast+
qed

text \<open>The register holds a keyset with the sequence, hash and expiry of the candidate.\<close>

definition holds :: "AcceptedKeyset \<Rightarrow> trust_register \<Rightarrow> bool" where
  "holds c reg \<longleftrightarrow> (\<exists>doc. reg = Holding (aks_Sequence c) (aks_ObjectHash c) (aks_ExpiresAt c) doc)"

lemma AcceptKeyset_refines:
  assumes ok: "keyset_tables_ok db" and op: "AcceptKeyset env c db = (db', st, err)" and e: "a9EnvironmentID (aks_Environment c) = Some e"
  shows "step_ok db db' e (spec_step e c) \<and>
     (err = None \<longrightarrow> st = accepted_state c \<and> validateA9AcceptedKeyset c \<noteq> None \<and>
        register_of e db' = spec_step e c (register_of e db) \<and> holds c (register_of e db')) \<and>
     (err = Some ErrKeysetRejected \<longrightarrow> register_of e db' = spec_step e c (register_of e db) \<and>
        (\<exists>reason s. register_of e db' = Latched reason s))"
proof (cases "validateA9AcceptedKeyset c")
  case None
  then obtain err' where l: "LatchKeysetUncertainty env (aks_Environment c) ''KEY_STATE'' db = (db', err')"
      "err = (if err' = None then Some ErrKeysetRejected else Some errA9DatabaseUnavailable)"
    using op e by (auto simp: AcceptKeyset_def split: prod.splits option.splits)
  have reason: "a9UncertaintyReason ''KEY_STATE'' = a9UncertaintyKeyState"
    by (simp add: a9UncertaintyReason_def)
  have "\<exists>r s. spec_latch a9UncertaintyKeyState reg = Latched r s" for reg
    by (cases reg) auto
  then show ?thesis
    using LatchKeysetUncertainty_refines [OF ok e l(1)] l(2) None e
    by (auto simp: spec_step_def step_ok_def reason)
next
  case (Some v)
  then have ev: "e = vd_environmentID v"
    using validated_environment [OF Some] e by simp
  have run: "step_ok db d e (spec_step e c) \<and> register_of e d = spec_step e c (register_of e db) \<and>
      (\<not> rejected \<longrightarrow> st = accepted_state c \<and> holds c (register_of e d)) \<and> (rejected \<longrightarrow> (\<exists>r s. register_of e d = Latched r s))"
    if t: "acceptKeysetOnce now c v db = Inr (d, st, rejected)" for now d st rejected
  proof -
    note r = accept_refines [OF Some ok t, folded ev]
    have "case spec_accept c (vd_object v) (register_of e db) of (reg, rej) \<Rightarrow> if rej then \<exists>r s. reg = Latched r s else holds c reg"
      by (cases "register_of e db") (auto simp: holding_of_def holds_def)
    then show ?thesis
      using r Some e by (auto simp: step_ok_def spec_step_def)
  qed
  show ?thesis
  proof (cases "se_context_ok env")
    case True
    obtain res where l: "attempt_loop a9SerializableAttempts (se_attempts env) (\<lambda>now d. acceptKeysetOnce now c v d) (se_clock env) db = (db', res)"
        "(case res of None \<Rightarrow> err = Some errA9DatabaseUnavailable | Some (st', rej) \<Rightarrow> st = st' \<and> err = (if rej then Some ErrKeysetRejected else None))"
      using op Some True by (auto simp: AcceptKeyset_def split: prod.splits option.splits)
    from l(1) show ?thesis
    proof (cases rule: attempt_loop_cases)
      case failed
      then show ?thesis
        using l(2) ok by (simp add: step_ok_def)
    next
      case (ran now x)
      then show ?thesis
        using run [of now db' "fst x" "snd x"] l(2) Some by (auto split: if_splits)
    qed
  qed (use op Some ok in \<open>auto simp: AcceptKeyset_def step_ok_def\<close>)
qed

section \<open>Runs of the store\<close>

datatype store_op = Op_AcceptKeyset store_env AcceptedKeyset | Op_LatchKeyset store_env bytes bytes

fun store_step :: "store_op \<Rightarrow> keyset_db \<Rightarrow> keyset_db" where
  "store_step (Op_AcceptKeyset env c) db = fst (AcceptKeyset env c db)"
| "store_step (Op_LatchKeyset env environment reason) db = fst (LatchKeysetUncertainty env environment reason db)"

definition store_run :: "store_op list \<Rightarrow> keyset_db \<Rightarrow> keyset_db" where
  "store_run ops db = fold store_step ops db"

text \<open>The order in which a register can move.\<close>

fun reg_le :: "trust_register \<Rightarrow> trust_register \<Rightarrow> bool" where
  "reg_le Unset _ = True"
| "reg_le (Holding s h t doc) (Holding s' h' t' doc') = (s < s' \<or> s = s' \<and> h = h' \<and> t = t' \<and> doc = doc')"
| "reg_le (Holding s h t doc) (Latched _ s') = (s \<le> s')"
| "reg_le (Holding s h t doc) Unset = False"
| "reg_le (Latched r s) reg = (reg = Latched r s)"

lemma reg_le_refl: "reg_le reg reg"
  by (cases reg) auto

lemma reg_le_trans: "reg_le a b \<Longrightarrow> reg_le b c \<Longrightarrow> reg_le a c"
  by (cases a; cases b; cases c) auto

lemma reg_le_latch: "reg_le reg (spec_latch reason reg)"
  by (cases reg) auto

lemma reg_le_accept: "reg_le reg (fst (spec_accept c obj reg))"
  by (cases reg) (auto simp: holding_of_def)

lemma reg_le_step: "reg_le reg (spec_step e c reg)"
  by (auto simp: spec_step_def reg_le_refl reg_le_latch reg_le_accept split: option.split)

lemma store_step_ok:
  assumes "keyset_tables_ok db"
  shows "keyset_tables_ok (store_step op db) \<and> (\<exists>a. kd_accepted (store_step op db) = kd_accepted db @ a) \<and>
     (\<forall>e. reg_le (register_of e db) (register_of e (store_step op db)))"
proof -
  have le: "keyset_tables_ok db' \<and> (\<exists>a. kd_accepted db' = kd_accepted db @ a) \<and> (\<forall>e'. reg_le (register_of e' db) (register_of e' db'))"
    if "step_ok db db' e f" and "\<And>reg. reg_le reg (f reg)" for db' e f
    using that unfolding step_ok_def by (metis reg_le_refl)
  show ?thesis
  proof (cases op)
    case (Op_AcceptKeyset env c)
    obtain db' st err where r: "AcceptKeyset env c db = (db', st, err)"
      by (cases "AcceptKeyset env c db")
    show ?thesis
    proof (cases "a9EnvironmentID (aks_Environment c)")
      case None
      then have "validateA9AcceptedKeyset c = None"
        by (simp add: validateA9AcceptedKeyset_def)
      then show ?thesis
        using None assms Op_AcceptKeyset reg_le_refl by (simp add: AcceptKeyset_def)
    next
      case (Some e)
      show ?thesis
        using le [OF conjunct1 [OF AcceptKeyset_refines [OF assms r Some]] reg_le_step] r Op_AcceptKeyset by simp
    qed
  next
    case (Op_LatchKeyset env environment reason)
    obtain db' err where r: "LatchKeysetUncertainty env environment reason db = (db', err)"
      by (cases "LatchKeysetUncertainty env environment reason db")
    show ?thesis
    proof (cases "a9EnvironmentID environment")
      case None
      then show ?thesis
        using assms Op_LatchKeyset reg_le_refl by (simp add: LatchKeysetUncertainty_def)
    next
      case (Some e)
      show ?thesis
        using le [OF LatchKeysetUncertainty_refines(1) [OF assms Some r] reg_le_latch] r Op_LatchKeyset by simp
    qed
  qed
qed

lemma store_run_ok:
  "keyset_tables_ok db \<Longrightarrow> keyset_tables_ok (store_run ops db) \<and> (\<exists>a. kd_accepted (store_run ops db) = kd_accepted db @ a) \<and>
     (\<forall>e. reg_le (register_of e db) (register_of e (store_run ops db)))"
proof (induction ops arbitrary: db)
  case (Cons op ops)
  note s = store_step_ok [OF Cons.prems, of op]
  have "keyset_tables_ok (store_run ops (store_step op db)) \<and> (\<exists>a. kd_accepted (store_run ops (store_step op db)) = kd_accepted (store_step op db) @ a) \<and>
      (\<forall>e. reg_le (register_of e (store_step op db)) (register_of e (store_run ops (store_step op db))))"
    using Cons.IH s by blast
  then show ?case
    using s reg_le_trans unfolding store_run_def by (simp add: fold_Cons) (metis append.assoc)
qed (simp add: store_run_def reg_le_refl)

text \<open>On a connection that runs, what the specification rejects is rejected.\<close>

lemma AcceptKeyset_rejects:
  assumes ok: "keyset_tables_ok db" and e: "a9EnvironmentID (aks_Environment c) = Some e" and env: "se_context_ok env" "se_attempts env = []"
    and spec: "case validateA9AcceptedKeyset c of None \<Rightarrow> True | Some v \<Rightarrow> snd (spec_accept c (vd_object v) (register_of e db))"
  shows "snd (snd (AcceptKeyset env c db)) = Some ErrKeysetRejected"
proof (cases "validateA9AcceptedKeyset c")
  case None
  obtain d where "latchKeysetUncertaintyOnce (se_clock env 4) (aks_Environment c) e (a9UncertaintyReason ''KEY_STATE'') db = Inr d"
    using latch_refines [OF ok environment_ids [OF e] conjunct1 [OF reason_range] conjunct2 [OF reason_range], of "se_clock env 4"] by metis
  then show ?thesis
    using None e env by (simp add: AcceptKeyset_def LatchKeysetUncertainty_def a9SerializableAttempts_def eval_nat_numeral run_attempt_def)
next
  case (Some v)
  then have "e = vd_environmentID v"
    using validated_environment [OF Some] e by simp
  then obtain d st where "acceptKeysetOnce (se_clock env 4) c v db = Inr (d, st, True)"
    using accept_rejects [OF ok, of c v] spec Some by auto
  then show ?thesis
    using Some env by (simp add: AcceptKeyset_def a9SerializableAttempts_def eval_nat_numeral run_attempt_def)
qed

section \<open>Properties\<close>


definition empty_keyset_db :: keyset_db where
  "empty_keyset_db = \<lparr>kd_accepted = [], kd_online = [], kd_commitments = [], kd_states = []\<rparr>"

definition running_store :: store_env where
  "running_store = \<lparr>se_context_ok = True, se_clock = (\<lambda>_. 0), se_attempts = []\<rparr>"

text \<open>A candidate without a sequence, offered to an empty store.\<close>

definition example_candidate :: AcceptedKeyset where
  "example_candidate = \<lparr>aks_Environment = ''dev'', aks_Sequence = 0, aks_ObjectHash = [], aks_CanonicalSignedObject = [], aks_IssuedAt = 0,
     aks_ExpiresAt = hour, aks_RootKeyID = [], aks_OnlineKeys = [], aks_CommitmentKeys = []\<rparr>"

lemma empty_keyset_db_ok: "keyset_tables_ok empty_keyset_db"
  by (simp add: keyset_tables_ok_def empty_keyset_db_def)


text \<open>
  C6. In every run of the store's operations the high-water mark of each environment only moves up: a held
  keyset is kept or replaced by one with a larger sequence, uncertainty once latched is never left and its first
  reason stays, the accepted history is only appended to, and the tables keep their constraints.
\<close>

theorem keyset_high_water:
  assumes "keyset_tables_ok db"
  shows "keyset_tables_ok (store_run ops db) \<and> (\<exists>a. kd_accepted (store_run ops db) = kd_accepted db @ a) \<and>
    reg_le (register_of e db) (register_of e (store_run ops db))"
  using store_run_ok [OF assms] by blast

theorem keyset_high_water_witness:
  "keyset_tables_ok (store_run [Op_LatchKeyset running_store ''dev'' ''KEYSET_ROLLBACK'', Op_AcceptKeyset running_store example_candidate] empty_keyset_db) \<and>
   reg_le (register_of 1 empty_keyset_db)
     (register_of 1 (store_run [Op_LatchKeyset running_store ''dev'' ''KEYSET_ROLLBACK'', Op_AcceptKeyset running_store example_candidate] empty_keyset_db))"
  using keyset_high_water [OF empty_keyset_db_ok] by blast


end
