(* ===== verification/Service_Auth.thy ===== *)
theory Service_Auth
  imports Trust_Store
begin

text \<open>
  One-use service tokens: \<open>pkg/a9trust/jwt.go\<close>, \<open>pkg/a9auth/auth.go\<close> and \<open>A9ReplayStore\<close> of
  \<open>pkg/db/a9_store.go\<close>. The theory holds the validation of a compact token, the replay store in memory and the
  one in the database, and the authentication of a request that consumes the token. The interface of a replay
  store is a locale that both stores interpret; the theory shows in it that one token authenticates at most one
  request over any run, and exactly which tokens are accepted.
\<close>

section \<open>Tokens\<close>

definition jwtHeaderFields :: "bytes list" where
  "jwtHeaderFields = [''alg'', ''kid'', ''typ'']"

definition jwtClaimFields :: "bytes list" where
  "jwtClaimFields = [''iss'', ''sub'', ''aud'', ''environment'', ''iat'', ''nbf'', ''exp'', ''jti'', ''method'', ''path'', ''request_sha256'']"

record JWTExpectations =
  je_Environment :: bytes
  je_Method :: bytes
  je_Path :: bytes
  je_RequestBody :: bytes
  je_Now :: time
  je_Keyset :: "object option"

record VerifiedJWT =
  vj_Environment :: bytes
  vj_JTI :: bytes
  vj_KeyID :: bytes
  vj_IssuedAt :: time
  vj_NotBefore :: time
  vj_ExpiresAt :: time
  vj_RetainUntil :: time

text \<open>\<open>strings.Split\<close> with a one-byte separator.\<close>

fun split_on :: "char \<Rightarrow> bytes \<Rightarrow> bytes list" where
  "split_on sep [] = [[]]"
| "split_on sep (c # s) =
     (if c = sep then [] # split_on sep s else (case split_on sep s of [] \<Rightarrow> [[c]] | p # ps \<Rightarrow> (c # p) # ps))"

text \<open>\<open>strings.ToUpper\<close> of an ASCII string.\<close>

definition to_upper :: "bytes \<Rightarrow> bytes" where
  "to_upper s = map (\<lambda>c. if 97 \<le> byte_val c \<and> byte_val c \<le> 122 then byte_of (byte_val c - 32) else c) s"

definition decodeBase64URLAny :: "bytes \<Rightarrow> bytes option" where
  "decodeBase64URLAny v =
     (if v = [] \<or> CHR ''='' \<in> set v then None
      else if \<not> list_all isBase64URLByte v then None
      else (case b64_decode_strict v of None \<Rightarrow> None | Some d \<Rightarrow> if EncodeBase64URL d \<noteq> v then None else Some d))"

definition decodeCanonicalJSONObject :: "bytes \<Rightarrow> object option" where
  "decodeCanonicalJSONObject segment =
     (case decodeBase64URLAny segment of
        None \<Rightarrow> None
      | Some decoded \<Rightarrow>
          (case ParseStrictJSON decoded of
             Inr (AMap obj) \<Rightarrow>
               (case Canonicalize (AMap obj) of
                  Inl _ \<Rightarrow> None
                | Inr canonical \<Rightarrow> if EncodeBase64URL canonical \<noteq> segment then None else Some obj)
           | _ \<Rightarrow> None))"

definition exactFields :: "object \<Rightarrow> bytes list \<Rightarrow> bool" where
  "exactFields obj allowed \<longleftrightarrow> length obj = length allowed \<and> list_all (\<lambda>(name, _). name \<in> set allowed) obj"

definition BuildJWT :: "(bytes \<Rightarrow> bytes \<Rightarrow> bytes) \<Rightarrow> object \<Rightarrow> object \<Rightarrow> bytes \<Rightarrow> (bytes \<times> bytes) option" where
  "BuildJWT sign header claims seed =
     (if length seed \<noteq> 32 then None
      else (case Canonicalize (AMap header) of
         Inl _ \<Rightarrow> None
       | Inr headerBytes \<Rightarrow>
           (case Canonicalize (AMap claims) of
              Inl _ \<Rightarrow> None
            | Inr claimBytes \<Rightarrow>
                let signingInput = EncodeBase64URL headerBytes @ ''.'' @ EncodeBase64URL claimBytes
                in Some (signingInput @ ''.'' @ EncodeBase64URL (sign seed signingInput), signingInput))))"

definition claim_window_ok :: "nat \<Rightarrow> nat \<Rightarrow> nat \<Rightarrow> bool" where
  "claim_window_ok iat nbf exp \<longleftrightarrow> \<not> (exp \<le> iat \<or> exp - iat > 60 \<or> nbf > iat \<or> nbf + 5 < iat)"

definition unix :: "int \<Rightarrow> time" where
  "unix s = s * second"

definition request_bound :: "object \<Rightarrow> JWTExpectations \<Rightarrow> bool" where
  "request_bound claims expected \<longleftrightarrow>
     (let method = objectString claims ''method''; path = objectString claims ''path'';
          requestHash = objectString claims ''request_sha256'' in
      \<not> (method = [] \<or> method \<noteq> to_upper method \<or> method \<noteq> je_Method expected \<or>
         path = [] \<or> contains_any path ''?#'' \<or> path \<noteq> je_Path expected) \<and>
      \<not> (\<not> IsLowerHexSHA256 requestHash \<or> requestHash \<noteq> hex_encode (sha256 (je_RequestBody expected))))"

definition claims_header_ok :: "object \<Rightarrow> JWTExpectations \<Rightarrow> bool" where
  "claims_header_ok claims expected \<longleftrightarrow>
     \<not> (objectString claims ''iss'' \<noteq> ''hytch-modern-api'' \<or> objectString claims ''sub'' \<noteq> ''xmtp-push-a9-adapter'' \<or>
        objectString claims ''aud'' \<noteq> ''hytch.xmtp-push-bridge.a9-control'' \<or> objectString claims ''environment'' \<noteq> je_Environment expected)"

definition verified_jwt :: "object \<Rightarrow> object \<Rightarrow> nat \<Rightarrow> nat \<Rightarrow> nat \<Rightarrow> JWTExpectations \<Rightarrow> VerifiedJWT" where
  "verified_jwt header claims iat nbf exp expected =
     \<lparr>vj_Environment = je_Environment expected, vj_JTI = objectString claims ''jti'', vj_KeyID = objectString header ''kid'',
      vj_IssuedAt = unix (int iat), vj_NotBefore = unix (int nbf), vj_ExpiresAt = unix (int exp), vj_RetainUntil = unix (int exp + 5)\<rparr>"

text \<open>Every rejection is the same verdict, so that the result is an option.\<close>

definition ValidateJWT :: "ed25519_verify \<Rightarrow> bytes \<Rightarrow> JWTExpectations \<Rightarrow> VerifiedJWT option" where
  "ValidateJWT verify compact expected =
     (case split_on (CHR ''.'') compact of
        [headerSegment, claimsSegment, signatureSegment] \<Rightarrow>
     (case decodeCanonicalJSONObject headerSegment of
        None \<Rightarrow> None
      | Some header \<Rightarrow>
          if \<not> exactFields header jwtHeaderFields \<or> objectString header ''alg'' \<noteq> ''EdDSA'' \<or> objectString header ''typ'' \<noteq> ''JWT'' then None
          else
     (case decodeCanonicalJSONObject claimsSegment of
        None \<Rightarrow> None
      | Some claims \<Rightarrow>
          if \<not> exactFields claims jwtClaimFields then None
          else
     (case DecodeBase64URL signatureSegment 64 of
        None \<Rightarrow> None
      | Some signature \<Rightarrow>
          if \<not> claims_header_ok claims expected then None
          else if ParseCanonicalUUID (objectString claims ''jti'') = None then None
          else if \<not> request_bound claims expected then None
          else
     (case nonnegativeInteger (lookup claims ''iat'') of
        Inl _ \<Rightarrow> None
      | Inr iat \<Rightarrow>
     (case nonnegativeInteger (lookup claims ''nbf'') of
        Inl _ \<Rightarrow> None
      | Inr nbf \<Rightarrow>
     (case nonnegativeInteger (lookup claims ''exp'') of
        Inl _ \<Rightarrow> None
      | Inr exp \<Rightarrow>
          if \<not> claim_window_ok iat nbf exp then None
          else if je_Now expected < unix (int iat) - 5 * second \<or> je_Now expected < unix (int nbf) - 5 * second \<or>
            je_Now expected > unix (int exp + 5) then None
          else
     (case je_Keyset expected of
        None \<Rightarrow> None
      | Some keyset \<Rightarrow>
     (case OnlineKeyAt keyset (objectString header ''kid'') ''SERVICE_AUTH'' (unix (int iat)) of
        Inl _ \<Rightarrow> None
      | Inr publicKey \<Rightarrow>
          if \<not> verify publicKey (headerSegment @ ''.'' @ claimsSegment) signature then None
          else Some (verified_jwt header claims iat nbf exp expected)))))))))
      | _ \<Rightarrow> None)"

section \<open>The replay store in memory\<close>

type_synonym memory_store = "bytes \<Rightarrow> time option"

definition NewReplayStore :: memory_store where
  "NewReplayStore = (\<lambda>_. None)"

definition memory_key :: "bytes \<Rightarrow> bytes \<Rightarrow> bytes" where
  "memory_key environment jti = environment @ [byte_of 0] @ jti"

definition memory_Consume :: "bytes \<Rightarrow> bytes \<Rightarrow> time \<Rightarrow> time \<Rightarrow> memory_store \<Rightarrow> memory_store \<times> bool" where
  "memory_Consume environment jti retainUntil now used =
     (let kept = (\<lambda>key. case used key of None \<Rightarrow> None | Some deadline \<Rightarrow> if now > deadline then None else Some deadline);
          key = memory_key environment jti in
      if (case kept key of None \<Rightarrow> False | Some deadline \<Rightarrow> \<not> now > deadline) then (kept, False)
      else (kept(key \<mapsto> retainUntil), True))"

definition VerifyJWT :: "ed25519_verify \<Rightarrow> bytes \<Rightarrow> JWTExpectations \<Rightarrow> memory_store option \<Rightarrow> memory_store option \<times> trust_verdict" where
  "VerifyJWT verify compact expected replay =
     (case ValidateJWT verify compact expected of
        None \<Rightarrow> (replay, Invalid ''SERVICE_AUTH'')
      | Some verified \<Rightarrow>
          (case replay of
             None \<Rightarrow> (replay, Invalid ''SERVICE_AUTH_REPLAY'')
           | Some used \<Rightarrow>
               (case memory_Consume (vj_Environment verified) (vj_JTI verified) (vj_RetainUntil verified) (je_Now expected) used of
                  (used', consumed) \<Rightarrow> (Some used', if consumed then Eligible else Invalid ''SERVICE_AUTH_REPLAY''))))"

section \<open>The replay store in the database\<close>

record jti_row =
  jr_environment :: nat
  jr_jti :: bytes
  jr_jwt_expires_at :: time
  jr_delete_after :: time
  jr_consumed_at :: time

text \<open>
  The receipts, with the latest reading of the database clock. The clock of the server does not go back, which
  is what \<open>monotone_clock\<close> below says of a call.
\<close>

record replay_db =
  rd_receipts :: "jti_row list"
  rd_clock :: time

datatype commit_result = Committed | CommitFailed | CommitLost

text \<open>What the database does to one call: readings of its clock, failures of a statement and of the commit.\<close>

record replay_env =
  re_begin_ok :: bool
  re_databaseNow :: "time option"
  re_insert_ok :: bool
  re_commitClock :: "time option"
  re_commit :: commit_result

definition validCanonicalA9UUID :: "bytes \<Rightarrow> bool" where
  "validCanonicalA9UUID v \<longleftrightarrow>
     length v = 36 \<and> v ! 8 = CHR ''-'' \<and> v ! 13 = CHR ''-'' \<and> v ! 18 = CHR ''-'' \<and> v ! 23 = CHR ''-'' \<and> map ascii_lower v = v \<and>
     list_all (\<lambda>i. i = 8 \<or> i = 13 \<or> i = 18 \<or> i = 23 \<or> is_lower_hex (v ! i)) [0..<36]"

definition receipt_for :: "nat \<Rightarrow> bytes \<Rightarrow> jti_row \<Rightarrow> bool" where
  "receipt_for environmentID jti r \<longleftrightarrow> jr_environment r = environmentID \<and> jr_jti r = jti"

definition receipt_row_ok :: "jti_row \<Rightarrow> bool" where
  "receipt_row_ok r \<longleftrightarrow> jr_environment r \<in> {1, 2} \<and> jr_delete_after r = jr_jwt_expires_at r + 5 * second \<and> jr_consumed_at r \<le> jr_delete_after r"

text \<open>None stands for \<open>errA9DatabaseUnavailable\<close>.\<close>

definition finish_commit :: "commit_result \<Rightarrow> replay_db \<Rightarrow> replay_db \<Rightarrow> bool \<Rightarrow> replay_db \<times> bool option" where
  "finish_commit c db db' consumed =
     (case c of Committed \<Rightarrow> (db', Some consumed) | CommitFailed \<Rightarrow> (db, None) | CommitLost \<Rightarrow> (db', None))"

definition A9Replay_Consume :: "replay_env \<Rightarrow> bytes \<Rightarrow> bytes \<Rightarrow> time \<Rightarrow> time \<Rightarrow> replay_db \<Rightarrow> replay_db \<times> bool option" where
  "A9Replay_Consume env environment jti retainUntil now db =
     (case a9EnvironmentID environment of
        None \<Rightarrow> (db, None)
      | Some environmentID \<Rightarrow>
          if \<not> validCanonicalA9UUID jti \<or> retainUntil = zero_time \<or> now = zero_time then (db, None)
          else if now > retainUntil then (db, None)
          else if \<not> re_begin_ok env then (db, None)
          else
     (case re_databaseNow env of
        None \<Rightarrow> (db, None)
      | Some databaseNow \<Rightarrow>
          if databaseNow > retainUntil then (db, None)
          else
            let row = \<lparr>jr_environment = environmentID, jr_jti = jti, jr_jwt_expires_at = retainUntil - 5 * second,
                  jr_delete_after = retainUntil, jr_consumed_at = databaseNow\<rparr> in
            if \<not> re_insert_ok env \<or> \<not> receipt_row_ok row then (db, None)
            else if list_ex (receipt_for environmentID jti) (rd_receipts db) then finish_commit (re_commit env) db db False
            else
     (case re_commitClock env of
        None \<Rightarrow> (db, None)
      | Some commitClock \<Rightarrow>
          if commitClock > retainUntil then (db, None)
          else finish_commit (re_commit env) db (db\<lparr>rd_receipts := rd_receipts db @ [row], rd_clock := max commitClock (rd_clock db)\<rparr>) True)))"

text \<open>
  The purge. The statement reads the clock anew for every row, and the trigger of the migration reads it once more
  before it lets the row go; \<open>finish\<close> is the clock when the statement ends.
\<close>

record purge_env =
  pe_reading :: "jti_row \<Rightarrow> time"
  pe_trigger :: "jti_row \<Rightarrow> time"
  pe_finish :: time
  pe_commit :: commit_result

definition reject_unexpired_a9_jti_delete :: "time \<Rightarrow> jti_row \<Rightarrow> bool" where
  "reject_unexpired_a9_jti_delete clock old \<longleftrightarrow> jr_delete_after old \<ge> clock"

definition PurgeExpired :: "purge_env \<Rightarrow> replay_db \<Rightarrow> replay_db \<times> nat option" where
  "PurgeExpired env db =
     (let due = \<lambda>r. jr_delete_after r < pe_reading env r;
          db' = db\<lparr>rd_receipts := filter (\<lambda>r. \<not> due r) (rd_receipts db), rd_clock := max (pe_finish env) (rd_clock db)\<rparr> in
      if list_ex (\<lambda>r. due r \<and> reject_unexpired_a9_jti_delete (pe_trigger env r) r) (rd_receipts db) then (db, None)
      else (case pe_commit env of
         Committed \<Rightarrow> (db', Some (length (filter due (rd_receipts db))))
       | CommitFailed \<Rightarrow> (db, None)
       | CommitLost \<Rightarrow> (db', None)))"

section \<open>Authentication of a request\<close>

datatype auth_error = ErrServiceAuth | ErrServiceAuthReplay | ErrReplayStoreUnavailable

definition keysetEnvironment :: "object \<Rightarrow> bytes" where
  "keysetEnvironment keyset = objectString keyset ''environment''"

definition validExpectations :: "JWTExpectations \<Rightarrow> bool" where
  "validExpectations expected \<longleftrightarrow>
     (je_Environment expected = ''dev'' \<or> je_Environment expected = ''production'') \<and>
     je_Now expected \<noteq> zero_time \<and> je_Keyset expected \<noteq> None \<and>
     je_Method expected \<noteq> [] \<and> je_Method expected = to_upper (je_Method expected) \<and>
     take 1 (je_Path expected) = ''/'' \<and> \<not> contains_any (je_Path expected) ''?#''"

definition verify_token :: "ed25519_verify \<Rightarrow> bytes \<Rightarrow> JWTExpectations \<Rightarrow> auth_error + VerifiedJWT" where
  "verify_token verify compact expected =
     (if \<not> validExpectations expected then Inl ErrServiceAuth
      else (case ValidateJWT verify compact expected of
         None \<Rightarrow> Inl ErrServiceAuth
       | Some verified \<Rightarrow>
           if (case je_Keyset expected of None \<Rightarrow> True | Some keyset \<Rightarrow> keysetEnvironment keyset \<noteq> je_Environment expected) \<or>
             je_Now expected < vj_IssuedAt verified - 5 * second \<or> je_Now expected < vj_NotBefore verified - 5 * second \<or>
             je_Now expected > vj_RetainUntil verified
           then Inl ErrServiceAuth else Inr verified))"

text \<open>
  A replay store is its operation \<open>Consume\<close>: it takes what the outside does to the call, the pair, the retention and
  the caller's clock, and returns the new store and whether the pair was consumed, or None for an error.
\<close>

type_synonym ('w, 's) consume_op = "'w \<Rightarrow> bytes \<Rightarrow> bytes \<Rightarrow> time \<Rightarrow> time \<Rightarrow> 's \<Rightarrow> 's \<times> bool option"

definition VerifyAndConsume ::
  "ed25519_verify \<Rightarrow> ('w, 's) consume_op \<Rightarrow> bool \<Rightarrow> 'w \<Rightarrow> bytes \<Rightarrow> JWTExpectations \<Rightarrow> 's \<Rightarrow> 's \<times> (auth_error + VerifiedJWT)" where
  "VerifyAndConsume verify consume ctx_ok w compact expected store =
     (case verify_token verify compact expected of
        Inl e \<Rightarrow> (store, Inl e)
      | Inr verified \<Rightarrow>
          if \<not> ctx_ok then (store, Inl ErrReplayStoreUnavailable)
          else (case consume w (vj_Environment verified) (vj_JTI verified) (vj_RetainUntil verified) (je_Now expected) store of
             (store', None) \<Rightarrow> (store', Inl ErrReplayStoreUnavailable)
           | (store', Some consumed) \<Rightarrow> (store', if \<not> consumed then Inl ErrServiceAuthReplay else Inr verified)))"

text \<open>A run of a store: requests that authenticate, and housekeeping of the store, in the order they take effect.\<close>

datatype ('w, 'o) auth_event = Request bool 'w bytes JWTExpectations | Housekeeping 'o

fun auth_run :: "ed25519_verify \<Rightarrow> ('w, 's) consume_op \<Rightarrow> ('o \<Rightarrow> 's \<Rightarrow> 's) \<Rightarrow> ('w, 'o) auth_event list \<Rightarrow> 's \<Rightarrow> (bytes \<times> (auth_error + VerifiedJWT)) list" where
  "auth_run verify consume tick [] s = []"
| "auth_run verify consume tick (Request ctx_ok w compact expected # es) s =
     (case VerifyAndConsume verify consume ctx_ok w compact expected s of
        (s', result) \<Rightarrow> (compact, result) # auth_run verify consume tick es s')"
| "auth_run verify consume tick (Housekeeping h # es) s = auth_run verify consume tick es (tick h s)"

definition accepted_as :: "bytes \<Rightarrow> bytes \<times> (auth_error + VerifiedJWT) \<Rightarrow> bool" where
  "accepted_as compact entry \<longleftrightarrow> fst entry = compact \<and> (case snd entry of Inl _ \<Rightarrow> False | Inr _ \<Rightarrow> True)"

text \<open>The clocks of a run: every call finds the store as the calls before it left it.\<close>

fun clocks_ok :: "ed25519_verify \<Rightarrow> ('w, 's) consume_op \<Rightarrow> ('o \<Rightarrow> 's \<Rightarrow> 's) \<Rightarrow> ('w \<Rightarrow> time \<Rightarrow> 's \<Rightarrow> bool) \<Rightarrow> ('o \<Rightarrow> 's \<Rightarrow> bool) \<Rightarrow>
    ('w, 'o) auth_event list \<Rightarrow> 's \<Rightarrow> bool" where
  "clocks_ok verify consume tick call_ok tick_ok [] s \<longleftrightarrow> True"
| "clocks_ok verify consume tick call_ok tick_ok (Request ctx_ok w compact expected # es) s \<longleftrightarrow>
     call_ok w (je_Now expected) s \<and>
     clocks_ok verify consume tick call_ok tick_ok es (fst (VerifyAndConsume verify consume ctx_ok w compact expected s))"
| "clocks_ok verify consume tick call_ok tick_ok (Housekeeping h # es) s \<longleftrightarrow>
     tick_ok h s \<and> clocks_ok verify consume tick call_ok tick_ok es (tick h s)"

section \<open>Tokens: facts\<close>

lemma split_on_nonempty [simp]: "split_on sep s \<noteq> []"
  by (cases s) (auto split: list.splits)

lemma split_on_none: "sep \<notin> set s \<Longrightarrow> split_on sep s = [s]"
  by (induction s) auto

lemma split_on_append: "sep \<notin> set s \<Longrightarrow> split_on sep (s @ sep # t) = s # split_on sep t"
  by (induction s) (auto split: list.splits)

text \<open>The token alone fixes the identifier and the retention of whatever it verifies as.\<close>

lemma ValidateJWT_token_fixed:
  assumes "ValidateJWT verify compact a = Some v" and "ValidateJWT verify' compact b = Some w"
  shows "vj_JTI v = vj_JTI w \<and> vj_RetainUntil v = vj_RetainUntil w \<and> vj_Environment v = vj_Environment w"
  using assms
  by (auto simp: ValidateJWT_def verified_jwt_def claims_header_ok_def split: list.splits option.splits sum.splits if_splits)

lemma verify_token_Inr:
  "verify_token verify compact expected = Inr v \<Longrightarrow>
     ValidateJWT verify compact expected = Some v \<and> je_Now expected \<le> vj_RetainUntil v"
  by (auto simp: verify_token_def split: if_splits option.splits)

section \<open>The interface of a replay store\<close>

text \<open>
  \<open>spent s e j r\<close> is the promise of the store: the pair \<open>(e, j)\<close> is fenced through the moment \<open>r\<close>. \<open>call_ok\<close> and
  \<open>tick_ok\<close> say that the clock the store relies on has not gone back.
\<close>

locale replay_fence =
  fixes consume :: "('w, 's) consume_op"
    and tick :: "'o \<Rightarrow> 's \<Rightarrow> 's"
    and call_ok :: "'w \<Rightarrow> time \<Rightarrow> 's \<Rightarrow> bool"
    and tick_ok :: "'o \<Rightarrow> 's \<Rightarrow> bool"
    and spent :: "'s \<Rightarrow> bytes \<Rightarrow> bytes \<Rightarrow> time \<Rightarrow> bool"
  assumes consume_spends: "call_ok w now s \<Longrightarrow> consume w e j r now s = (s', Some True) \<Longrightarrow> spent s' e j r"
    and consume_keeps: "call_ok w now s \<Longrightarrow> spent s e j r \<Longrightarrow> spent (fst (consume w e' j' r' now s)) e j r"
    and spent_refuses: "call_ok w now s \<Longrightarrow> spent s e j r \<Longrightarrow> now \<le> r \<Longrightarrow> snd (consume w e j r now s) \<noteq> Some True"
    and tick_keeps: "tick_ok h s \<Longrightarrow> spent s e j r \<Longrightarrow> spent (tick h s) e j r"
begin

lemma spent_token_refused:
  assumes "clocks_ok verify consume tick call_ok tick_ok es s"
    and "ValidateJWT verify' compact ex = Some v" and "spent s (vj_Environment v) (vj_JTI v) (vj_RetainUntil v)"
  shows "filter (accepted_as compact) (auth_run verify consume tick es s) = []"
  using assms(1,3)
proof (induction es arbitrary: s)
  case (Cons e es)
  show ?case
  proof (cases e)
    case (Request ctx_ok w c ex')
    define s' where "s' = fst (VerifyAndConsume verify consume ctx_ok w c ex' s)"
    have ok: "call_ok w (je_Now ex') s"
      using Cons.prems(1) Request by simp
    have kept: "spent s' (vj_Environment v) (vj_JTI v) (vj_RetainUntil v)"
      using consume_keeps [OF ok Cons.prems(2)] Cons.prems(2)
      by (auto simp: s'_def VerifyAndConsume_def split: sum.splits prod.splits option.splits) (metis fst_conv)+
    have "\<not> accepted_as compact (c, snd (VerifyAndConsume verify consume ctx_ok w c ex' s))"
    proof
      assume acc: "accepted_as compact (c, snd (VerifyAndConsume verify consume ctx_ok w c ex' s))"
      then obtain u where u: "verify_token verify compact ex' = Inr u" and c: "c = compact"
        by (auto simp: accepted_as_def VerifyAndConsume_def split: sum.splits)
      have same: "vj_JTI u = vj_JTI v \<and> vj_RetainUntil u = vj_RetainUntil v \<and> vj_Environment u = vj_Environment v"
        using verify_token_Inr [OF u] ValidateJWT_token_fixed [OF _ assms(2)] by blast
      then have "snd (consume w (vj_Environment u) (vj_JTI u) (vj_RetainUntil u) (je_Now ex') s) \<noteq> Some True"
        using spent_refuses [OF ok Cons.prems(2)] verify_token_Inr [OF u] by simp
      then show False
        using acc u c by (auto simp: accepted_as_def VerifyAndConsume_def split: sum.splits prod.splits option.splits if_splits)
    qed
    then show ?thesis
      using Cons.IH [OF _ kept] Cons.prems(1) Request by (simp add: s'_def case_prod_unfold)
  next
    case (Housekeeping h)
    then show ?thesis
      using Cons.IH [OF _ tick_keeps] Cons.prems by simp
  qed
qed simp

lemma accepted_spends:
  assumes "call_ok w (je_Now ex) s" and "VerifyAndConsume verify consume ctx_ok w c ex s = (s', Inr v)"
  shows "ValidateJWT verify c ex = Some v \<and> spent s' (vj_Environment v) (vj_JTI v) (vj_RetainUntil v)"
  using assms consume_spends [OF assms(1)] verify_token_Inr
  by (auto simp: VerifyAndConsume_def split: sum.splits if_splits prod.splits option.splits)

lemma one_use:
  assumes "clocks_ok verify consume tick call_ok tick_ok es s"
  shows "length (filter (accepted_as compact) (auth_run verify consume tick es s)) \<le> 1"
  using assms
proof (induction es arbitrary: s)
  case (Cons e es)
  show ?case
  proof (cases e)
    case (Request ctx_ok w c ex)
    obtain s' res where step: "VerifyAndConsume verify consume ctx_ok w c ex s = (s', res)"
      by fastforce
    have ok: "call_ok w (je_Now ex) s" and rest: "clocks_ok verify consume tick call_ok tick_ok es s'"
      using Cons.prems Request step by simp_all
    show ?thesis
    proof (cases "accepted_as compact (c, res)")
      case True
      then obtain v where v: "res = Inr v" "c = compact"
        by (auto simp: accepted_as_def split: sum.splits)
      then have "filter (accepted_as compact) (auth_run verify consume tick es s') = []"
        using accepted_spends [OF ok] step spent_token_refused [OF rest] by blast
      then show ?thesis
        using Request step by simp
    qed (use Cons.IH [OF rest] Request step in simp)
  qed (use Cons in simp)
qed simp

end

section \<open>The two stores\<close>

text \<open>The store in memory with the latest clock of its callers; it has no housekeeping of its own.\<close>

definition memory_op :: "(unit, memory_store \<times> time) consume_op" where
  "memory_op w environment jti retainUntil now = (\<lambda>(used, latest).
     case memory_Consume environment jti retainUntil now used of (used', consumed) \<Rightarrow> ((used', max now latest), Some consumed))"

definition memory_call_ok :: "unit \<Rightarrow> time \<Rightarrow> memory_store \<times> time \<Rightarrow> bool" where
  "memory_call_ok w now s \<longleftrightarrow> snd s \<le> now"

definition memory_spent :: "memory_store \<times> time \<Rightarrow> bytes \<Rightarrow> bytes \<Rightarrow> time \<Rightarrow> bool" where
  "memory_spent s e j r \<longleftrightarrow> r < snd s \<or> (case fst s (memory_key e j) of None \<Rightarrow> False | Some d \<Rightarrow> r \<le> d)"

interpretation memory_fence: replay_fence memory_op "\<lambda>_ :: unit. id" memory_call_ok "\<lambda>_ _. True" memory_spent
  by unfold_locales
    (auto simp: memory_op_def memory_Consume_def memory_call_ok_def memory_spent_def Let_def split: option.splits if_splits prod.splits)

definition database_call_ok :: "replay_env \<Rightarrow> time \<Rightarrow> replay_db \<Rightarrow> bool" where
  "database_call_ok env now db \<longleftrightarrow> (case re_commitClock env of None \<Rightarrow> True | Some commitClock \<Rightarrow> rd_clock db \<le> commitClock)"

definition database_purge :: "purge_env \<Rightarrow> replay_db \<Rightarrow> replay_db" where
  "database_purge env db = fst (PurgeExpired env db)"

definition database_purge_ok :: "purge_env \<Rightarrow> replay_db \<Rightarrow> bool" where
  "database_purge_ok env db \<longleftrightarrow> list_all (\<lambda>r. pe_reading env r \<le> pe_finish env) (rd_receipts db)"

definition database_spent :: "replay_db \<Rightarrow> bytes \<Rightarrow> bytes \<Rightarrow> time \<Rightarrow> bool" where
  "database_spent db e j r \<longleftrightarrow>
     (case a9EnvironmentID e of
        None \<Rightarrow> True
      | Some environmentID \<Rightarrow> r < rd_clock db \<or> list_ex (\<lambda>row. receipt_for environmentID j row \<and> r \<le> jr_delete_after row) (rd_receipts db))"

lemma Consume_True:
  assumes "A9Replay_Consume env e j r now db = (db', Some True)"
  obtains environmentID databaseNow commitClock where "a9EnvironmentID e = Some environmentID" "re_commitClock env = Some commitClock"
    "commitClock \<le> r" "\<not> list_ex (receipt_for environmentID j) (rd_receipts db)"
    "db' = db\<lparr>rd_receipts := rd_receipts db @ [\<lparr>jr_environment = environmentID, jr_jti = j, jr_jwt_expires_at = r - 5 * second,
       jr_delete_after = r, jr_consumed_at = databaseNow\<rparr>], rd_clock := max commitClock (rd_clock db)\<rparr>"
  using assms unfolding A9Replay_Consume_def
  by (auto simp: Let_def finish_commit_def split: option.splits if_splits commit_result.splits)

text \<open>A call leaves the receipts alone or adds one, and moves the clock forward.\<close>

lemma Consume_extends:
  "\<exists>rows. rd_receipts (fst (A9Replay_Consume env e j r now db)) = rd_receipts db @ rows \<and>
     rd_clock db \<le> rd_clock (fst (A9Replay_Consume env e j r now db))"
  unfolding A9Replay_Consume_def
  by (auto simp: Let_def finish_commit_def split: option.splits if_splits commit_result.splits)

lemma Consume_keeps:
  "database_spent db e j r \<Longrightarrow> database_spent (fst (A9Replay_Consume env e' j' r' now db)) e j r"
  using Consume_extends [of env e' j' r' now db]
  by (auto simp: database_spent_def split: option.splits)

lemma purge_keeps:
  assumes "database_purge_ok h db" and "database_spent db e j r"
  shows "database_spent (database_purge h db) e j r"
proof (cases "a9EnvironmentID e")
  case (Some environmentID)
  show ?thesis
  proof (cases "fst (PurgeExpired h db) = db")
    case False
    then have f: "fst (PurgeExpired h db) = db\<lparr>rd_receipts := filter (\<lambda>r. \<not> jr_delete_after r < pe_reading h r) (rd_receipts db),
        rd_clock := max (pe_finish h) (rd_clock db)\<rparr>"
      by (auto simp: PurgeExpired_def Let_def split: if_splits commit_result.splits)
    show ?thesis
      using assms Some unfolding database_purge_def f
      by (force simp: database_spent_def database_purge_ok_def list_ex_iff list_all_iff)
  qed (use assms in \<open>simp add: database_purge_def\<close>)
qed (simp add: database_spent_def)

lemma spent_refused:
  assumes "database_call_ok env now db" and "database_spent db e j r"
  shows "snd (A9Replay_Consume env e j r now db) \<noteq> Some True"
proof
  assume "snd (A9Replay_Consume env e j r now db) = Some True"
  then obtain db' where "A9Replay_Consume env e j r now db = (db', Some True)"
    by (metis prod.collapse)
  then show False
    by (rule Consume_True) (use assms in \<open>auto simp: database_call_ok_def database_spent_def list_ex_iff\<close>)
qed

interpretation database_fence: replay_fence A9Replay_Consume database_purge database_call_ok database_purge_ok database_spent
proof unfold_locales
  fix w now s e j r s'
  assume "A9Replay_Consume w e j r now s = (s', Some True)"
  then show "database_spent s' e j r"
    by (rule Consume_True) (simp add: database_spent_def receipt_for_def)
qed (auto intro: Consume_keeps purge_keeps dest: spent_refused)

section \<open>Which tokens are accepted\<close>

lemma decodeBase64URLAny_iff: "decodeBase64URLAny v = Some d \<longleftrightarrow> v = EncodeBase64URL d \<and> d \<noteq> []"
  using b64_encode_URL [of d] b64_canonical_iff [of v d] b64_encode_Nil_iff [of d]
  by (auto simp: decodeBase64URLAny_def EncodeBase64URL_def split: if_splits option.splits)

text \<open>A segment decodes to an object exactly when it is the only spelling of that object.\<close>

definition spells :: "bytes \<Rightarrow> object \<Rightarrow> bool" where
  "spells segment obj \<longleftrightarrow>
     (\<exists>t. Canonicalize (AMap obj) = Inr t \<and> ParseStrictJSON t = Inr (AMap obj) \<and> segment = EncodeBase64URL t)"

lemma decodeCanonicalJSONObject_iff: "decodeCanonicalJSONObject segment = Some obj \<longleftrightarrow> spells segment obj"
proof
  assume "decodeCanonicalJSONObject segment = Some obj"
  then obtain d t where "decodeBase64URLAny segment = Some d" "ParseStrictJSON d = Inr (AMap obj)"
    "Canonicalize (AMap obj) = Inr t" "segment = EncodeBase64URL t"
    by (auto simp: decodeCanonicalJSONObject_def split: option.splits sum.splits any.splits if_splits)
  then show "spells segment obj"
    by (auto simp: spells_def decodeBase64URLAny_iff EncodeBase64URL_def)
next
  assume "spells segment obj"
  then obtain t where t: "Canonicalize (AMap obj) = Inr t" "ParseStrictJSON t = Inr (AMap obj)" "segment = EncodeBase64URL t"
    by (auto simp: spells_def)
  then have "decodeBase64URLAny segment = Some t"
    using Canonicalize_AMap_brace by (fastforce simp: decodeBase64URLAny_iff)
  then show "decodeCanonicalJSONObject segment = Some obj"
    using t by (simp add: decodeCanonicalJSONObject_def)
qed

lemma b64_no_dot: "CHR ''.'' \<notin> set (EncodeBase64URL d)"
  using b64_encode_URL(1) [of d] by (auto simp: EncodeBase64URL_def list_all_iff isBase64URLByte_def)

lemma spells_no_dot: "spells segment obj \<Longrightarrow> CHR ''.'' \<notin> set segment"
  using b64_no_dot by (auto simp: spells_def)

lemma split_three:
  "split_on sep s = [a, b, c] \<Longrightarrow> s = a @ sep # b @ sep # c"
proof -
  have join: "s = concat (map (\<lambda>p. p @ [sep]) (butlast (split_on sep s))) @ last (split_on sep s)"
    by (induction s) (auto split: list.splits)
  assume "split_on sep s = [a, b, c]"
  with join show ?thesis
    by simp
qed

definition times_ok :: "object \<Rightarrow> nat \<Rightarrow> nat \<Rightarrow> nat \<Rightarrow> time \<Rightarrow> bool" where
  "times_ok claims iat nbf exp now \<longleftrightarrow>
     nonnegativeInteger (lookup claims ''iat'') = Inr iat \<and> nonnegativeInteger (lookup claims ''nbf'') = Inr nbf \<and>
     nonnegativeInteger (lookup claims ''exp'') = Inr exp \<and> iat < exp \<and> exp \<le> iat + 60 \<and> nbf \<le> iat \<and> iat \<le> nbf + 5 \<and>
     unix (int iat - 5) \<le> now \<and> now \<le> unix (int exp + 5)"

lemma ValidateJWT_iff:
  "ValidateJWT verify compact expected = Some v \<longleftrightarrow>
     (\<exists>h c header claims signature iat nbf exp keyset publicKey.
        compact = h @ ''.'' @ c @ ''.'' @ EncodeBase64URL signature \<and> length signature = 64 \<and> spells h header \<and> spells c claims \<and>
        exactFields header jwtHeaderFields \<and> objectString header ''alg'' = ''EdDSA'' \<and> objectString header ''typ'' = ''JWT'' \<and>
        exactFields claims jwtClaimFields \<and> claims_header_ok claims expected \<and> ParseCanonicalUUID (objectString claims ''jti'') \<noteq> None \<and>
        request_bound claims expected \<and> times_ok claims iat nbf exp (je_Now expected) \<and> je_Keyset expected = Some keyset \<and>
        OnlineKeyAt keyset (objectString header ''kid'') ''SERVICE_AUTH'' (unix (int iat)) = Inr publicKey \<and>
        verify publicKey (h @ ''.'' @ c) signature \<and> v = verified_jwt header claims iat nbf exp expected)" (is "?l \<longleftrightarrow> ?r")
proof
  assume ?l
  then obtain h c sg header claims signature iat nbf exp keyset publicKey where
    split: "split_on (CHR ''.'') compact = [h, c, sg]" and
    *: "decodeCanonicalJSONObject h = Some header" "decodeCanonicalJSONObject c = Some claims" "DecodeBase64URL sg 64 = Some signature"
      "exactFields header jwtHeaderFields \<and> objectString header ''alg'' = ''EdDSA'' \<and> objectString header ''typ'' = ''JWT''"
      "exactFields claims jwtClaimFields" "claims_header_ok claims expected" "ParseCanonicalUUID (objectString claims ''jti'') \<noteq> None"
      "request_bound claims expected" "nonnegativeInteger (lookup claims ''iat'') = Inr iat" "nonnegativeInteger (lookup claims ''nbf'') = Inr nbf"
      "nonnegativeInteger (lookup claims ''exp'') = Inr exp" "claim_window_ok iat nbf exp"
      "\<not> (je_Now expected < unix (int iat) - 5 * second)" "\<not> je_Now expected > unix (int exp + 5)" "je_Keyset expected = Some keyset"
      "OnlineKeyAt keyset (objectString header ''kid'') ''SERVICE_AUTH'' (unix (int iat)) = Inr publicKey"
      "verify publicKey (h @ ''.'' @ c) signature" "v = verified_jwt header claims iat nbf exp expected"
    unfolding ValidateJWT_def by (auto split: list.splits option.splits sum.splits if_splits)
  have "times_ok claims iat nbf exp (je_Now expected)"
    using * by (auto simp: times_ok_def claim_window_ok_def unix_def algebra_simps)
  moreover have "compact = h @ ''.'' @ c @ ''.'' @ EncodeBase64URL signature" "length signature = 64" "spells h header" "spells c claims"
    using split_three [OF split] *(1-3) by (simp_all add: DecodeBase64URL_iff decodeCanonicalJSONObject_iff)
  ultimately show ?r
    using *(4-8,15-18) by blast
next
  assume ?r
  then obtain h c header claims signature iat nbf exp keyset publicKey where
    *: "compact = h @ ''.'' @ c @ ''.'' @ EncodeBase64URL signature" "length signature = 64" "spells h header" "spells c claims"
      "times_ok claims iat nbf exp (je_Now expected)" "je_Keyset expected = Some keyset"
      "OnlineKeyAt keyset (objectString header ''kid'') ''SERVICE_AUTH'' (unix (int iat)) = Inr publicKey"
      "verify publicKey (h @ ''.'' @ c) signature" "v = verified_jwt header claims iat nbf exp expected" and
    guards: "exactFields header jwtHeaderFields" "objectString header ''alg'' = ''EdDSA''" "objectString header ''typ'' = ''JWT''"
      "exactFields claims jwtClaimFields" "claims_header_ok claims expected" "ParseCanonicalUUID (objectString claims ''jti'') \<noteq> None"
      "request_bound claims expected"
    by blast
  have "split_on (CHR ''.'') compact = [h, c, EncodeBase64URL signature]"
    using *(1) spells_no_dot [OF *(3)] spells_no_dot [OF *(4)] b64_no_dot [of signature] by (simp add: split_on_append split_on_none)
  moreover have "DecodeBase64URL (EncodeBase64URL signature) 64 = Some signature"
    using *(2) by (simp add: DecodeBase64URL_Encode)
  moreover have "claim_window_ok iat nbf exp \<and> \<not> je_Now expected < unix (int iat) - 5 * second \<and>
      \<not> je_Now expected < unix (int nbf) - 5 * second \<and> \<not> je_Now expected > unix (int exp + 5)"
    using *(5) by (auto simp: times_ok_def claim_window_ok_def unix_def duration_defs)
  ultimately show ?l
    using * guards by (simp add: ValidateJWT_def decodeCanonicalJSONObject_iff [THEN iffD2] times_ok_def)
qed

end
