(* ===== verification/Service_Claims.thy ===== *)
theory Service_Claims
  imports Service_Auth
begin

text \<open>
  What holds of the service tokens of \<open>Service_Auth\<close>: exactly which tokens are accepted, and that a token
  authenticates at most one request, with an example of a token that does.
\<close>

section \<open>Claims\<close>


text \<open>An example of a token: objects of text and small numbers always have a spelling.\<close>

definition flat_member :: "bytes \<times> any \<Rightarrow> bool" where
  "flat_member m \<longleftrightarrow> isASCII (fst m) \<and>
     ((\<exists>s. snd m = AString s \<and> isASCII s) \<or> (\<exists>n\<le>maxIJSONInteger. snd m = ANumber (dec n)))"

lemma canonicalInteger_dec:
  assumes "n \<le> maxIJSONInteger"
  shows "canonicalInteger (dec n) = Inr (dec n)"
proof -
  have "\<not> contains_any (dec n) ''.eE+-''" "dec n \<noteq> ''-0''"
    using dec_digits [of n] by (auto simp: contains_any_def list_ex_iff list_all_iff is_digit_def)
  moreover have "dec n \<noteq> ''0'' \<Longrightarrow> hd (dec n) \<noteq> CHR ''0''"
    using dec_no_leading_zero [of n] dec_not_Nil [of n] by (metis list.collapse)
  moreover have "parse_uint (dec n) = Some n"
    using assms by (intro parse_uint_dec) (simp add: maxIJSONInteger_def)
  ultimately show ?thesis
    using assms dec_digits [of n] by (auto simp: canonicalInteger_def)
qed

lemma flat_members_written: "list_all flat_member ms \<Longrightarrow> \<exists>t. canonical_members sep ms = Inr t"
proof (induction ms arbitrary: sep)
  case (Cons m ms)
  obtain t where "canonical_members '','' ms = Inr t"
    using Cons by auto
  then show ?case
    using Cons.prems by (cases m) (auto simp: flat_member_def appendASCIIString_def canonicalInteger_dec and_then_def)
qed simp

lemma flat_spells:
  assumes "list_all flat_member ms" and "sorted (map fst ms)" and "distinct (map fst ms)"
  shows "\<exists>segment. spells segment ms"
proof -
  have sort: "sort_key fst ms = ms"
    using assms(2) by (rule sort_key_id_if_sorted)
  obtain t where "canonical_members [] ms = Inr t"
    using flat_members_written [OF assms(1)] by blast
  moreover have "list_all (\<lambda>m. isASCII (fst m)) ms"
    using assms(1) by (auto simp: list_all_iff flat_member_def)
  ultimately obtain u where u: "Canonicalize (AMap ms) = Inr u"
    by (simp add: Canonicalize_def sort and_then_def)
  have leaf: "well_formed (snd m) \<and> canonical_form (snd m) = snd m" if "m \<in> set ms" for m
    using assms(1) that by (auto simp: list_all_iff flat_member_def)
  then have "well_formed (AMap ms)"
    using assms(3) by simp
  moreover have "canonical_form (AMap ms) = AMap ms"
    using leaf sort by (simp add: map_idI)
  ultimately show ?thesis
    using Parse_Canonicalize [OF u] u by (auto simp: spells_def)
qed

definition example_jti :: bytes where
  "example_jti = ''00000000-0000-4000-8000-000000000001''"

definition example_token_header :: object where
  "example_token_header = [(''alg'', AString ''EdDSA''), (''kid'', AString ''auth''), (''typ'', AString ''JWT'')]"

definition example_claims :: object where
  "example_claims =
     [(''aud'', AString ''hytch.xmtp-push-bridge.a9-control''), (''environment'', AString ''dev''), (''exp'', ANumber (dec 1767225660)),
      (''iat'', ANumber (dec 1767225600)), (''iss'', AString ''hytch-modern-api''), (''jti'', AString example_jti),
      (''method'', AString ''POST''), (''nbf'', ANumber (dec 1767225600)), (''path'', AString ''/v1''),
      (''request_sha256'', AString (hex_encode (sha256 ''{}''))), (''sub'', AString ''xmtp-push-a9-adapter'')]"

definition example_expectations :: JWTExpectations where
  "example_expectations = \<lparr>je_Environment = ''dev'', je_Method = ''POST'', je_Path = ''/v1'', je_RequestBody = ''{}'',
     je_Now = unix 1767225601, je_Keyset = Some ((''environment'', AString ''dev'') # example_keyset 1 1 transition_keys)\<rparr>"

definition example_call :: "int \<Rightarrow> replay_env" where
  "example_call clock = \<lparr>re_begin_ok = True, re_databaseNow = Some (unix clock), re_insert_ok = True, re_commitClock = Some (unix clock), re_commit = Committed\<rparr>"

lemma hex_encode_ASCII: "isASCII (hex_encode s)"
  using hex_encode_lower [of s] by (auto simp: isASCII_def list_all_iff is_lower_hex_def)

lemma example_names:
  "sorted [''alg'', ''kid'', ''typ''] \<and> distinct [''alg'', ''kid'', ''typ'']"
  "sorted [''aud'', ''environment'', ''exp'', ''iat'', ''iss'', ''jti'', ''method'', ''nbf'', ''path'', ''request_sha256'', ''sub''] \<and>
   distinct [''aud'', ''environment'', ''exp'', ''iat'', ''iss'', ''jti'', ''method'', ''nbf'', ''path'', ''request_sha256'', ''sub'']"
  by code_simp+

lemma example_spelled: "\<exists>h. spells h example_token_header" "\<exists>c. spells c example_claims"
proof -
  have "list_all flat_member example_token_header"
    by (simp add: example_token_header_def flat_member_def isASCII_def)
  then show "\<exists>h. spells h example_token_header"
    using example_names(1) by (intro flat_spells) (simp_all add: example_token_header_def)
  have "isASCII example_jti"
    by code_simp
  then have "list_all flat_member example_claims"
    by (auto simp: example_claims_def flat_member_def hex_encode_ASCII maxIJSONInteger_def isASCII_simps)
  then show "\<exists>c. spells c example_claims"
    using example_names(2) by (intro flat_spells) (simp_all add: example_claims_def)
qed

lemma example_key_found:
  "OnlineKeyAt ((''environment'', AString ''dev'') # example_keyset 1 1 transition_keys) ''auth'' ''SERVICE_AUTH'' (unix 1767225600) =
     Inr (replicate 32 (CHR ''k''))"
proof -
  have "parseOnlineKeys (lookup ((''environment'', AString ''dev'') # example_keyset 1 1 transition_keys) ''keys'') = Some transition_keys"
    using example_keys_listed(1) [of 1 1] by (simp add: keys_listed_def lookup_def)
  moreover have "find (\<lambda>key. ok_KeyID key = ''auth'' \<and> ok_Use key = ''SERVICE_AUTH'') transition_keys = Some (example_key ''auth'' ''SERVICE_AUTH'' ''SIGN'' 1 9)"
    by (simp add: transition_keys_def example_key_def)
  ultimately show ?thesis
    by (simp add: OnlineKeyAt_def)
      (simp add: example_key_def example_day_shift [of 9] example_day_1 unix_def duration_defs)
qed

lemma example_request: "request_bound example_claims example_expectations"
proof -
  have "to_upper ''POST'' = ''POST''" "\<not> contains_any ''/v1'' ''?#''"
    by code_simp+
  then show ?thesis
    using hex_encode_lower by (simp add: request_bound_def example_claims_def example_expectations_def objectString_def lookup_def
        IsLowerHexSHA256_def lowerHex64_def Let_def)
qed

lemma example_times: "times_ok example_claims 1767225600 1767225600 1767225660 (unix 1767225601)"
proof -
  have "integer_text (dec n) = Inr n" if "n \<le> 2000000000" for n
  proof -
    have "canonicalInteger (dec n) = Inr (dec n)" "parse_uint (dec n) = Some n"
      using that by (auto intro!: canonicalInteger_dec parse_uint_dec simp: maxIJSONInteger_def)
    then show ?thesis
      using that by (auto simp: canonicalInteger_def integer_text_def maxIJSONInteger_def split: if_splits)
  qed
  then show ?thesis
    by (simp add: times_ok_def example_claims_def lookup_def unix_def duration_defs)
qed

lemma example_fields:
  "exactFields example_token_header jwtHeaderFields" "exactFields example_claims jwtClaimFields"
  "objectString example_token_header ''alg'' = ''EdDSA''" "objectString example_token_header ''typ'' = ''JWT''" "objectString example_token_header ''kid'' = ''auth''"
  "objectString example_claims ''jti'' = example_jti" "claims_header_ok example_claims example_expectations"
  by (simp_all add: exactFields_def example_token_header_def example_claims_def jwtHeaderFields_def jwtClaimFields_def objectString_def lookup_def
      claims_header_ok_def example_expectations_def)

lemma example_jti_ok: "ParseCanonicalUUID example_jti \<noteq> None" "validCanonicalA9UUID example_jti"
  by code_simp+

lemma example_token:
  assumes "spells h example_token_header" and "spells c example_claims"
  shows "ValidateJWT (\<lambda>_ _ _. True) (h @ ''.'' @ c @ ''.'' @ EncodeBase64URL (replicate 64 (CHR ''s''))) example_expectations =
     Some (verified_jwt example_token_header example_claims 1767225600 1767225600 1767225660 example_expectations)"
proof -
  have "je_Keyset example_expectations = Some ((''environment'', AString ''dev'') # example_keyset 1 1 transition_keys)"
    "je_Now example_expectations = unix 1767225601" "length (replicate 64 (CHR ''s'')) = 64"
    by (simp_all add: example_expectations_def)
  moreover have "unix (int 1767225600) = unix 1767225600"
    by simp
  ultimately show ?thesis
    using assms example_fields example_jti_ok(1) example_request example_times example_key_found
    unfolding ValidateJWT_iff by metis
qed

lemma example_request_accepted:
  assumes "spells h example_token_header" and "spells c example_claims"
  shows "\<exists>db' v. VerifyAndConsume (\<lambda>_ _ _. True) A9Replay_Consume True (example_call 1767225602)
     (h @ ''.'' @ c @ ''.'' @ EncodeBase64URL (replicate 64 (CHR ''s''))) example_expectations \<lparr>rd_receipts = [], rd_clock = 0\<rparr> = (db', Inr v)
     \<and> rd_clock db' = unix 1767225602"
proof -
  have upper: "to_upper ''POST'' = ''POST''" "\<not> contains_any ''/v1'' ''?#''" "a9EnvironmentID ''dev'' = Some 1"
    by code_simp+
  have "verify_token (\<lambda>_ _ _. True) (h @ ''.'' @ c @ ''.'' @ EncodeBase64URL (replicate 64 (CHR ''s''))) example_expectations =
      Inr (verified_jwt example_token_header example_claims 1767225600 1767225600 1767225660 example_expectations)"
    unfolding verify_token_def example_token [OF assms] validExpectations_def
    by (simp add: example_expectations_def upper verified_jwt_def keysetEnvironment_def objectString_def lookup_def unix_def
        zero_time_def duration_defs)
  then show ?thesis
    by (simp add: VerifyAndConsume_def A9Replay_Consume_def verified_jwt_def example_fields example_jti_ok example_expectations_def upper
        example_call_def unix_def zero_time_def duration_defs receipt_row_ok_def finish_commit_def)
qed

text \<open>
  C4. One service token authenticates at most one request. Over any run of requests and purges on the replay store of
  the database, with any failures of statements and commits and any clocks of the callers, at most one request that
  presents a given compact token is accepted, provided the clock of the database does not go back.
\<close>

theorem service_token_one_use:
  assumes "clocks_ok verify A9Replay_Consume database_purge database_call_ok database_purge_ok es db"
  shows "length (filter (accepted_as compact) (auth_run verify A9Replay_Consume database_purge es db)) \<le> 1"
  using assms by (rule database_fence.one_use)

definition example_run :: "bytes \<Rightarrow> (replay_env, purge_env) auth_event list" where
  "example_run compact = [Request True (example_call 1767225602) compact example_expectations,
     Request True (example_call 1767225603) compact example_expectations]"

theorem service_token_one_use_witness:
  "\<exists>compact. length (filter (accepted_as compact) (auth_run (\<lambda>_ _ _. True) A9Replay_Consume database_purge (example_run compact)
     \<lparr>rd_receipts = [], rd_clock = 0\<rparr>)) = 1"
proof -
  obtain h c where "spells h example_token_header" "spells c example_claims"
    using example_spelled by blast
  then obtain compact db' v where step: "VerifyAndConsume (\<lambda>_ _ _. True) A9Replay_Consume True (example_call 1767225602) compact
      example_expectations \<lparr>rd_receipts = [], rd_clock = 0\<rparr> = (db', Inr v)" "rd_clock db' = unix 1767225602"
    using example_request_accepted by blast
  have "clocks_ok (\<lambda>_ _ _. True) A9Replay_Consume database_purge database_call_ok database_purge_ok (example_run compact) \<lparr>rd_receipts = [], rd_clock = 0\<rparr>"
    using step by (simp add: example_run_def database_call_ok_def example_call_def unix_def duration_defs)
  from service_token_one_use [OF this, of compact] show ?thesis
    using step by (intro exI [of _ compact]) (simp add: example_run_def accepted_as_def case_prod_unfold split: if_splits)
qed

end
