(* ===== verification/A9_Schema.thy ===== *)
theory A9_Schema
  imports Trust_Primitives
begin

text \<open>
  The closed schemas of the A9 objects: \<open>pkg/a9schema\<close> (\<open>types.go\<close>, \<open>strictjson.go\<close>, \<open>validate.go\<close>). A failure is
  its reason; the path it also carries only feeds the text of the error. The reader is the one of \<open>Go_JSON\<close> with the
  checks of this package; a Go map is its list of members, in the order in which a loop over it happens to go.
\<close>

section \<open>Kinds and reasons\<close>

datatype schema_kind = AssertionKind | ControlEventKind | KeysetKind | ResultKind | SubscriptionsReplaceKind | WatermarkKind

datatype schema_reason = ReasonFieldDomain | ReasonDuplicateKey | ReasonUnknownFieldRawRosterForbidden
  | ReasonNoncanonicalBase64URL | ReasonNoncanonicalTime | ReasonNonIJSONNumber | ReasonIntegerRange
  | ReasonWrongAudience | ReasonWelcomeClosed | ReasonTopicResolver | ReasonDuplicateSubscription

fun reason_text :: "schema_reason \<Rightarrow> bytes" where
  "reason_text ReasonFieldDomain = ''FIELD_DOMAIN''"
| "reason_text ReasonDuplicateKey = ''DUPLICATE_KEY''"
| "reason_text ReasonUnknownFieldRawRosterForbidden = ''UNKNOWN_FIELD_RAW_ROSTER_FORBIDDEN''"
| "reason_text ReasonNoncanonicalBase64URL = ''NONCANONICAL_BASE64URL''"
| "reason_text ReasonNoncanonicalTime = ''NONCANONICAL_TIME''"
| "reason_text ReasonNonIJSONNumber = ''NON_IJSON_NUMBER''"
| "reason_text ReasonIntegerRange = ''INTEGER_RANGE''"
| "reason_text ReasonWrongAudience = ''WRONG_AUDIENCE''"
| "reason_text ReasonWelcomeClosed = ''WELCOME_CLOSED''"
| "reason_text ReasonTopicResolver = ''TOPIC_RESOLVER''"
| "reason_text ReasonDuplicateSubscription = ''DUPLICATE_SUBSCRIPTION''"

definition KindForProtocol :: "bytes \<Rightarrow> schema_kind option" where
  "KindForProtocol protocol =
     (if protocol = ''hytch.a9-bridge-assertion'' then Some AssertionKind
      else if protocol = ''hytch.a9-bridge-control'' then Some ControlEventKind
      else if protocol = ''hytch.a9-bridge-keyset'' then Some KeysetKind
      else if protocol = ''hytch.a9-vault-cas-result'' then Some ResultKind
      else if protocol = ''hytch.a9-subscription-replace'' then Some SubscriptionsReplaceKind
      else if protocol = ''hytch.a9-control-watermark'' then Some WatermarkKind
      else None)"

section \<open>The strict reader\<close>

definition maxSafeInteger :: int where
  "maxSafeInteger = 9007199254740991"

text \<open>\<open>strconv.ParseInt\<close> in base 10 with 64 bits.\<close>

definition parse_int :: "bytes \<Rightarrow> int option" where
  "parse_int s =
     (let negative = s \<noteq> [] \<and> hd s = CHR ''-''; signed_text = s \<noteq> [] \<and> (hd s = CHR ''-'' \<or> hd s = CHR ''+'');
          digits = (if signed_text then tl s else s) in
      if digits = [] \<or> \<not> list_all is_digit digits then None
      else let n = int (dec_val digits) in
        if negative then (if n \<le> 2 ^ 63 then Some (- n) else None) else if n < 2 ^ 63 then Some n else None)"

definition validateJSONNumber :: "bytes \<Rightarrow> schema_reason option" where
  "validateJSONNumber v =
     (if v = [] \<or> v = ''-0'' then Some ReasonNonIJSONNumber
      else if hd v = CHR ''-'' \<and> length v = 1 then Some ReasonNonIJSONNumber
      else let digits = (if hd v = CHR ''-'' then tl v else v) in
        if hd digits = CHR ''0'' \<and> length digits \<noteq> 1 then Some ReasonNonIJSONNumber
        else if \<not> list_all is_digit digits then Some ReasonNonIJSONNumber
        else (case parse_int v of
           None \<Rightarrow> Some ReasonIntegerRange
         | Some n \<Rightarrow> if n < - maxSafeInteger \<or> n > maxSafeInteger then Some ReasonIntegerRange else None))"

definition schema_profile :: "schema_reason json_profile" where
  "schema_profile = \<lparr>jp_number = validateJSONNumber, jp_syntax = ReasonFieldDomain, jp_duplicate = ReasonDuplicateKey\<rparr>"

text \<open>What follows a backslash; the result is the rest behind the escape.\<close>

definition decodeHexQuad :: "bytes \<Rightarrow> nat option" where
  "decodeHexQuad s = map_option fst (hex4 s)"

definition consumeJSONEscape :: "bytes \<Rightarrow> bytes option" where
  "consumeJSONEscape s = (case s of
     [] \<Rightarrow> None
   | c # q \<Rightarrow>
       if byte_val c = 34 \<or> byte_val c = 92 \<or> c \<in> set ''/bfnrt'' then Some q
       else if c = CHR ''u'' then
         (case decodeHexQuad q of
            None \<Rightarrow> None
          | Some codePoint \<Rightarrow>
              let next = drop 4 q in
              if codePoint \<ge> 0xD800 \<and> codePoint \<le> 0xDBFF then
                (if length next < 6 \<or> byte_val (next ! 0) \<noteq> 92 \<or> next ! 1 \<noteq> CHR ''u'' then None
                 else (case decodeHexQuad (drop 2 next) of
                    None \<Rightarrow> None
                  | Some low \<Rightarrow> if low < 0xDC00 \<or> low > 0xDFFF then None else Some (drop 6 next)))
              else if codePoint \<ge> 0xDC00 \<and> codePoint \<le> 0xDFFF then None
              else Some next)
       else None)"

lemma consumeJSONEscape_length: "consumeJSONEscape s = Some r \<Longrightarrow> length r < length s"
  by (auto simp: consumeJSONEscape_def Let_def split: list.splits if_splits option.splits)

text \<open>
  The scan of the strings of a text; the flag says whether the scan is inside a string. A rune of several bytes is
  skipped byte by byte, which is the same in valid UTF-8, since no byte of it is a quote, a backslash or a control
  character.
\<close>

function validateJSONStringEncoding :: "bool \<Rightarrow> bytes \<Rightarrow> schema_reason option" where
  "validateJSONStringEncoding inside [] = (if inside then Some ReasonFieldDomain else None)"
| "validateJSONStringEncoding inside (c # s) =
     (if \<not> inside then validateJSONStringEncoding (byte_val c = 34) s
      else if byte_val c = 34 then validateJSONStringEncoding False s
      else if byte_val c = 92 then
        (case consumeJSONEscape s of None \<Rightarrow> Some ReasonFieldDomain | Some r \<Rightarrow> validateJSONStringEncoding True r)
      else if byte_val c < 0x20 then Some ReasonFieldDomain
      else validateJSONStringEncoding True s)"
  by pat_completeness auto

termination
  by (relation "measure (\<lambda>(_, s). length s)") (auto dest: consumeJSONEscape_length)

definition Parse :: "bytes \<Rightarrow> schema_reason + any" where
  "Parse raw =
     (if length raw \<ge> 3 \<and> map byte_val (take 3 raw) = [0xEF, 0xBB, 0xBF] then Inl ReasonFieldDomain
      else if \<not> utf8_valid raw then Inl ReasonFieldDomain
      else unless (validateJSONStringEncoding False raw)
        (and_then (read_value schema_profile raw) (\<lambda>(v, rest). if rest \<noteq> [] then Inl ReasonFieldDomain else Inr v)))"

section \<open>Fields\<close>

text \<open>Checks in sequence: the first failure is the result.\<close>

fun checks :: "'e option list \<Rightarrow> 'e option" where
  "checks [] = None"
| "checks (None # cs) = checks cs"
| "checks (Some e # cs) = Some e"

definition each :: "'a list \<Rightarrow> ('a \<Rightarrow> 'e option) \<Rightarrow> 'e option" where
  "each xs f = checks (map f xs)"

definition failed :: "'e + 'a \<Rightarrow> 'e option" where
  "failed r = (case r of Inl e \<Rightarrow> Some e | Inr _ \<Rightarrow> None)"

definition closedObject :: "any \<Rightarrow> bytes list \<Rightarrow> schema_reason + object" where
  "closedObject v required =
     (case v of
        AMap obj \<Rightarrow>
          (case find (\<lambda>(name, _). name \<notin> set required) obj of
             Some (name, _) \<Rightarrow> Inl (if name = ''roster_digest'' then ReasonUnknownFieldRawRosterForbidden else ReasonFieldDomain)
           | None \<Rightarrow> if \<not> list_all (\<lambda>name. map_of obj name \<noteq> None) required then Inl ReasonFieldDomain else Inr obj)
      | _ \<Rightarrow> Inl ReasonFieldDomain)"

definition stringField :: "object \<Rightarrow> bytes \<Rightarrow> schema_reason + bytes" where
  "stringField obj name = (case lookup obj name of AString s \<Rightarrow> Inr s | _ \<Rightarrow> Inl ReasonFieldDomain)"

definition fixedString :: "object \<Rightarrow> bytes \<Rightarrow> bytes \<Rightarrow> schema_reason \<Rightarrow> schema_reason option" where
  "fixedString obj name expected reason =
     failed (and_then (stringField obj name) (\<lambda>v. if v \<noteq> expected then Inl reason else Inr v))"

definition enumStringField :: "object \<Rightarrow> bytes \<Rightarrow> bytes list \<Rightarrow> schema_reason + bytes" where
  "enumStringField obj name allowed =
     and_then (stringField obj name) (\<lambda>v. if v \<in> set allowed then Inr v else Inl ReasonFieldDomain)"

definition integerField :: "object \<Rightarrow> bytes \<Rightarrow> int \<Rightarrow> int \<Rightarrow> schema_reason + int" where
  "integerField obj name minimum maximum =
     (case lookup obj name of
        ANumber n \<Rightarrow>
          (case parse_int n of
             None \<Rightarrow> Inl ReasonIntegerRange
           | Some v \<Rightarrow> if v < minimum \<or> v > maximum then Inl ReasonIntegerRange else Inr v)
      | _ \<Rightarrow> Inl ReasonFieldDomain)"

definition fixedInteger :: "object \<Rightarrow> bytes \<Rightarrow> int \<Rightarrow> schema_reason option" where
  "fixedInteger obj name expected =
     failed (and_then (integerField obj name expected expected) (\<lambda>v. if v \<noteq> expected then Inl ReasonFieldDomain else Inr v))"

definition environmentField :: "object \<Rightarrow> bytes \<Rightarrow> schema_reason option" where
  "environmentField obj name = failed (enumStringField obj name [''dev'', ''production''])"

definition base64URLField :: "object \<Rightarrow> bytes \<Rightarrow> nat \<Rightarrow> schema_reason \<Rightarrow> schema_reason + bytes" where
  "base64URLField obj name byteLength reason =
     and_then (stringField obj name) (\<lambda>v.
       if length v \<noteq> (byteLength * 8 + 5) div 6 then Inl reason
       else (case b64_decode_strict v of
          None \<Rightarrow> Inl reason
        | Some decoded \<Rightarrow> if length decoded \<noteq> byteLength \<or> b64_encode decoded \<noteq> v then Inl reason else Inr decoded))"

definition boundedBase64URLField :: "object \<Rightarrow> bytes \<Rightarrow> schema_reason + bytes" where
  "boundedBase64URLField obj name =
     and_then (stringField obj name) (\<lambda>v.
       if length v < 2 \<or> length v > 4096 then Inl ReasonNoncanonicalBase64URL
       else (case b64_decode_strict v of
          None \<Rightarrow> Inl ReasonNoncanonicalBase64URL
        | Some decoded \<Rightarrow> if b64_encode decoded \<noteq> v then Inl ReasonNoncanonicalBase64URL else Inr decoded))"

definition uuid_text_ok :: "bytes \<Rightarrow> bool" where
  "uuid_text_ok v \<longleftrightarrow> length v = 36 \<and>
     list_all (\<lambda>i. if i = 8 \<or> i = 13 \<or> i = 18 \<or> i = 23 then v ! i = CHR ''-'' else is_lower_hex (v ! i)) [0..<36]"

definition uuidField :: "object \<Rightarrow> bytes \<Rightarrow> schema_reason option" where
  "uuidField obj name = failed (and_then (stringField obj name) (\<lambda>v. if \<not> uuid_text_ok v then Inl ReasonFieldDomain else Inr v))"

definition timestampField :: "object \<Rightarrow> bytes \<Rightarrow> schema_reason option" where
  "timestampField obj name =
     failed (and_then (stringField obj name) (\<lambda>v.
       if length v \<noteq> length ''2006-01-02T15:04:05.000Z'' then Inl ReasonNoncanonicalTime
       else (case parse_wire v of
          None \<Rightarrow> Inl ReasonNoncanonicalTime
        | Some t \<Rightarrow> if format_wire t \<noteq> v then Inl ReasonNoncanonicalTime else Inr v)))"

definition keyIDField :: "object \<Rightarrow> bytes \<Rightarrow> bytes \<Rightarrow> schema_reason option" where
  "keyIDField obj name prefix =
     failed (and_then (stringField obj name) (\<lambda>v.
       if length v \<noteq> length prefix + 64 \<or> \<not> hasPrefix v prefix then Inl ReasonFieldDomain
       else if \<not> list_all is_lower_hex (drop (length prefix) v) then Inl ReasonFieldDomain
       else Inr v))"

definition lowerHexField :: "object \<Rightarrow> bytes \<Rightarrow> nat \<Rightarrow> schema_reason \<Rightarrow> schema_reason option" where
  "lowerHexField obj name width reason =
     failed (and_then (stringField obj name) (\<lambda>v. if length v \<noteq> width \<or> \<not> list_all is_lower_hex v then Inl reason else Inr v))"

definition arrayField :: "object \<Rightarrow> bytes \<Rightarrow> nat \<Rightarrow> nat \<Rightarrow> schema_reason + any list" where
  "arrayField obj name minimum maximum =
     (case lookup obj name of
        AArray vs \<Rightarrow> if length vs < minimum \<or> length vs > maximum then Inl ReasonFieldDomain else Inr vs
      | _ \<Rightarrow> Inl ReasonFieldDomain)"

text \<open>\<open>reflect.DeepEqual\<close> of two values that were read: equality up to the order of the members of maps.\<close>

fun sorted_form :: "any \<Rightarrow> any" where
  "sorted_form (AArray vs) = AArray (map sorted_form vs)"
| "sorted_form (AMap ms) = AMap (sort_key fst (map (\<lambda>m. (fst m, sorted_form (snd m))) ms))"
| "sorted_form v = v"

definition deep_equal :: "any \<Rightarrow> any \<Rightarrow> bool" where
  "deep_equal a b \<longleftrightarrow> sorted_form a = sorted_form b"

fun unique_from :: "any list \<Rightarrow> any list \<Rightarrow> schema_reason \<Rightarrow> schema_reason option" where
  "unique_from earlier [] reason = None"
| "unique_from earlier (v # vs) reason = (if list_ex (deep_equal v) earlier then Some reason else unique_from (earlier @ [v]) vs reason)"

definition uniqueItems :: "any list \<Rightarrow> schema_reason \<Rightarrow> schema_reason option" where
  "uniqueItems vs reason = unique_from [] vs reason"

text \<open>
  \<open>json.Marshal\<close> of a value that was read: members in the order of their names, strings with the escapes of HTML and of
  the separators U+2028 and U+2029. The reader makes no other dynamic types, for which the text here stands empty.
\<close>

datatype string_unit = UByte char | LineSeparator | ParagraphSeparator

fun string_units :: "bytes \<Rightarrow> string_unit list" where
  "string_units (a # b # c # s) =
     (if [byte_val a, byte_val b, byte_val c] = [0xE2, 0x80, 0xA8] then LineSeparator # string_units s
      else if [byte_val a, byte_val b, byte_val c] = [0xE2, 0x80, 0xA9] then ParagraphSeparator # string_units s
      else UByte a # string_units (b # c # s))"
| "string_units s = map UByte s"

fun marshal_unit :: "string_unit \<Rightarrow> bytes" where
  "marshal_unit (UByte c) = quote_esc (\<lambda>v. v = 60 \<or> v = 62 \<or> v = 38) c"
| "marshal_unit LineSeparator = byte_of 92 # ''u2028''"
| "marshal_unit ParagraphSeparator = byte_of 92 # ''u2029''"

definition marshal_string :: "bytes \<Rightarrow> bytes" where
  "marshal_string s = quoted marshal_unit (string_units s)"

fun comma_join :: "bytes list \<Rightarrow> bytes" where
  "comma_join [] = []"
| "comma_join [x] = x"
| "comma_join (x # xs) = x @ CHR '','' # comma_join xs"

fun marshal_sorted :: "any \<Rightarrow> bytes" where
  "marshal_sorted ANil = ''null''"
| "marshal_sorted (ABool b) = (if b then ''true'' else ''false'')"
| "marshal_sorted (AString v) = marshal_string v"
| "marshal_sorted (ANumber v) = v"
| "marshal_sorted (AArray vs) = CHR ''['' # comma_join (map marshal_sorted vs) @ '']''"
| "marshal_sorted (AMap ms) = CHR ''{'' # comma_join (map (\<lambda>m. marshal_string (fst m) @ CHR '':'' # marshal_sorted (snd m)) ms) @ ''}''"
| "marshal_sorted _ = []"

definition marshal :: "any \<Rightarrow> bytes" where
  "marshal v = marshal_sorted (sorted_form v)"

fun unique_keys :: "bytes set \<Rightarrow> any list \<Rightarrow> schema_reason \<Rightarrow> schema_reason option" where
  "unique_keys seen [] reason = None"
| "unique_keys seen (v # vs) reason = (if marshal v \<in> seen then Some reason else unique_keys (insert (marshal v) seen) vs reason)"

definition uniqueCanonicalItems :: "any list \<Rightarrow> schema_reason \<Rightarrow> schema_reason option" where
  "uniqueCanonicalItems vs reason = unique_keys {} vs reason"

section \<open>The schemas\<close>

definition schema_assertionFields :: "bytes list" where
  "schema_assertionFields = [''protocol'', ''schema_version'', ''audience'', ''purpose'', ''environment'', ''binding_id'',
     ''installation_binding_id'', ''lease_id'', ''binding_version'', ''stream_sequence'', ''tuple_commitment'', ''tuple_commitment_key_id'',
     ''roster_commitment'', ''roster_commitment_key_id'', ''topic_binding'', ''topic_key_epoch'', ''conversation_generation'',
     ''roster_version'', ''state'', ''issued_at'', ''expires_at'', ''signing_key_id'', ''signature_algorithm'', ''signature_base64url'']"

definition controlFields :: "bytes list" where
  "controlFields = [''protocol'', ''schema_version'', ''audience'', ''environment'', ''idempotency_key'', ''installation_binding_id'',
     ''sequencer_epoch'', ''stream_sequence'', ''expected_previous_sequence'', ''binding_id'', ''binding_version'',
     ''expected_binding_version'', ''action'', ''assertion'', ''assertion_hash'', ''reason_code'', ''issued_at'', ''expires_at'',
     ''signing_key_id'', ''signature_algorithm'', ''signature_base64url'']"

definition keysetFields :: "bytes list" where
  "keysetFields = [''protocol'', ''schema_version'', ''environment'', ''keyset_sequence'', ''issued_at'', ''expires_at'', ''keys'',
     ''commitment_keys'', ''root_signing_key_id'', ''root_signature_algorithm'', ''root_signature_base64url'']"

definition publicKeyFields :: "bytes list" where
  "publicKeyFields = [''key_id'', ''use'', ''public_key_base64url'', ''not_before'', ''not_after'', ''state'']"

definition commitmentKeyFields :: "bytes list" where
  "commitmentKeyFields = [''purpose'', ''key_id'', ''topic_key_epoch'', ''not_before'', ''not_after'']"

definition resultFields :: "bytes list" where
  "resultFields = [''protocol'', ''schema_version'', ''environment'', ''installation_binding_id'', ''sequencer_epoch'',
     ''subscription_generation'', ''state'', ''outcome'', ''accepted_stream_sequence'', ''idempotent_replay'']"

definition subscriptionsReplaceFields :: "bytes list" where
  "subscriptionsReplaceFields = [''protocol'', ''schema_version'', ''environment'', ''installation_binding_id'', ''sequencer_epoch'',
     ''subscription_generation'', ''expected_subscription_generation'', ''idempotency_key'', ''legacy_installation_id'',
     ''account_incarnation_id'', ''apns_token_base64url'', ''payload_schema'', ''policy_control_base64url'', ''subscriptions'']"

definition subscriptionFields :: "bytes list" where
  "subscriptionFields = [''binding_id'', ''binding_version'', ''assertion_hash'', ''topic_binding'', ''topic_key_epoch'',
     ''route_key_epoch'', ''topic_base64url'', ''transport_conversation_id'', ''route_key_base64url'', ''hmac_keys'',
     ''receive_capability_base64url'']"

definition hmacKeyFields :: "bytes list" where
  "hmacKeyFields = [''thirty_day_periods_since_epoch'', ''key_base64url'']"

definition watermarkFields :: "bytes list" where
  "watermarkFields = [''protocol'', ''schema_version'', ''audience'', ''environment'', ''installation_binding_id'', ''sequencer_epoch'',
     ''watermark_sequence'', ''committed_through_stream_sequence'', ''status'', ''uncertainty_reason'', ''issued_at'', ''expires_at'',
     ''signing_key_id'', ''signature_algorithm'', ''signature_base64url'']"

text \<open>\<open>strings.Contains\<close>; the letters of the word that is looked for have no upper case beyond ASCII.\<close>

fun contains :: "bytes \<Rightarrow> bytes \<Rightarrow> bool" where
  "contains [] w = (w = [])"
| "contains (c # s) w = (hasPrefix (c # s) w \<or> contains s w)"

abbreviation raw_field :: "object \<Rightarrow> nat \<Rightarrow> bytes \<Rightarrow> schema_reason option" where
  "raw_field obj n name \<equiv> failed (base64URLField obj name n ReasonNoncanonicalBase64URL)"

definition purposeField :: "object \<Rightarrow> schema_reason option" where
  "purposeField obj =
     failed (and_then (stringField obj ''purpose'') (\<lambda>purpose.
       if purpose \<noteq> ''conversation_message_push'' then
         (if contains (map ascii_lower purpose) ''welcome'' then Inl ReasonWelcomeClosed else Inl ReasonFieldDomain)
       else Inr purpose))"

definition validateAssertion :: "any \<Rightarrow> schema_reason option" where
  "validateAssertion v =
     (case closedObject v schema_assertionFields of
        Inl e \<Rightarrow> Some e
      | Inr obj \<Rightarrow> checks
          [fixedString obj ''protocol'' ''hytch.a9-bridge-assertion'' ReasonFieldDomain,
           fixedInteger obj ''schema_version'' 1,
           fixedString obj ''audience'' ''hytch.xmtp-push-bridge.a9-control'' ReasonWrongAudience,
           purposeField obj,
           environmentField obj ''environment'',
           each [''binding_id'', ''installation_binding_id'', ''lease_id''] (raw_field obj 16),
           each [''binding_version'', ''stream_sequence''] (\<lambda>f. failed (integerField obj f 1 maxSafeInteger)),
           each [''tuple_commitment'', ''roster_commitment'', ''topic_binding''] (raw_field obj 32),
           each [''tuple_commitment_key_id'', ''roster_commitment_key_id''] (\<lambda>f. keyIDField obj f ''hmac-sha256:''),
           failed (integerField obj ''topic_key_epoch'' 1 4294967295),
           each [''conversation_generation'', ''roster_version''] (\<lambda>f. failed (integerField obj f 1 2147483647)),
           fixedString obj ''state'' ''ACTIVE'' ReasonFieldDomain,
           each [''issued_at'', ''expires_at''] (timestampField obj),
           keyIDField obj ''signing_key_id'' ''ed25519-sha256:'',
           fixedString obj ''signature_algorithm'' ''Ed25519'' ReasonFieldDomain,
           raw_field obj 64 ''signature_base64url''])"

definition control_action :: "object \<Rightarrow> bytes \<Rightarrow> schema_reason option" where
  "control_action obj action =
     (if action = ''UPSERT'' then
        (if lookup obj ''assertion'' = ANil then Some ReasonFieldDomain
         else checks [validateAssertion (lookup obj ''assertion''),
           if lookup obj ''reason_code'' \<noteq> ANil then Some ReasonFieldDomain else None])
      else if lookup obj ''assertion'' \<noteq> ANil then Some ReasonFieldDomain
      else failed (enumStringField obj ''reason_code'' [''authority_revoked'', ''authority_expired'', ''authority_replaced'']))"

definition validateControl :: "any \<Rightarrow> schema_reason option" where
  "validateControl v =
     (case closedObject v controlFields of
        Inl e \<Rightarrow> Some e
      | Inr obj \<Rightarrow> checks
          [fixedString obj ''protocol'' ''hytch.a9-bridge-control'' ReasonFieldDomain,
           fixedInteger obj ''schema_version'' 1,
           fixedString obj ''audience'' ''hytch.xmtp-push-bridge.a9-control'' ReasonWrongAudience,
           environmentField obj ''environment'',
           uuidField obj ''idempotency_key'',
           each [''installation_binding_id'', ''sequencer_epoch'', ''binding_id''] (raw_field obj 16),
           each [''stream_sequence'', ''binding_version''] (\<lambda>f. failed (integerField obj f 1 maxSafeInteger)),
           each [''expected_previous_sequence'', ''expected_binding_version''] (\<lambda>f. failed (integerField obj f 0 maxSafeInteger)),
           (case enumStringField obj ''action'' [''UPSERT'', ''REVOKE''] of
              Inl e \<Rightarrow> Some e
            | Inr action \<Rightarrow> checks [raw_field obj 32 ''assertion_hash'', control_action obj action]),
           each [''issued_at'', ''expires_at''] (timestampField obj),
           keyIDField obj ''signing_key_id'' ''ed25519-sha256:'',
           fixedString obj ''signature_algorithm'' ''Ed25519'' ReasonFieldDomain,
           raw_field obj 64 ''signature_base64url''])"

definition validatePublicKey :: "any \<Rightarrow> schema_reason + bytes \<times> bytes" where
  "validatePublicKey entry =
     and_then (closedObject entry publicKeyFields) (\<lambda>key.
     unless (keyIDField key ''key_id'' ''ed25519-sha256:'') (
     and_then (enumStringField key ''use'' [''A9_CONTROL'', ''SERVICE_AUTH'']) (\<lambda>use.
     unless (raw_field key 32 ''public_key_base64url'') (
     unless (each [''not_before'', ''not_after''] (timestampField key)) (
     and_then (enumStringField key ''state'' [''SIGN'', ''VERIFY_ONLY'']) (\<lambda>state. Inr (use, state)))))))"

definition validateCommitmentKey :: "any \<Rightarrow> schema_reason + bytes" where
  "validateCommitmentKey entry =
     and_then (closedObject entry commitmentKeyFields) (\<lambda>key.
     and_then (enumStringField key ''purpose'' [''ROSTER'', ''TUPLE'', ''TOPIC'']) (\<lambda>purpose.
     unless (keyIDField key ''key_id'' ''hmac-sha256:'') (
     unless (if purpose = ''TOPIC'' then failed (integerField key ''topic_key_epoch'' 1 4294967295)
             else if lookup key ''topic_key_epoch'' \<noteq> ANil then Some ReasonFieldDomain else None) (
     unless (each [''not_before'', ''not_after''] (timestampField key)) (Inr purpose)))))"

fun entries :: "(any \<Rightarrow> 'e + 'a) \<Rightarrow> any list \<Rightarrow> 'e + 'a list" where
  "entries f [] = Inr []"
| "entries f (v # vs) = and_then (f v) (\<lambda>x. and_then (entries f vs) (\<lambda>xs. Inr (x # xs)))"

definition key_entries :: "object \<Rightarrow> schema_reason option" where
  "key_entries obj =
     failed (and_then (arrayField obj ''keys'' 2 4) (\<lambda>keys.
     unless (uniqueItems keys ReasonFieldDomain) (
     and_then (entries validatePublicKey keys) (\<lambda>uses.
       if list_ex (\<lambda>use. length (filter (\<lambda>u. u = (use, ''SIGN'')) uses) \<noteq> 1) [''A9_CONTROL'', ''SERVICE_AUTH'']
       then Inl ReasonFieldDomain else Inr ()))))"

definition commitment_entries :: "object \<Rightarrow> schema_reason option" where
  "commitment_entries obj =
     failed (and_then (arrayField obj ''commitment_keys'' 3 6) (\<lambda>keys.
     unless (uniqueItems keys ReasonFieldDomain) (
     and_then (entries validateCommitmentKey keys) (\<lambda>purposes.
       if list_ex (\<lambda>purpose. let n = length (filter ((=) purpose) purposes) in n < 1 \<or> n > 2) [''ROSTER'', ''TUPLE'', ''TOPIC'']
       then Inl ReasonFieldDomain else Inr ()))))"

definition schema_validateKeyset :: "any \<Rightarrow> schema_reason option" where
  "schema_validateKeyset v =
     (case closedObject v keysetFields of
        Inl e \<Rightarrow> Some e
      | Inr obj \<Rightarrow> checks
          [fixedString obj ''protocol'' ''hytch.a9-bridge-keyset'' ReasonFieldDomain,
           fixedInteger obj ''schema_version'' 1,
           environmentField obj ''environment'',
           failed (integerField obj ''keyset_sequence'' 1 maxSafeInteger),
           each [''issued_at'', ''expires_at''] (timestampField obj),
           key_entries obj,
           commitment_entries obj,
           keyIDField obj ''root_signing_key_id'' ''ed25519-sha256:'',
           fixedString obj ''root_signature_algorithm'' ''Ed25519'' ReasonFieldDomain,
           raw_field obj 64 ''root_signature_base64url''])"

definition validateResult :: "any \<Rightarrow> schema_reason option" where
  "validateResult v =
     (case closedObject v resultFields of
        Inl e \<Rightarrow> Some e
      | Inr obj \<Rightarrow> checks
          [fixedString obj ''protocol'' ''hytch.a9-vault-cas-result'' ReasonFieldDomain,
           fixedInteger obj ''schema_version'' 1,
           environmentField obj ''environment'',
           each [''installation_binding_id'', ''sequencer_epoch''] (raw_field obj 16),
           each [''subscription_generation'', ''accepted_stream_sequence''] (\<lambda>f. failed (integerField obj f 0 maxSafeInteger)),
           failed (enumStringField obj ''state'' [''ACTIVE'', ''REVOKED'', ''UNCERTAIN'']),
           failed (and_then (enumStringField obj ''outcome'' [''APPLIED'', ''REPLAY'', ''STALE'', ''GAP'', ''CONFLICT'', ''INCONCLUSIVE''])
             (\<lambda>outcome. if lookup obj ''idempotent_replay'' \<noteq> ABool (outcome = ''REPLAY'') then Inl ReasonFieldDomain else Inr outcome))])"

definition validateHmacKey :: "any \<Rightarrow> schema_reason option" where
  "validateHmacKey entry =
     (case closedObject entry hmacKeyFields of
        Inl e \<Rightarrow> Some e
      | Inr key \<Rightarrow> checks [failed (integerField key ''thirty_day_periods_since_epoch'' 0 2147483647), raw_field key 32 ''key_base64url''])"

definition validateSubscription :: "any \<Rightarrow> schema_reason option" where
  "validateSubscription entry =
     (case closedObject entry subscriptionFields of
        Inl e \<Rightarrow> Some e
      | Inr sub \<Rightarrow> checks
          [raw_field sub 16 ''binding_id'',
           failed (integerField sub ''binding_version'' 1 maxSafeInteger),
           each [''assertion_hash'', ''topic_binding'', ''route_key_base64url''] (raw_field sub 32),
           each [''topic_key_epoch'', ''route_key_epoch''] (\<lambda>f. failed (integerField sub f 1 4294967295)),
           failed (and_then (base64URLField sub ''topic_base64url'' 33 ReasonTopicResolver) (\<lambda>topic.
             if byte_val (hd topic) \<noteq> 0 then Inl ReasonWelcomeClosed else Inr topic)),
           lowerHexField sub ''transport_conversation_id'' 64 ReasonTopicResolver,
           failed (and_then (arrayField sub ''hmac_keys'' 1 3) (\<lambda>keys.
             unless (uniqueItems keys ReasonFieldDomain) (unless (each keys validateHmacKey) (Inr ())))),
           failed (boundedBase64URLField sub ''receive_capability_base64url'')])"

definition validateSubscriptionsReplace :: "any \<Rightarrow> schema_reason option" where
  "validateSubscriptionsReplace v =
     (case closedObject v subscriptionsReplaceFields of
        Inl e \<Rightarrow> Some e
      | Inr obj \<Rightarrow> checks
          [fixedString obj ''protocol'' ''hytch.a9-subscription-replace'' ReasonFieldDomain,
           fixedInteger obj ''schema_version'' 1,
           environmentField obj ''environment'',
           each [''installation_binding_id'', ''sequencer_epoch''] (raw_field obj 16),
           failed (integerField obj ''subscription_generation'' 1 maxSafeInteger),
           failed (integerField obj ''expected_subscription_generation'' 0 maxSafeInteger),
           uuidField obj ''idempotency_key'',
           lowerHexField obj ''legacy_installation_id'' 64 ReasonFieldDomain,
           uuidField obj ''account_incarnation_id'',
           raw_field obj 32 ''apns_token_base64url'',
           fixedString obj ''payload_schema'' ''hytch_push_wrapper_v1'' ReasonFieldDomain,
           failed (boundedBase64URLField obj ''policy_control_base64url''),
           failed (and_then (arrayField obj ''subscriptions'' 0 2048) (\<lambda>subs.
             unless (uniqueCanonicalItems subs ReasonDuplicateSubscription) (unless (each subs validateSubscription) (Inr ()))))])"

definition validateWatermark :: "any \<Rightarrow> schema_reason option" where
  "validateWatermark v =
     (case closedObject v watermarkFields of
        Inl e \<Rightarrow> Some e
      | Inr obj \<Rightarrow> checks
          [fixedString obj ''protocol'' ''hytch.a9-control-watermark'' ReasonFieldDomain,
           fixedInteger obj ''schema_version'' 1,
           fixedString obj ''audience'' ''hytch.xmtp-push-bridge.a9-control'' ReasonWrongAudience,
           environmentField obj ''environment'',
           each [''installation_binding_id'', ''sequencer_epoch''] (raw_field obj 16),
           failed (integerField obj ''watermark_sequence'' 1 maxSafeInteger),
           failed (integerField obj ''committed_through_stream_sequence'' 0 maxSafeInteger),
           (case enumStringField obj ''status'' [''CURRENT'', ''UNCERTAIN''] of
              Inl e \<Rightarrow> Some e
            | Inr status \<Rightarrow>
                if status = ''CURRENT'' then fixedString obj ''uncertainty_reason'' ''NONE'' ReasonFieldDomain
                else failed (enumStringField obj ''uncertainty_reason''
                  [''SOURCE_UNAVAILABLE'', ''OUTBOX_GAP'', ''REPLICA_AMBIGUITY'', ''OVERFLOW'', ''CLOCK_UNCERTAIN''])),
           each [''issued_at'', ''expires_at''] (timestampField obj),
           keyIDField obj ''signing_key_id'' ''ed25519-sha256:'',
           fixedString obj ''signature_algorithm'' ''Ed25519'' ReasonFieldDomain,
           raw_field obj 64 ''signature_base64url''])"

fun Validate :: "schema_kind \<Rightarrow> any \<Rightarrow> schema_reason option" where
  "Validate AssertionKind v = validateAssertion v"
| "Validate ControlEventKind v = validateControl v"
| "Validate KeysetKind v = schema_validateKeyset v"
| "Validate ResultKind v = validateResult v"
| "Validate SubscriptionsReplaceKind v = validateSubscriptionsReplace v"
| "Validate WatermarkKind v = validateWatermark v"

text \<open>Every schema is that of an object, so that the final type assertion of \<open>Decode\<close> holds (\<open>Validate_object\<close>).\<close>

definition Decode :: "schema_kind \<Rightarrow> bytes \<Rightarrow> schema_reason + object" where
  "Decode kind raw =
     and_then (Parse raw) (\<lambda>v. unless (Validate kind v) (case v of AMap obj \<Rightarrow> Inr obj | _ \<Rightarrow> Inl ReasonFieldDomain))"

section \<open>The text of a value determines it\<close>

interpretation marshal_unit: char_escape marshal_unit
proof
  fix u v :: string_unit and s t
  assume eq: "marshal_unit u @ s = marshal_unit v @ t"
  have other: "quote_esc e c @ s \<noteq> byte_of 92 # ''u2028'' @ t" "quote_esc e c @ s \<noteq> byte_of 92 # ''u2029'' @ t" for e c s t
    by (auto simp: quote_esc_def Let_def byte_of_eq_iff)
  show "u = v \<and> s = t"
    using eq other other [symmetric]
    by (cases u; cases v) (auto dest: quote_esc.esc_prefix_free)
next
  fix u :: string_unit and s t
  show "marshal_unit u @ s \<noteq> byte_of 34 # t"
    using quote_esc.esc_not_quote by (cases u) auto
qed

fun unit_text :: "string_unit \<Rightarrow> bytes" where
  "unit_text (UByte c) = [c]"
| "unit_text LineSeparator = [byte_of 0xE2, byte_of 0x80, byte_of 0xA8]"
| "unit_text ParagraphSeparator = [byte_of 0xE2, byte_of 0x80, byte_of 0xA9]"

lemma string_units_text: "concat (map unit_text (string_units s)) = s"
  by (induction s rule: string_units.induct) (auto simp: byte_of_eq_iff)

lemma marshal_string_prefix_free: "marshal_string x @ s = marshal_string y @ t \<Longrightarrow> x = y \<and> s = t"
  using marshal_unit.quoted_prefix_free [of "string_units x" s "string_units y" t] string_units_text
  by (metis marshal_string_def)

text \<open>A value that the reader can return: of the types of JSON, names once, numbers that passed the check.\<close>

fun schema_value :: "any \<Rightarrow> bool" where
  "schema_value (AArray vs) \<longleftrightarrow> (\<forall>v\<in>set vs. schema_value v)"
| "schema_value (AMap ms) \<longleftrightarrow> distinct (map fst ms) \<and> (\<forall>m\<in>set ms. schema_value (snd m))"
| "schema_value (ANumber t) \<longleftrightarrow> validateJSONNumber t = None"
| "schema_value ANil \<longleftrightarrow> True"
| "schema_value (ABool _) \<longleftrightarrow> True"
| "schema_value (AString _) \<longleftrightarrow> True"
| "schema_value _ \<longleftrightarrow> False"

lemma decode_literal_schema: "decode_literal schema_profile s = Inr (v, r) \<Longrightarrow> schema_value v"
  by (auto simp: decode_literal_def schema_profile_def split: if_splits option.splits)

lemma decode_schema:
  "decode_value p n s = Inr (v, r) \<Longrightarrow> p = schema_profile \<Longrightarrow> schema_value v"
  "decode_members p n ms s = Inr (v, r) \<Longrightarrow> p = schema_profile \<Longrightarrow> schema_value (AMap ms) \<Longrightarrow> schema_value v"
  "decode_items p n vs s = Inr (v, r) \<Longrightarrow> p = schema_profile \<Longrightarrow> schema_value (AArray vs) \<Longrightarrow> schema_value v"
proof (induction p n s and p n ms s and p n vs s arbitrary: v r and v r and v r
    rule: decode_value_decode_members_decode_items.induct)
  case (2 p n s)
  then show ?case
    by (fastforce split: option.splits prod.splits dest: decode_literal_schema)
next
  case (4 p n ms s)
  then show ?case
    by (fastforce split: option.splits prod.splits sum.splits if_splits simp: map_of_eq_None_iff)
next
  case (6 p n vs s)
  then show ?case
    by (fastforce split: option.splits prod.splits sum.splits)
qed simp_all

lemma Parse_schema_value: "Parse raw = Inr v \<Longrightarrow> schema_value v"
  by (auto simp: Parse_def read_value_def result_iff split: if_splits prod.splits dest: decode_schema(1) simp del: decode_value.simps)

lemma sorted_form_value: "schema_value v \<Longrightarrow> schema_value (sorted_form v)"
proof (induction v rule: sorted_form.induct)
  case (2 ms)
  have "map fst (map (\<lambda>m. (fst m, sorted_form (snd m))) ms) = map fst ms"
    by simp
  then have "distinct (map fst (sort_key fst (map (\<lambda>m. (fst m, sorted_form (snd m))) ms)))"
    using 2 distinct_sort_key by (metis schema_value.simps(2))
  then show ?case
    using 2 by auto
qed auto

text \<open>The elements of a list, written with commas up to a closing byte.\<close>

definition tail_text :: "('a \<Rightarrow> bytes) \<Rightarrow> char \<Rightarrow> 'a list \<Rightarrow> bytes \<Rightarrow> bytes" where
  "tail_text f close xs s = (case xs of [] \<Rightarrow> close # s | _ \<Rightarrow> CHR '','' # comma_join (map f xs) @ close # s)"

lemma comma_join_Cons: "comma_join (map f (x # xs)) @ close # s = f x @ tail_text f close xs s"
  by (cases xs) (simp_all add: tail_text_def)

definition stops :: "char \<Rightarrow> bytes \<Rightarrow> bool" where
  "stops close s \<longleftrightarrow> (\<exists>u. s = CHR '','' # u \<or> s = close # u)"

lemma stops_tail: "stops close (tail_text f close xs s)"
  by (auto simp: stops_def tail_text_def split: list.splits)

lemma join_prefix_free:
  assumes elem: "\<And>x y s t. x \<in> set xs \<Longrightarrow> y \<in> set ys \<Longrightarrow> stops close s \<Longrightarrow> stops close t \<Longrightarrow> f x @ s = f y @ t \<Longrightarrow> x = y \<and> s = t"
    and head: "\<And>x. x \<in> set xs \<union> set ys \<Longrightarrow> f x \<noteq> [] \<and> hd (f x) \<noteq> close" and close: "close \<noteq> CHR '',''"
    and eq: "comma_join (map f xs) @ close # s = comma_join (map f ys) @ close # t"
  shows "xs = ys \<and> s = t"
  using elem head eq
proof (induction xs arbitrary: ys)
  case Nil
  show ?case
  proof (cases ys)
    case (Cons y ys')
    then have "close # s = f y @ tail_text f close ys' t"
      using Nil(3) comma_join_Cons [of f y ys' close t] by simp
    moreover have "f y \<noteq> [] \<and> hd (f y) \<noteq> close"
      using Nil(2) [of y] Cons by simp
    ultimately show ?thesis
      by (cases "f y") auto
  qed (use Nil in simp)
next
  case (Cons x xs)
  show ?case
  proof (cases ys)
    case Nil
    then have "close # t = f x @ tail_text f close xs s"
      using Cons.prems(3) comma_join_Cons [of f x xs close s] by simp
    moreover have "f x \<noteq> [] \<and> hd (f x) \<noteq> close"
      using Cons.prems(2) [of x] by simp
    ultimately show ?thesis
      by (cases "f x") auto
  next
    case (Cons y ys')
    have "f x @ tail_text f close xs s = f y @ tail_text f close ys' t"
      using Cons.prems(3) unfolding Cons comma_join_Cons .
    then have both: "x = y \<and> tail_text f close xs s = tail_text f close ys' t"
      using Cons by (intro Cons.prems(1)) (simp_all add: stops_tail)
    then have xy: "x = y" and rest: "tail_text f close xs s = tail_text f close ys' t"
      by simp_all
    then have "comma_join (map f xs) @ close # s = comma_join (map f ys') @ close # t"
      using close by (auto simp: tail_text_def split: list.splits)
    then show ?thesis
      using Cons.IH [of ys'] Cons.prems(1,2) Cons xy by auto
  qed
qed

lemma number_text:
  assumes "validateJSONNumber t = None"
  shows "\<exists>d. (t = d \<or> t = CHR ''-'' # d) \<and> d \<noteq> [] \<and> list_all is_digit d"
proof (cases t)
  case (Cons c d)
  then show ?thesis
    using assms by (cases "c = CHR ''-''") (auto simp: validateJSONNumber_def Let_def split: if_splits)
qed (use assms in \<open>simp add: validateJSONNumber_def\<close>)

lemma digits_prefix_free:
  assumes "list_all is_digit d" "list_all is_digit e" "number_end s" "number_end t" "d @ s = e @ t"
  shows "d = e \<and> s = t"
  using takeWhile_digits [OF assms(1,3)] takeWhile_digits [OF assms(2,4)] assms(5) by metis

lemma number_prefix_free:
  assumes "validateJSONNumber x = None" "validateJSONNumber y = None" "number_end s" "number_end t" "x @ s = y @ t"
  shows "x = y \<and> s = t"
proof -
  obtain d e where x: "x = d \<or> x = CHR ''-'' # d" "d \<noteq> []" "list_all is_digit d" and y: "y = e \<or> y = CHR ''-'' # e" "e \<noteq> []" "list_all is_digit e"
    using number_text [OF assms(1)] number_text [OF assms(2)] by blast
  have "\<not> is_digit (CHR ''-'')"
    by code_simp
  then have "d @ s = e @ t \<and> (x = d \<longleftrightarrow> y = e)"
    using x y assms(5) by (cases d; cases e) auto
  then show ?thesis
    using digits_prefix_free [OF x(3) y(3) assms(3,4)] x y by auto
qed

lemma stops_number_end: "stops (CHR '']'') s \<Longrightarrow> number_end s" "stops (CHR ''}'') s \<Longrightarrow> number_end s"
  by (auto simp: stops_def)

text \<open>The first byte of a text tells the type of the value.\<close>

definition type_of_head :: "char \<Rightarrow> nat" where
  "type_of_head c = (if c = CHR ''n'' then 0 else if c = CHR ''t'' then 1 else if c = CHR ''f'' then 2 else if byte_val c = 34 then 3
     else if c = CHR ''['' then 4 else if c = CHR ''{'' then 5 else if is_digit c \<or> c = CHR ''-'' then 6 else 7)"

fun type_code :: "any \<Rightarrow> nat" where
  "type_code ANil = 0"
| "type_code (ABool b) = (if b then 1 else 2)"
| "type_code (AString _) = 3"
| "type_code (AArray _) = 4"
| "type_code (AMap _) = 5"
| "type_code _ = 6"

lemma type_of_digit: "is_digit c \<Longrightarrow> type_of_head c = 6"
  by (auto simp: type_of_head_def is_digit_def)

lemma type_of_heads: "type_of_head (CHR ''-'') = 6" "type_of_head (CHR ''n'') = 0" "type_of_head (CHR ''t'') = 1" "type_of_head (CHR ''f'') = 2"
  "type_of_head (byte_of 34) = 3" "type_of_head (CHR ''['') = 4" "type_of_head (CHR ''{'') = 5" "type_of_head (CHR '']'') = 7" "type_of_head (CHR ''}'') = 7"
  by code_simp+

lemma marshal_head: "schema_value v \<Longrightarrow> \<exists>c u. marshal_sorted v = c # u \<and> type_of_head c = type_code v"
proof (cases v)
  case (ANumber t)
  assume "schema_value v"
  then obtain d where d: "t = d \<or> t = CHR ''-'' # d" "d \<noteq> []" "list_all is_digit d"
    using ANumber number_text by (metis schema_value.simps(3))
  then obtain x y where "d = x # y" "is_digit x"
    by (cases d) auto
  then show ?thesis
    using d(1) ANumber type_of_digit type_of_heads(1) by auto
qed (simp_all add: type_of_heads marshal_string_def quoted_def)

lemma marshal_not_close: "schema_value v \<Longrightarrow> marshal_sorted v \<noteq> [] \<and> hd (marshal_sorted v) \<noteq> CHR '']''"
proof -
  assume "schema_value v"
  then obtain c u where c: "marshal_sorted v = c # u" "type_of_head c = type_code v"
    using marshal_head by blast
  moreover have "type_code v \<noteq> 7"
    by (cases v) auto
  ultimately show ?thesis
    using type_of_heads(8) by auto
qed

lemma marshal_same_type:
  assumes "schema_value a" "schema_value b" "marshal_sorted a @ s = marshal_sorted b @ t"
  shows "type_code a = type_code b"
proof -
  obtain c u d v where "marshal_sorted a = c # u" "type_of_head c = type_code a" "marshal_sorted b = d # v" "type_of_head d = type_code b"
    using marshal_head [OF assms(1)] marshal_head [OF assms(2)] by blast
  then show ?thesis
    using assms(3) by simp
qed

lemma marshal_prefix_free:
  "schema_value a \<Longrightarrow> schema_value b \<Longrightarrow> number_end s \<Longrightarrow> number_end t \<Longrightarrow> marshal_sorted a @ s = marshal_sorted b @ t \<Longrightarrow> a = b \<and> s = t"
proof (induction a arbitrary: b s t rule: marshal_sorted.induct)
  case (5 vs)
  have "type_code b = 4"
    using marshal_same_type [OF "5.prems"(1,2,5)] by simp
  then obtain ws where b: "b = AArray ws"
    by (cases b) (auto split: if_splits)
  have item: "x = y \<and> u = v" if "x \<in> set vs" "y \<in> set ws" "stops (CHR '']'') u" "stops (CHR '']'') v" "marshal_sorted x @ u = marshal_sorted y @ v" for x y u v
    using "5.prems"(1,2) that(1,2,5) b stops_number_end(1) [OF that(3)] stops_number_end(1) [OF that(4)]
    by (intro "5.IH" [OF that(1)]) simp_all
  have good: "schema_value x" if "x \<in> set vs \<union> set ws" for x
    using "5.prems"(1,2) b that by auto
  have "vs = ws \<and> s = t"
  proof (rule join_prefix_free [where f = marshal_sorted and close = "CHR '']''"])
    show "comma_join (map marshal_sorted vs) @ CHR '']'' # s = comma_join (map marshal_sorted ws) @ CHR '']'' # t"
      using "5.prems"(5) b by simp
  qed ((rule item; assumption), rule marshal_not_close, rule good, assumption, simp)
  then show ?case
    using b by simp
next
  case (6 ms)
  let ?f = "\<lambda>m. marshal_string (fst m) @ CHR '':'' # marshal_sorted (snd m)"
  have "type_code b = 5"
    using marshal_same_type [OF "6.prems"(1,2,5)] by simp
  then obtain ns where b: "b = AMap ns"
    by (cases b) (auto split: if_splits)
  have member: "m = n \<and> u = v" if "m \<in> set ms" "n \<in> set ns" "stops (CHR ''}'') u" "stops (CHR ''}'') v" "?f m @ u = ?f n @ v" for m n u v
  proof -
    have "fst m = fst n \<and> CHR '':'' # marshal_sorted (snd m) @ u = CHR '':'' # marshal_sorted (snd n) @ v"
      using that(5) by (intro marshal_string_prefix_free) simp
    moreover from this have "snd m = snd n \<and> u = v"
      using "6.prems"(1,2) that(1,2) b stops_number_end(2) [OF that(3)] stops_number_end(2) [OF that(4)]
      by (intro "6.IH" [OF that(1)]) simp_all
    ultimately show ?thesis
      by (simp add: prod_eq_iff)
  qed
  have "ms = ns \<and> s = t"
  proof (rule join_prefix_free [where f = ?f and close = "CHR ''}''"])
    show "comma_join (map ?f ms) @ CHR ''}'' # s = comma_join (map ?f ns) @ CHR ''}'' # t"
      using "6.prems"(5) b by simp
  qed ((rule member; assumption), simp add: marshal_string_def quoted_def byte_of_eq_iff, simp)
  then show ?case
    using b by simp
next
  case (3 v)
  have "type_code b = 3"
    using marshal_same_type [OF "3.prems"(1,2,5)] by simp
  then obtain w where "b = AString w"
    by (cases b) (auto split: if_splits)
  then show ?case
    using "3.prems"(5) marshal_string_prefix_free [of v s w t] by simp
next
  case (4 v)
  have "type_code b = 6"
    using marshal_same_type [OF "4.prems"(1,2,5)] by simp
  then obtain w where "b = ANumber w"
    using "4.prems"(2) by (cases b) (auto split: if_splits)
  then show ?case
    using "4.prems" number_prefix_free [of v w s t] by simp
next
  case (2 c)
  then show ?case
    using marshal_same_type [OF "2.prems"(1,2,5)] by (cases b) (auto split: if_splits)
next
  case 1
  then show ?case
    using marshal_same_type [OF "1.prems"(1,2,5)] by (cases b) (auto split: if_splits)
qed simp_all

lemma marshal_eq_iff: "schema_value a \<Longrightarrow> schema_value b \<Longrightarrow> marshal a = marshal b \<longleftrightarrow> deep_equal a b"
  using marshal_prefix_free [OF sorted_form_value sorted_form_value, of a b "[]" "[]"]
  by (auto simp: marshal_def deep_equal_def number_end_def)

lemma unique_keys_from:
  "(\<forall>v\<in>set (earlier @ vs). schema_value v) \<Longrightarrow> unique_keys (set (map marshal earlier)) vs reason = unique_from earlier vs reason"
proof (induction vs arbitrary: earlier)
  case (Cons v vs)
  have "marshal v \<in> set (map marshal earlier) \<longleftrightarrow> list_ex (deep_equal v) earlier"
    using Cons.prems by (auto simp: list_ex_iff marshal_eq_iff image_iff deep_equal_def)
  then show ?case
    using Cons.IH [of "earlier @ [v]"] Cons.prems by simp
qed simp

section \<open>The two readers\<close>

text \<open>What the reader of this package accepts, the reader of the trust library accepts with the same value.\<close>

lemma decode_literal_agrees: "decode_literal schema_profile s = Inr r \<Longrightarrow> decode_literal strict_profile s = Inr r"
  by (auto simp: decode_literal_def schema_profile_def strict_profile_def split: if_splits option.splits)

lemma decode_agrees:
  "decode_value p n s = Inr (v, r) \<Longrightarrow> p = schema_profile \<Longrightarrow> decode_value strict_profile n s = Inr (v, r)"
  "decode_members p n ms s = Inr (v, r) \<Longrightarrow> p = schema_profile \<Longrightarrow> decode_members strict_profile n ms s = Inr (v, r)"
  "decode_items p n vs s = Inr (v, r) \<Longrightarrow> p = schema_profile \<Longrightarrow> decode_items strict_profile n vs s = Inr (v, r)"
proof (induction p n s and p n ms s and p n vs s arbitrary: v r and v r and v r rule: decode_value_decode_members_decode_items.induct)
  case (2 p n s)
  then show ?case
    by (fastforce split: option.splits prod.splits dest: decode_literal_agrees)
next
  case (4 p n ms s)
  then show ?case
    by (fastforce split: option.splits prod.splits sum.splits if_splits)
next
  case (6 p n vs s)
  then show ?case
    by (fastforce split: option.splits prod.splits sum.splits)
qed simp_all

lemma Parse_agrees: "Parse raw = Inr v \<Longrightarrow> ParseStrictJSON raw = Inr v"
  by (auto simp: Parse_def ParseStrictJSON_def parseJSONValue_def read_value_def result_iff skip_space_def split: if_splits prod.splits
      dest!: decode_agrees(1) simp del: decode_value.simps)

section \<open>Accepted objects\<close>

lemma checks_None_iff: "checks cs = None \<longleftrightarrow> list_all (\<lambda>c. c = None) cs"
  by (induction cs rule: checks.induct) auto

lemma each_None_iff: "each xs f = None \<longleftrightarrow> (\<forall>x\<in>set xs. f x = None)"
  by (simp add: each_def checks_None_iff list_all_iff)

lemma failed_None_iff: "failed r = None \<longleftrightarrow> (\<exists>x. r = Inr x)"
  by (auto simp: failed_def split: sum.splits)

lemmas check_iff = checks_None_iff each_None_iff failed_None_iff result_iff

lemma closedObject_Inr:
  "closedObject v required = Inr obj \<longleftrightarrow> v = AMap obj \<and> set (map fst obj) = set required"
proof (cases v)
  case (AMap ms)
  have unknown: "find (\<lambda>(name, _). name \<notin> set required) ms = None \<longleftrightarrow> set (map fst ms) \<subseteq> set required"
    by (auto simp: find_None_iff)
  have missing: "list_all (\<lambda>name. map_of ms name \<noteq> None) required \<longleftrightarrow> set required \<subseteq> set (map fst ms)"
    by (auto simp: list_all_iff map_of_eq_None_iff subset_iff)
  have "closedObject v required = Inr obj \<longleftrightarrow> find (\<lambda>(name, _). name \<notin> set required) ms = None \<and>
      list_all (\<lambda>name. map_of ms name \<noteq> None) required \<and> ms = obj"
    by (auto simp: closedObject_def AMap split: option.splits)
  then show ?thesis
    unfolding unknown missing using AMap by auto
qed (simp_all add: closedObject_def)

fun schema_fields :: "schema_kind \<Rightarrow> bytes list" where
  "schema_fields AssertionKind = schema_assertionFields"
| "schema_fields ControlEventKind = controlFields"
| "schema_fields KeysetKind = keysetFields"
| "schema_fields ResultKind = resultFields"
| "schema_fields SubscriptionsReplaceKind = subscriptionsReplaceFields"
| "schema_fields WatermarkKind = watermarkFields"

lemma Validate_object:
  assumes "Validate kind v = None"
  shows "\<exists>obj. v = AMap obj \<and> set (map fst obj) = set (schema_fields kind)"
proof -
  have "\<exists>obj. closedObject v (schema_fields kind) = Inr obj"
    using assms by (cases kind) (auto simp: validateAssertion_def validateControl_def schema_validateKeyset_def validateResult_def
        validateSubscriptionsReplace_def validateWatermark_def split: sum.splits)
  then show ?thesis
    by (auto simp: closedObject_Inr)
qed

lemma Decode_Inr: "Decode kind raw = Inr obj \<longleftrightarrow> Parse raw = Inr (AMap obj) \<and> Validate kind (AMap obj) = None"
proof
  assume "Decode kind raw = Inr obj"
  then obtain v where v: "Parse raw = Inr v" "Validate kind v = None" "(case v of AMap obj \<Rightarrow> Inr obj | _ \<Rightarrow> Inl ReasonFieldDomain) = Inr obj"
    by (auto simp: Decode_def result_iff)
  then show "Parse raw = Inr (AMap obj) \<and> Validate kind (AMap obj) = None"
    using Validate_object [OF v(2)] by auto
qed (simp add: Decode_def)

section \<open>Claims\<close>

text \<open>
  C34. An object that a schema accepts has exactly the members of that schema, each once, and only values of the six types
  of JSON with integers in the safe range at every depth; and the strict reader of the trust library reads the same text as
  the same object, so that what was checked is what is verified.
\<close>

theorem Decode_closed:
  assumes "Decode kind raw = Inr obj"
  shows "set (map fst obj) = set (schema_fields kind) \<and> distinct (map fst obj) \<and> schema_value (AMap obj) \<and>
     ParseStrictJSON raw = Inr (AMap obj)"
proof -
  have v: "Parse raw = Inr (AMap obj)" "Validate kind (AMap obj) = None"
    using assms by (simp_all add: Decode_Inr)
  then show ?thesis
    using Validate_object [OF v(2)] Parse_schema_value [OF v(1)] Parse_agrees [OF v(1)] by simp
qed

definition example_result :: bytes where
  "example_result = [CHR ''{''] @ comma_join (map (\<lambda>(n, v). marshal_string n @ CHR '':'' # v)
     [(''protocol'', marshal_string ''hytch.a9-vault-cas-result''), (''schema_version'', ''1''), (''environment'', marshal_string ''dev''),
      (''installation_binding_id'', marshal_string (replicate 22 (CHR ''A''))), (''sequencer_epoch'', marshal_string (replicate 22 (CHR ''A''))),
      (''subscription_generation'', ''3''), (''state'', marshal_string ''ACTIVE''), (''outcome'', marshal_string ''APPLIED''),
      (''accepted_stream_sequence'', ''7''), (''idempotent_replay'', ''false'')]) @ [CHR ''}'']"

definition example_result_object :: object where
  "example_result_object =
     [(''protocol'', AString ''hytch.a9-vault-cas-result''), (''schema_version'', ANumber ''1''), (''environment'', AString ''dev''),
      (''installation_binding_id'', AString (replicate 22 (CHR ''A''))), (''sequencer_epoch'', AString (replicate 22 (CHR ''A''))),
      (''subscription_generation'', ANumber ''3''), (''state'', AString ''ACTIVE''), (''outcome'', AString ''APPLIED''),
      (''accepted_stream_sequence'', ANumber ''7''), (''idempotent_replay'', ABool False)]"

lemma example_result_parsed: "Parse example_result = Inr (AMap example_result_object)"
  by code_simp

lemma zero_ids_encode: "b64_encode (replicate (3 * n + 1) (byte_of 0)) = replicate (4 * n + 2) (CHR ''A'')"
proof (induction n)
  case 0
  have "replicate 1 (byte_of 0) = [byte_of 0]" "replicate 2 (CHR ''A'') = [CHR ''A'', CHR ''A'']"
    by (simp_all add: numeral_2_eq_2)
  then show ?case
    by (simp add: Let_def b64_char_0)
next
  case (Suc n)
  have "3 * Suc n + 1 = Suc (Suc (Suc (3 * n + 1)))" and "4 * Suc n + 2 = Suc (Suc (Suc (Suc (4 * n + 2))))"
    by simp_all
  then show ?case
    using Suc by (simp only: replicate_Suc b64_encode.simps) (simp add: Let_def b64_char_0)
qed

lemma zero_id_encodes: "b64_encode (replicate 16 (byte_of 0)) = replicate 22 (CHR ''A'')"
  using zero_ids_encode [of 5] by (simp del: b64_encode.simps)

lemma zero_id_field: "lookup obj name = AString (replicate 22 (CHR ''A'')) \<Longrightarrow> base64URLField obj name 16 reason = Inr (replicate 16 (byte_of 0))"
  using b64_decode_encode [of "replicate 16 (byte_of 0)"] zero_id_encodes by (simp add: base64URLField_def stringField_def)

lemma example_result_valid: "Validate ResultKind (AMap example_result_object) = None"
proof -
  have closed: "closedObject (AMap example_result_object) resultFields = Inr example_result_object"
    by (simp add: closedObject_Inr example_result_object_def resultFields_def)
  have ints: "parse_int ''1'' = Some 1" "parse_int ''3'' = Some 3" "parse_int ''7'' = Some 7"
    by code_simp+
  have ids: "base64URLField example_result_object f 16 ReasonNoncanonicalBase64URL = Inr (replicate 16 (byte_of 0))"
    if "f \<in> {''installation_binding_id'', ''sequencer_epoch''}" for f
    using that by (intro zero_id_field) (auto simp: lookup_def example_result_object_def)
  have strings: "stringField example_result_object ''protocol'' = Inr ''hytch.a9-vault-cas-result''" "stringField example_result_object ''environment'' = Inr ''dev''"
    "stringField example_result_object ''state'' = Inr ''ACTIVE''" "stringField example_result_object ''outcome'' = Inr ''APPLIED''"
    and numbers: "integerField example_result_object ''schema_version'' 1 1 = Inr 1"
    "integerField example_result_object ''subscription_generation'' 0 maxSafeInteger = Inr 3" "integerField example_result_object ''accepted_stream_sequence'' 0 maxSafeInteger = Inr 7"
    and flag: "lookup example_result_object ''idempotent_replay'' = ABool False"
    by (simp_all add: example_result_object_def lookup_def stringField_def integerField_def ints maxSafeInteger_def)
  show ?thesis
    by (simp add: validateResult_def closed fixedString_def fixedInteger_def environmentField_def enumStringField_def each_def failed_def
        strings numbers flag ids)
qed

theorem Decode_closed_witness:
  "Decode ResultKind example_result = Inr example_result_object \<and> set (map fst example_result_object) = set resultFields \<and>
   distinct (map fst example_result_object) \<and> ParseStrictJSON example_result = Inr (AMap example_result_object)"
proof -
  have d: "Decode ResultKind example_result = Inr example_result_object"
    by (simp only: Decode_Inr example_result_parsed example_result_valid simp_thms)
  show ?thesis
    using Decode_closed [OF d] d by simp
qed

text \<open>
  C35. The linear duplicate check of the subscriptions, over the set of their \<open>json.Marshal\<close> texts, gives the same answer as
  the pairwise comparison of the values, for the members of every text that was read.
\<close>

theorem unique_scan_equivalent:
  assumes "Parse raw = Inr (AMap obj)" and "lookup obj name = AArray vs"
  shows "uniqueCanonicalItems vs reason = uniqueItems vs reason"
proof -
  have "(name, AArray vs) \<in> set obj"
    using assms(2) by (auto simp: lookup_def split: option.splits dest: map_of_SomeD)
  then have "schema_value (AArray vs)"
    using Parse_schema_value [OF assms(1)] by fastforce
  then show ?thesis
    using unique_keys_from [of "[]" vs reason] by (simp add: uniqueCanonicalItems_def uniqueItems_def)
qed

definition example_items :: bytes where
  "example_items = [CHR ''{'', CHR 0x22, CHR ''s'', CHR 0x22, CHR '':'', CHR ''['', CHR ''1'', CHR '','', CHR ''2'', CHR '','', CHR ''1'', CHR '']'', CHR ''}'']"

theorem unique_scan_equivalent_witness:
  "Parse example_items = Inr (AMap [(''s'', AArray [ANumber ''1'', ANumber ''2'', ANumber ''1''])]) \<and>
   uniqueCanonicalItems [ANumber ''1'', ANumber ''2'', ANumber ''1''] ReasonDuplicateSubscription = Some ReasonDuplicateSubscription"
proof -
  have p: "Parse example_items = Inr (AMap [(''s'', AArray [ANumber ''1'', ANumber ''2'', ANumber ''1''])])"
    by code_simp
  have "uniqueItems [ANumber ''1'', ANumber ''2'', ANumber ''1''] ReasonDuplicateSubscription = Some ReasonDuplicateSubscription"
    by (simp add: uniqueItems_def deep_equal_def)
  then show ?thesis
    using unique_scan_equivalent [OF p, of "''s''"] p by (simp add: lookup_def)
qed

end
