(* ===== verification/Spec2Isabelle.thy ===== *)
theory Spec2Isabelle
  imports Topics Gate8_Wrapper A9_State Authority Durable_Worker Trust_Topic_Keys Trust_Store Service_Claims A9_Schema
begin

text \<open>
  A verification library for the push notification server under \<open>src/\<close>.

  \<^bold>\<open>The program.\<close> The server receives XMTP envelopes on a stream, finds the installations that subscribed to the
  topic, decides for each whether a push may be sent, wraps the payload and hands it to APNs or FCM. Envelopes go
  through a durable queue, so that a crash neither loses nor repeats a delivery. Authority to send comes from signed
  artifacts: receive capabilities, Welcome authorizations and policy controls (\<open>pkg/authority\<close>), and the A9 objects
  that a modern-api service signs under keys of a root-signed keyset (\<open>pkg/a9trust\<close>). Requests of that service are
  authenticated with one-use tokens (\<open>pkg/a9auth\<close>), and the keysets and used tokens live in PostgreSQL
  (\<open>pkg/db/a9_store.go\<close>).

  \<^bold>\<open>Conventions.\<close> \<open>string\<close> and \<open>[]byte\<close> are lists of characters; \<open>uint64\<close> and the other machine integers are words;
  \<open>time.Time\<close> is the number of nanoseconds since 1970 as an integer; a pointer is an option; an error is an option or
  the left side of a sum; a \<open>Verdict\<close> is a value. Everything is executable. What is not in the repository is an
  argument: Ed25519 (\<open>ed25519_verify\<close>), the provider libraries, protobuf decoding, clocks and the failures of the
  database. SHA-256, HMAC, AES-GCM, Base64, JSON and the calendar, which the sources use from the Go library, are
  written out.

  \<^bold>\<open>Foundations.\<close> \<open>Go_Prelude\<close> has the shared types, lemmas, fact collections and the interface \<open>prefix_code\<close> of
  unambiguous encoders; \<open>Go_Encoding\<close> hex, Base64, JSON escapes and UTF-8; \<open>Go_Crypto\<close> SHA-256, HMAC and AES-GCM;
  \<open>Go_Time\<close> the calendar and the wire format of times; \<open>Go_JSON\<close> the token scanner of \<open>encoding/json\<close>, whose recursion
  is on fuel of twice the input length plus two, shown to be enough (\<open>decode_fuel\<close>); \<open>Interfaces\<close> the structs of
  \<open>pkg/interfaces\<close>; \<open>Topics\<close> the parser and printer of \<open>pkg/topics\<close>.

  \<^bold>\<open>Sending.\<close> \<open>Push_Policy\<close> models \<open>pkg/pushpolicy\<close>: which requests are eligible, what the fingerprint binds, and that
  an authorization allows one delivery in every interleaving. \<open>Gate8_Header\<close>, \<open>Gate8_Replay\<close> and \<open>Gate8_Wrapper\<close> model
  \<open>pkg/gate8wrapper\<close>: sealing and opening are inverse, nothing is opened twice, and exactly when sealing fails.
  \<open>Authority\<close> models \<open>pkg/authority\<close>: what each signed artifact binds and exactly which are accepted. \<open>A9_State\<close> models
  \<open>internal/a9conformance/state\<close>: a denial is final, uncertainty is latched, replacement is atomic.

  \<^bold>\<open>The durable queue.\<close> \<open>Notification_Queue\<close> models \<open>pkg/notificationqueue\<close> with the statements of
  \<open>pkg/db/queries/notification_queue.sql.go\<close> on two tables: their constraints hold in every run, a worker that lost its
  lease is refused, claims are bounded. \<open>Delivery\<close> classifies provider answers (\<open>pkg/delivery\<close>), \<open>Dispatcher\<close> models
  \<open>pkg/xmtp/common.go\<close> over the interface \<open>recipient_ledger\<close> of the queue, and \<open>Durable_Worker\<close> models
  \<open>pkg/xmtp/durable_worker.go\<close>: a recipient that got the notification does not get it again, a frame is acknowledged
  only once it is stored, and retries end.

  \<^bold>\<open>Schemas.\<close> \<open>A9_Schema\<close> models \<open>pkg/a9schema\<close>: its reader and the six closed schemas. An accepted object has exactly the
  members of its schema and reads the same in the trust library, and the linear duplicate check of the subscriptions
  answers as the pairwise one does, because the JSON text of a value determines it.

  \<^bold>\<open>Trust.\<close> \<open>Strict_JSON\<close> is the strict parser and the canonical writer of \<open>pkg/a9trust/jcs.go\<close>, inverse to each other.
  \<open>Trust_Primitives\<close> has \<open>primitives.go\<close>, \<open>verdict.go\<close> and the signed objects of \<open>signed.go\<close>; \<open>Trust_Keyset\<close> \<open>keyset.go\<close>:
  which keysets are accepted and that a rotation strands no signature. \<open>Trust_Topic_Keys\<close> is \<open>config.go\<close>: redaction of
  the secret document, erasure of a secret at its deadline under any wall clock, and reconciliation with the keyset.
  \<open>Trust_Store\<close> is \<open>A9KeysetStore\<close> of \<open>pkg/db/a9_store.go\<close> on the tables of migration 12: it refines a register that only
  moves forward or is latched. \<open>Service_Auth\<close> is \<open>jwt.go\<close>, \<open>pkg/a9auth\<close> and \<open>A9ReplayStore\<close>, with the interface
  \<open>replay_fence\<close> that the store in memory and the store in the database interpret; \<open>Service_Claims\<close> shows which tokens
  are accepted and that one token authenticates at most one request.

  \<^bold>\<open>Interleaving and failures.\<close> An operation that a mutex or a transaction makes atomic is one step; concurrent
  callers are sequences of steps in any order. A transaction takes effect at its commit, which may also fail or be
  lost after it took effect. Loops that retry are recursive over the list of the outcomes of their attempts, or carry a
  termination proof. The database clock is assumed not to go back where a theorem says so.

  \<^bold>\<open>Not modelled.\<close> The trust manager (\<open>manager.go\<close>: refresh, leases and the retries of the latch run in goroutines),
  the validation of assertions, watermarks and control objects in \<open>pkg/a9trust\<close>, the vault (\<open>pkg/vault\<close>: mostly SQL
  functions, roles and row locks of the migrations), the HTTP, gRPC and Connect handlers (\<open>pkg/api\<close>, \<open>pkg/a9api\<close>,
  \<open>pkg/registration\<close>, \<open>pkg/a10registration\<close>, \<open>pkg/incidentaccess\<close>), A3 trust
  (\<open>pkg/a3trust\<close>), listeners and clients of the streams, provider transports, wiring, flags and logs, and generated
  code. The overwriting of freed secrets and constant-time comparison are not visible in values.
\<close>

end
